(* ===== verification/Fp_Prelude.thy ===== *)
theory Fp_Prelude
  imports Main "HOL-Library.Word"
begin

text \<open>
  Shared vocabulary of the development: the machine types the Rust sources use, the result
  type of fallible operations with the early-return operator, the byte encodings of
  unsigned integers (\<^verbatim>\<open>to_le_bytes\<close>, \<^verbatim>\<open>to_be_bytes\<close> and their inverses), slices with
  bounds checks, and the generic list lemmas the components share.

  A Rust \<^verbatim>\<open>Result<T, E>\<close> is a value of \<open>'e + 'a\<close> (\<open>Inl\<close> the error), a \<^verbatim>\<open>Vec<u8>\<close> or a
  \<^verbatim>\<open>&[u8]\<close> is a list of 8-bit words, a fixed array \<^verbatim>\<open>[u8; N]\<close> is such a list whose length
  the well-formedness predicates pin to \<open>N\<close>.
\<close>

named_theorems wire_simps \<open>evaluation of byte-level encoders and slices\<close>
named_theorems result_simps \<open>case analysis of fallible operations\<close>

type_synonym byte = "8 word"
type_synonym bytes = "8 word list"
type_synonym u16 = "16 word"
type_synonym u32 = "32 word"
type_synonym u64 = "64 word"
type_synonym u128 = "128 word"

section \<open>Results and early return\<close>

text \<open>\<open>rbind r f\<close> is \<^verbatim>\<open>let x = r?; f(x)\<close>.\<close>

definition rbind :: "'e + 'a \<Rightarrow> ('a \<Rightarrow> 'e + 'b) \<Rightarrow> 'e + 'b" where
  "rbind r f = (case r of Inl e \<Rightarrow> Inl e | Inr x \<Rightarrow> f x)"

text \<open>\<open>ok_or e x\<close> is \<^verbatim>\<open>x.ok_or(e)\<close>.\<close>

definition ok_or :: "'e \<Rightarrow> 'a option \<Rightarrow> 'e + 'a" where
  "ok_or e x = (case x of None \<Rightarrow> Inl e | Some v \<Rightarrow> Inr v)"

text \<open>\<open>res_ok r\<close> is \<^verbatim>\<open>r.ok()\<close>, \<open>is_ok r\<close> is \<^verbatim>\<open>r.is_ok()\<close>.\<close>

definition res_ok :: "'e + 'a \<Rightarrow> 'a option" where
  "res_ok r = (case r of Inl _ \<Rightarrow> None | Inr v \<Rightarrow> Some v)"

definition is_ok :: "'e + 'a \<Rightarrow> bool" where
  "is_ok r = (case r of Inl _ \<Rightarrow> False | Inr _ \<Rightarrow> True)"

lemma rbind_simps [simp, result_simps]:
  "rbind (Inl e) f = Inl e"
  "rbind (Inr x) f = f x"
  by (simp_all add: rbind_def)

lemma rbind_Inr_conv: "rbind r f = Inr y \<longleftrightarrow> (\<exists>x. r = Inr x \<and> f x = Inr y)"
  by (cases r) auto

lemma rbind_Inl_conv:
  "rbind r f = Inl e \<longleftrightarrow> r = Inl e \<or> (\<exists>x. r = Inr x \<and> f x = Inl e)"
  by (cases r) auto

lemma ok_or_simps [simp, result_simps]:
  "ok_or e None = Inl e"
  "ok_or e (Some v) = Inr v"
  by (simp_all add: ok_or_def)

lemma ok_or_Inr_conv: "ok_or e x = Inr v \<longleftrightarrow> x = Some v"
  by (cases x) auto

lemma res_ok_simps [simp, result_simps]:
  "res_ok (Inl e) = None"
  "res_ok (Inr v) = Some v"
  by (simp_all add: res_ok_def)

lemma is_ok_simps [simp, result_simps]:
  "\<not> is_ok (Inl e)"
  "is_ok (Inr v)"
  by (simp_all add: is_ok_def)

lemma is_ok_conv: "is_ok r \<longleftrightarrow> (\<exists>v. r = Inr v)"
  by (cases r) auto

section \<open>Slices\<close>

text \<open>\<open>slice i j b\<close> is \<^verbatim>\<open>&b[i..j]\<close> where the source has checked the bounds;
  \<open>get_slice i j b\<close> is \<^verbatim>\<open>b.get(i..j)\<close>, which checks them itself.\<close>

definition slice :: "nat \<Rightarrow> nat \<Rightarrow> 'a list \<Rightarrow> 'a list" where
  "slice i j b = take (j - i) (drop i b)"

definition get_slice :: "nat \<Rightarrow> nat \<Rightarrow> 'a list \<Rightarrow> 'a list option" where
  "get_slice i j b = (if i \<le> j \<and> j \<le> length b then Some (slice i j b) else None)"

definition get_at :: "nat \<Rightarrow> 'a list \<Rightarrow> 'a option" where
  "get_at i b = (if i < length b then Some (b ! i) else None)"

lemma length_slice [simp]: "j \<le> length b \<Longrightarrow> length (slice i j b) = j - i"
  by (simp add: slice_def)

lemma slice_append_left: "j \<le> length a \<Longrightarrow> slice i j (a @ b) = slice i j a"
  by (simp add: slice_def)

lemma slice_append_right:
  "length a \<le> i \<Longrightarrow> slice i j (a @ b) = slice (i - length a) (j - length a) b"
  by (simp add: slice_def)

lemma slice_take: "j \<le> n \<Longrightarrow> slice i j (take n b) = slice i j b"
  by (simp add: slice_def drop_take min_def diff_le_mono)

lemma slice_all [simp]: "length b \<le> j \<Longrightarrow> slice 0 j b = b"
  by (simp add: slice_def)

lemma slice_mid:
  "length a = i \<Longrightarrow> length m = j - i \<Longrightarrow> slice i j (a @ m @ c) = m"
  by (simp add: slice_def)

lemma slice_end:
  "length a = i \<Longrightarrow> length m = j - i \<Longrightarrow> slice i j (a @ m) = m"
  by (simp add: slice_def)

lemma length_SucE:
  assumes "length xs = Suc n"
  obtains y ys where "xs = y # ys" "length ys = n"
  using assms by (cases xs) auto

section \<open>Integers as bytes\<close>

text \<open>The \<open>n\<close> low-order bytes of a natural number, least significant first, and back.\<close>

primrec le_enc :: "nat \<Rightarrow> nat \<Rightarrow> bytes" where
  "le_enc 0 x = []"
| "le_enc (Suc n) x = word_of_nat (x mod 256) # le_enc n (x div 256)"

primrec le_dec :: "bytes \<Rightarrow> nat" where
  "le_dec [] = 0"
| "le_dec (b # bs) = unat b + 256 * le_dec bs"

lemma le_enc_numeral [wire_simps]:
  "le_enc (numeral k) x = word_of_nat (x mod 256) # le_enc (pred_numeral k) (x div 256)"
  by (simp only: numeral_eq_Suc [of k] le_enc.simps)

lemma length_le_enc [simp]: "length (le_enc n x) = n"
  by (induction n arbitrary: x) auto

lemma unat_byte_mod [simp]: "unat (word_of_nat (x mod 256) :: byte) = x mod 256"
  by (simp add: unat_of_nat)

lemma unat_byte_less [simp]: "unat (b :: byte) < 256"
  using unsigned_less [of b] by simp

lemma le_dec_enc: "le_dec (le_enc n x) = x mod 256 ^ n"
proof (induction n arbitrary: x)
  case (Suc n)
  show ?case
    by (simp add: Suc.IH mod_mult2_eq add.commute)
qed simp

lemma le_dec_enc_small [wire_simps]: "x < 256 ^ n \<Longrightarrow> le_dec (le_enc n x) = x"
  by (simp add: le_dec_enc)

lemma le_dec_bound: "le_dec bs < 256 ^ length bs"
proof (induction bs)
  case (Cons b bs)
  have "unat b + 256 * le_dec bs < 256 + 256 * le_dec bs" by simp
  also have "\<dots> \<le> 256 * 256 ^ length bs" using Cons.IH by linarith
  finally show ?case by simp
qed simp

lemma le_enc_dec: "le_enc (length bs) (le_dec bs) = bs"
proof (induction bs)
  case (Cons b bs)
  have "(unat b + 256 * le_dec bs) mod 256 = unat b"
    using unat_byte_less [of b] by simp
  moreover have "(unat b + 256 * le_dec bs) div 256 = le_dec bs"
    using unat_byte_less [of b] by simp
  ultimately show ?case using Cons.IH by simp
qed simp

text \<open>\<^verbatim>\<open>uN::to_le_bytes\<close>, \<^verbatim>\<open>to_be_bytes\<close>, \<^verbatim>\<open>from_le_bytes\<close> and \<^verbatim>\<open>from_be_bytes\<close>; \<open>n\<close> is the
  number of bytes of the type.\<close>

definition to_le_bytes :: "nat \<Rightarrow> 'a::len word \<Rightarrow> bytes" where
  "to_le_bytes n w = le_enc n (unat w)"

definition to_be_bytes :: "nat \<Rightarrow> 'a::len word \<Rightarrow> bytes" where
  "to_be_bytes n w = rev (le_enc n (unat w))"

definition from_le_bytes :: "bytes \<Rightarrow> 'a::len word" where
  "from_le_bytes bs = word_of_nat (le_dec bs)"

definition from_be_bytes :: "bytes \<Rightarrow> 'a::len word" where
  "from_be_bytes bs = word_of_nat (le_dec (rev bs))"

lemma length_to_bytes [simp]:
  "length (to_le_bytes n w) = n" "length (to_be_bytes n w) = n"
  by (simp_all add: to_le_bytes_def to_be_bytes_def)

lemma unat_less_256_power:
  fixes w :: "'a::len word"
  assumes "LENGTH('a) \<le> 8 * n"
  shows "unat w < 256 ^ n"
proof -
  have "unat w < 2 ^ LENGTH('a)" by (rule unsigned_less)
  also have "(2::nat) ^ LENGTH('a) \<le> 2 ^ (8 * n)"
    using assms by (rule power_increasing) simp
  also have "(2::nat) ^ (8 * n) = 256 ^ n" by (simp add: power_mult)
  finally show ?thesis .
qed

lemma from_to_le_bytes:
  fixes w :: "'a::len word"
  shows "LENGTH('a) \<le> 8 * n \<Longrightarrow> from_le_bytes (to_le_bytes n w) = w"
  by (simp add: from_le_bytes_def to_le_bytes_def le_dec_enc unat_less_256_power)

lemma from_to_be_bytes:
  fixes w :: "'a::len word"
  shows "LENGTH('a) \<le> 8 * n \<Longrightarrow> from_be_bytes (to_be_bytes n w) = w"
  by (simp add: from_be_bytes_def to_be_bytes_def le_dec_enc unat_less_256_power)

lemma from_to_be_u16 [simp, wire_simps]: "from_be_bytes (to_be_bytes 2 (w :: u16)) = w"
  by (rule from_to_be_bytes) simp

lemma from_to_be_u32 [simp, wire_simps]: "from_be_bytes (to_be_bytes 4 (w :: u32)) = w"
  by (rule from_to_be_bytes) simp

lemma from_to_be_u64 [simp, wire_simps]: "from_be_bytes (to_be_bytes 8 (w :: u64)) = w"
  by (rule from_to_be_bytes) simp

lemma from_to_le_u32 [simp, wire_simps]: "from_le_bytes (to_le_bytes 4 (w :: u32)) = w"
  by (rule from_to_le_bytes) simp

lemma from_to_le_u64 [simp, wire_simps]: "from_le_bytes (to_le_bytes 8 (w :: u64)) = w"
  by (rule from_to_le_bytes) simp

lemma to_from_be_bytes:
  assumes "length bs = n" "8 * n \<le> LENGTH('a::len)"
  shows "to_be_bytes n (from_be_bytes bs :: 'a word) = bs"
proof -
  have "le_dec (rev bs) < 256 ^ n" using le_dec_bound [of "rev bs"] assms(1) by simp
  also have "(256::nat) ^ n = 2 ^ (8 * n)" by (simp add: power_mult)
  also have "\<dots> \<le> 2 ^ LENGTH('a)" using assms(2) by (rule power_increasing) simp
  finally have "unat (word_of_nat (le_dec (rev bs)) :: 'a word) = le_dec (rev bs)"
    by (simp add: unat_of_nat)
  then show ?thesis
    using assms(1) le_enc_dec [of "rev bs"] by (simp add: to_be_bytes_def from_be_bytes_def)
qed

lemma to_from_le_bytes:
  assumes "length bs = n" "8 * n \<le> LENGTH('a::len)"
  shows "to_le_bytes n (from_le_bytes bs :: 'a word) = bs"
proof -
  have "le_dec bs < 256 ^ n" using le_dec_bound [of bs] assms(1) by simp
  also have "(256::nat) ^ n = 2 ^ (8 * n)" by (simp add: power_mult)
  also have "\<dots> \<le> 2 ^ LENGTH('a)" using assms(2) by (rule power_increasing) simp
  finally have "unat (word_of_nat (le_dec bs) :: 'a word) = le_dec bs"
    by (simp add: unat_of_nat)
  then show ?thesis
    using assms(1) le_enc_dec [of bs] by (simp add: to_le_bytes_def from_le_bytes_def)
qed

text \<open>The length prefix of a frame: \<^verbatim>\<open>body.len() as u32\<close> read back \<^verbatim>\<open>as usize\<close>.\<close>

lemma unat_be_u32_length:
  "n < 2 ^ 32 \<Longrightarrow> unat (from_be_bytes (to_be_bytes 4 (word_of_nat n :: u32)) :: u32) = n"
  by (simp add: unat_of_nat)

section \<open>Constant-time comparison\<close>

text \<open>\<^verbatim>\<open>ct_eq\<close>/\<^verbatim>\<open>constant_eq\<close> (control-server/src/pop.rs, control-server/src/auth.rs and
  node/src/util.rs share it): unequal lengths differ, otherwise the XOR differences are
  accumulated and compared with zero.\<close>

unbundle bit_operations_syntax

definition ct_eq :: "bytes \<Rightarrow> bytes \<Rightarrow> bool" where
  "ct_eq a b =
     (if length a \<noteq> length b then False
      else fold (\<lambda>(x, y) diff. diff OR (x XOR y)) (zip a b) 0 = 0)"

lemma fold_or_eq_0:
  "fold (\<lambda>(x, y) diff. diff OR (x XOR y)) ps (d :: byte) = 0
     \<longleftrightarrow> d = 0 \<and> (\<forall>(x, y) \<in> set ps. x = y)"
proof (induction ps arbitrary: d)
  case (Cons p ps)
  obtain x y where p: "p = (x, y)" by (cases p)
  have xy: "x XOR y = 0 \<longleftrightarrow> x = y"
    by (metis bit.xor_self xor.assoc xor.right_neutral)
  have "d OR (x XOR y) = 0 \<longleftrightarrow> d = 0 \<and> x XOR y = 0"
    by (metis word_ao_absorbs(1) word_ao_absorbs(2) word_bw_comms(2) or_eq_0_iff)
  with xy show ?case by (simp add: Cons.IH p)
qed simp

lemma ct_eq_iff [simp]: "ct_eq a b \<longleftrightarrow> a = b"
proof (cases "length a = length b")
  case True
  then have "(\<forall>(x, y) \<in> set (zip a b). x = y) \<longleftrightarrow> a = b"
    by (induction a b rule: list_induct2) auto
  with True show ?thesis by (simp add: ct_eq_def fold_or_eq_0)
qed (auto simp: ct_eq_def)

section \<open>List search\<close>

lemma find_Some_conv_hd: "List.find P xs = Some x \<Longrightarrow> x \<in> set xs \<and> P x"
  by (auto simp: find_Some_iff)

lemma find_upt_least:
  assumes "List.find P [a..<b] = Some k"
  shows "a \<le> k \<and> k < b \<and> P k \<and> (\<forall>j. a \<le> j \<and> j < k \<longrightarrow> \<not> P j)"
proof -
  from assms obtain i where i: "i < b - a" "P (a + i)" "k = a + i" "\<forall>j<i. \<not> P (a + j)"
    by (auto simp: find_Some_iff)
  have "\<not> P j" if "a \<le> j" "j < k" for j
    using i(3) i(4) that by (metis add_diff_inverse_nat leD nat_add_left_cancel_less)
  with i show ?thesis by auto
qed

lemma find_upt_None: "List.find P [a..<b] = None \<longleftrightarrow> (\<forall>k. a \<le> k \<and> k < b \<longrightarrow> \<not> P k)"
  by (auto simp: find_None_iff)

section \<open>IP addresses\<close>

text \<open>\<^verbatim>\<open>std::net::IpAddr\<close>; the octets of an address are its big-endian bytes.\<close>

datatype ip_addr = IpV4 u32 | IpV6 u128

definition ip_octets :: "ip_addr \<Rightarrow> bytes" where
  "ip_octets ip = (case ip of IpV4 a \<Rightarrow> to_be_bytes 4 a | IpV6 a \<Rightarrow> to_be_bytes 16 a)"

text \<open>\<^verbatim>\<open>IpAddr::from([u8; 4])\<close> and \<^verbatim>\<open>IpAddr::from([u8; 16])\<close>.\<close>

definition ipv4_from :: "bytes \<Rightarrow> ip_addr" where "ipv4_from b = IpV4 (from_be_bytes b)"
definition ipv6_from :: "bytes \<Rightarrow> ip_addr" where "ipv6_from b = IpV6 (from_be_bytes b)"

lemma from_to_be_u128 [simp, wire_simps]: "from_be_bytes (to_be_bytes 16 (w :: u128)) = w"
  by (rule from_to_be_bytes) simp

lemma ip_octets_simps [simp]:
  "ip_octets (IpV4 x) = to_be_bytes 4 x"
  "ip_octets (IpV6 y) = to_be_bytes 16 y"
  by (simp_all add: ip_octets_def)

lemma length_ip_octets: "length (ip_octets ip) = (case ip of IpV4 _ \<Rightarrow> 4 | IpV6 _ \<Rightarrow> 16)"
  by (simp add: ip_octets_def split: ip_addr.split)

lemma ip_from_octets [simp]:
  "ipv4_from (to_be_bytes 4 x) = IpV4 x"
  "ipv6_from (to_be_bytes 16 y) = IpV6 y"
  by (simp_all add: ipv4_from_def ipv6_from_def)

end
