(* ===== verification/Replay_Filter.thy ===== *)
theory Replay_Filter
  imports Main
begin

text \<open>
  The contract every anti-replay filter of the program promises its client: a message
  identifier is accepted at most once. Two components provide it: the data-plane counter
  window of a Noise session (\<^verbatim>\<open>ReceivingKeyCounterValidator\<close>, session.rs) and the cache of
  disco probe identifiers (\<^verbatim>\<open>Probes::accept_ping\<close>, node/src/disco.rs). The locale states the
  laws one step of such a filter obeys; the at-most-once property of whole runs is proved
  here once and reached through the interpretations.
\<close>

text \<open>The inputs a filter lets through when they are presented one after the other.\<close>

fun accepted_inputs :: "('s \<Rightarrow> 'i \<Rightarrow> 's \<times> bool) \<Rightarrow> 's \<Rightarrow> 'i list \<Rightarrow> 'i list" where
  "accepted_inputs step s [] = []"
| "accepted_inputs step s (i # is) =
     (let (s', ok) = step s i
      in if ok then i # accepted_inputs step s' is else accepted_inputs step s' is)"

text \<open>Every input of the run is admissible in the state it is presented to.\<close>

fun admissible_run :: "('s \<Rightarrow> 'i \<Rightarrow> 's \<times> bool) \<Rightarrow> ('s \<Rightarrow> 'i \<Rightarrow> bool) \<Rightarrow> 's \<Rightarrow> 'i list \<Rightarrow> bool" where
  "admissible_run step good s [] = True"
| "admissible_run step good s (i # is) =
     (good s i \<and> admissible_run step good (fst (step s i)) is)"

locale replay_filter =
  fixes step :: "'s \<Rightarrow> 'i \<Rightarrow> 's \<times> bool"
    and good :: "'s \<Rightarrow> 'i \<Rightarrow> bool"
    and ident :: "'i \<Rightarrow> 'k"
    and inv :: "'s \<Rightarrow> bool"
    and spent :: "'s \<Rightarrow> 'k \<Rightarrow> bool"
  assumes inv_step: "inv s \<Longrightarrow> good s i \<Longrightarrow> inv (fst (step s i))"
    and fresh_if_accepted: "inv s \<Longrightarrow> good s i \<Longrightarrow> snd (step s i) \<Longrightarrow> \<not> spent s (ident i)"
    and spent_if_accepted:
      "inv s \<Longrightarrow> good s i \<Longrightarrow> snd (step s i) \<Longrightarrow> spent (fst (step s i)) (ident i)"
    and spent_persists: "inv s \<Longrightarrow> good s i \<Longrightarrow> spent s k \<Longrightarrow> spent (fst (step s i)) k"
begin

lemma spent_never_accepted:
  "inv s \<Longrightarrow> admissible_run step good s is \<Longrightarrow> spent s k
     \<Longrightarrow> k \<notin> ident ` set (accepted_inputs step s is)"
proof (induction "is" arbitrary: s)
  case (Cons i "is")
  from Cons.prems have g: "good s i" "admissible_run step good (fst (step s i)) is" by auto
  have inv': "inv (fst (step s i))" by (rule inv_step [OF Cons.prems(1) g(1)])
  have sp': "spent (fst (step s i)) k" by (rule spent_persists [OF Cons.prems(1) g(1) Cons.prems(3)])
  have rest: "k \<notin> ident ` set (accepted_inputs step (fst (step s i)) is)"
    by (rule Cons.IH [OF inv' g(2) sp'])
  have "k \<noteq> ident i" if "snd (step s i)"
    using fresh_if_accepted [OF Cons.prems(1) g(1) that] Cons.prems(3) by auto
  with rest show ?case by (auto simp: Let_def case_prod_unfold)
qed simp

lemma at_most_once:
  "inv s \<Longrightarrow> admissible_run step good s is \<Longrightarrow> distinct (map ident (accepted_inputs step s is))"
proof (induction "is" arbitrary: s)
  case (Cons i "is")
  from Cons.prems have g: "good s i" "admissible_run step good (fst (step s i)) is" by auto
  have inv': "inv (fst (step s i))" by (rule inv_step [OF Cons.prems(1) g(1)])
  have tl: "distinct (map ident (accepted_inputs step (fst (step s i)) is))"
    by (rule Cons.IH [OF inv' g(2)])
  have "ident i \<notin> ident ` set (accepted_inputs step (fst (step s i)) is)" if "snd (step s i)"
    by (rule spent_never_accepted [OF inv' g(2)
          spent_if_accepted [OF Cons.prems(1) g(1) that]])
  with tl show ?case by (auto simp: Let_def case_prod_unfold)
qed simp

end

end
