(* ===== verification/Replay_Window.thy ===== *)
theory Replay_Window
  imports Fp_Prelude Replay_Filter
begin

text \<open>
  The anti-replay window of a Noise session: \<^verbatim>\<open>ReceivingKeyCounterValidator\<close> of
  engine/crypto/fp-crypto-noise/src/session.rs, a 1024-bit circular bitmap kept in sixteen
  64-bit words together with the next expected counter. Counters stay 64-bit words and
  every addition wraps as the release build does. The loops of \<^verbatim>\<open>mark_did_receive\<close> are
  modelled as loops that might not return, and returning is proved.

  The bitmap refines an abstract window, a next counter and the set of all counters
  received so far, and the filter contract of \<open>Replay_Filter\<close> is discharged for it.
\<close>

section \<open>Errors of the crypto layer\<close>

text \<open>\<^verbatim>\<open>fp_crypto::Error\<close> (engine/crypto/fp-crypto/src/error.rs).\<close>

datatype crypto_error =
    RandomnessUnavailable
  | MustHandshakeFirst
  | AlreadyHandshake
  | DestinationBufferTooSmall
  | IncorrectPacketLength
  | UnexpectedPacket
  | WrongPacketType
  | WrongIndex
  | WrongKey
  | InvalidTai64nTimestamp
  | WrongTai64nTimestamp
  | InvalidMac
  | InvalidAeadTag
  | InvalidCounter
  | DuplicateCounter
  | InvalidPacket
  | NoCurrentSession
  | IfaceSendFailed
  | NonceExhausted

section \<open>The validator\<close>

definition WORD_SIZE :: u64 where "WORD_SIZE = 64"
definition N_WORDS :: u64 where "N_WORDS = 16"
definition N_BITS :: u64 where "N_BITS = WORD_SIZE * N_WORDS"

record validator =
  next_counter :: u64
  receive_cnt :: u64
  bitmap :: "u64 list"

definition default_validator :: validator where
  "default_validator = \<lparr>next_counter = 0, receive_cnt = 0, bitmap = replicate 16 0\<rparr>"

text \<open>Word and bit position of a counter in the circular bitmap.\<close>

definition word_of :: "u64 \<Rightarrow> nat" where
  "word_of idx = unat ((idx mod N_BITS) div WORD_SIZE)"

definition bit_of :: "u64 \<Rightarrow> nat" where
  "bit_of idx = unat ((idx mod N_BITS) mod WORD_SIZE)"

definition set_bit_at :: "u64 \<Rightarrow> u64 list \<Rightarrow> u64 list" where
  "set_bit_at idx bm = bm[word_of idx := (bm ! word_of idx) OR push_bit (bit_of idx) 1]"

definition clear_bit_at :: "u64 \<Rightarrow> u64 list \<Rightarrow> u64 list" where
  "clear_bit_at idx bm = bm[word_of idx := (bm ! word_of idx) AND NOT (push_bit (bit_of idx) 1)]"

definition clear_word_at :: "u64 \<Rightarrow> u64 list \<Rightarrow> u64 list" where
  "clear_word_at idx bm = bm[word_of idx := 0]"

definition check_bit_at :: "u64 list \<Rightarrow> u64 \<Rightarrow> bool" where
  "check_bit_at bm idx = (drop_bit (bit_of idx) (bm ! word_of idx) AND 1 = 1)"

definition will_accept :: "validator \<Rightarrow> u64 \<Rightarrow> crypto_error + unit" where
  "will_accept v counter =
     (if next_counter v \<le> counter then Inr ()
      else if counter + N_BITS < next_counter v then Inl InvalidCounter
      else if \<not> check_bit_at (bitmap v) counter then Inr ()
      else Inl DuplicateCounter)"

text \<open>The three clearing loops. Each returns the position it stopped at and the bitmap.\<close>

partial_function (option) clear_to_aligned :: "u64 \<Rightarrow> u64 \<Rightarrow> u64 list \<Rightarrow> (u64 \<times> u64 list) option" where
  "clear_to_aligned i counter bm =
     (if i mod WORD_SIZE \<noteq> 0 \<and> i < counter
      then clear_to_aligned (i + 1) counter (clear_bit_at i bm)
      else Some (i, bm))"

partial_function (option) clear_words :: "u64 \<Rightarrow> u64 \<Rightarrow> u64 list \<Rightarrow> (u64 \<times> u64 list) option" where
  "clear_words i counter bm =
     (if i + WORD_SIZE < counter
      then clear_words ((i + WORD_SIZE) AND (0 - WORD_SIZE)) counter (clear_word_at i bm)
      else Some (i, bm))"

partial_function (option) clear_rest :: "u64 \<Rightarrow> u64 \<Rightarrow> u64 list \<Rightarrow> (u64 \<times> u64 list) option" where
  "clear_rest i counter bm =
     (if i < counter then clear_rest (i + 1) counter (clear_bit_at i bm) else Some (i, bm))"

definition clear_between :: "u64 \<Rightarrow> u64 \<Rightarrow> u64 list \<Rightarrow> u64 list option" where
  "clear_between i counter bm =
     Option.bind (clear_to_aligned i counter bm) (\<lambda>(i, bm).
     Option.bind (clear_words i counter bm) (\<lambda>(i, bm).
     Option.bind (clear_rest i counter bm) (\<lambda>(i, bm). Some bm)))"

definition mark_did_receive :: "validator \<Rightarrow> u64 \<Rightarrow> (validator \<times> (crypto_error + unit)) option" where
  "mark_did_receive v counter =
     (if counter + N_BITS < next_counter v then Some (v, Inl InvalidCounter)
      else if counter = next_counter v then
        Some (v\<lparr>bitmap := set_bit_at counter (bitmap v), next_counter := next_counter v + 1\<rparr>, Inr ())
      else if counter < next_counter v then
        (if check_bit_at (bitmap v) counter then Some (v, Inl InvalidCounter)
         else Some (v\<lparr>bitmap := set_bit_at counter (bitmap v)\<rparr>, Inr ()))
      else
        Option.bind
          (if N_BITS \<le> counter - next_counter v then Some (map (\<lambda>_. 0) (bitmap v))
           else clear_between (next_counter v) counter (bitmap v))
          (\<lambda>bm. Some (v\<lparr>bitmap := set_bit_at counter bm, next_counter := counter + 1\<rparr>, Inr ())))"

text \<open>The session marks a counter through this wrapper, which also counts what it accepts.\<close>

definition receiving_counter_mark ::
    "validator \<Rightarrow> u64 \<Rightarrow> (validator \<times> (crypto_error + unit)) option" where
  "receiving_counter_mark v counter =
     Option.bind (mark_did_receive v counter) (\<lambda>(v, ret).
       Some (if is_ok ret then v\<lparr>receive_cnt := receive_cnt v + 1\<rparr> else v, ret))"

section \<open>Bits of the bitmap\<close>

definition bit_pos :: "u64 list \<Rightarrow> nat \<Rightarrow> bool" where
  "bit_pos bm p = bit (bm ! (p div 64)) (p mod 64)"

lemmas size_defs = WORD_SIZE_def N_WORDS_def N_BITS_def

lemma N_BITS_val: "N_BITS = 1024"
  by (simp add: size_defs)

lemma word_of_nat_eq: "word_of idx = unat idx mod 1024 div 64"
  by (simp add: word_of_def size_defs unat_div unat_mod)

lemma bit_of_nat_eq: "bit_of idx = unat idx mod 64"
proof -
  have "unat idx mod 1024 mod 64 = unat idx mod 64"
    by (rule mod_mod_cancel) simp
  then show ?thesis by (simp add: bit_of_def size_defs unat_mod)
qed

lemma word_of_less: "word_of idx < 16"
proof -
  have "unat idx mod 1024 < 1024" by simp
  then show ?thesis unfolding word_of_nat_eq by linarith
qed

lemma pos_split: "p < 1024 \<Longrightarrow> q < 1024 \<Longrightarrow> p div 64 = q div 64 \<Longrightarrow> p mod 64 = q mod 64 \<Longrightarrow> p = (q::nat)"
  by (metis div_mult_mod_eq)

lemma check_bit_pos: "check_bit_at bm idx = bit_pos bm (unat idx mod 1024)"
proof -
  have "unat idx mod 1024 mod 64 = unat idx mod 64" by (rule mod_mod_cancel) simp
  then show ?thesis
    by (simp add: check_bit_at_def bit_pos_def word_of_nat_eq bit_of_nat_eq and_one_eq
        bit_iff_odd_drop_bit odd_iff_mod_2_eq_one)
qed

lemma length_bit_ops [simp]:
  "length (set_bit_at idx bm) = length bm"
  "length (clear_bit_at idx bm) = length bm"
  "length (clear_word_at idx bm) = length bm"
  by (simp_all add: set_bit_at_def clear_bit_at_def clear_word_at_def)

lemma bit_exp_u64: "n < 64 \<Longrightarrow> bit (2 ^ m :: u64) n \<longleftrightarrow> m = n"
  by (auto simp: bit_exp_iff)

lemma bit_pos_set:
  assumes "length bm = 16" "p < 1024"
  shows "bit_pos (set_bit_at idx bm) p \<longleftrightarrow> p = unat idx mod 1024 \<or> bit_pos bm p"
proof -
  let ?q = "unat idx mod 1024"
  have q: "?q < 1024" "?q mod 64 = unat idx mod 64" by (simp_all add: mod_mod_cancel)
  show ?thesis
  proof (cases "p div 64 = ?q div 64")
    case True
    then have "p = ?q \<longleftrightarrow> p mod 64 = ?q mod 64"
      using pos_split [OF assms(2) q(1)] by auto
    with True assms word_of_less [of idx] show ?thesis
      by (auto simp: bit_pos_def set_bit_at_def word_of_nat_eq bit_of_nat_eq bit_or_iff
          bit_exp_u64 q(2))
  next
    case False
    then show ?thesis
      by (auto simp: bit_pos_def set_bit_at_def word_of_nat_eq nth_list_update)
  qed
qed

lemma bit_pos_clear_bit:
  assumes "length bm = 16" "p < 1024"
  shows "bit_pos (clear_bit_at idx bm) p \<longleftrightarrow> p \<noteq> unat idx mod 1024 \<and> bit_pos bm p"
proof -
  let ?q = "unat idx mod 1024"
  have q: "?q < 1024" "?q mod 64 = unat idx mod 64" by (simp_all add: mod_mod_cancel)
  show ?thesis
  proof (cases "p div 64 = ?q div 64")
    case True
    then have "p = ?q \<longleftrightarrow> p mod 64 = ?q mod 64"
      using pos_split [OF assms(2) q(1)] by auto
    with True assms word_of_less [of idx] show ?thesis
      by (auto simp: bit_pos_def clear_bit_at_def word_of_nat_eq bit_of_nat_eq bit_and_iff
          bit_not_iff bit_exp_u64 q(2))
  next
    case False
    then show ?thesis
      by (auto simp: bit_pos_def clear_bit_at_def word_of_nat_eq nth_list_update)
  qed
qed

lemma bit_pos_clear_word:
  assumes "length bm = 16" "p < 1024"
  shows "bit_pos (clear_word_at idx bm) p \<longleftrightarrow> p div 64 \<noteq> unat idx mod 1024 div 64 \<and> bit_pos bm p"
  using assms word_of_less [of idx]
  by (auto simp: bit_pos_def clear_word_at_def word_of_nat_eq nth_list_update)

lemma bit_pos_zero: "p < 1024 \<Longrightarrow> length bm = 16 \<Longrightarrow> \<not> bit_pos (map (\<lambda>_. 0) bm) p"
  by (simp add: bit_pos_def)

section \<open>The clearing loops\<close>

text \<open>\<open>bm'\<close> is \<open>bm\<close> with the bits of the counters in \<open>{a..<b}\<close> cleared.\<close>

definition cleared :: "nat \<Rightarrow> nat \<Rightarrow> u64 list \<Rightarrow> u64 list \<Rightarrow> bool" where
  "cleared a b bm bm' \<longleftrightarrow> length bm' = 16 \<and>
     (\<forall>p<1024. bit_pos bm' p \<longleftrightarrow> bit_pos bm p \<and> p \<notin> (\<lambda>k. k mod 1024) ` {a..<b})"

lemma cleared_refl: "length bm = 16 \<Longrightarrow> cleared a a bm bm"
  by (simp add: cleared_def)

lemma cleared_trans:
  assumes "cleared a b bm bm'" "cleared b c bm' bm''" "a \<le> b" "b \<le> c"
  shows "cleared a c bm bm''"
proof -
  have "{a..<c} = {a..<b} \<union> {b..<c}" using assms(3,4) by auto
  then show ?thesis using assms(1,2) by (auto simp: cleared_def image_Un)
qed

lemma cleared_bit: "length bm = 16 \<Longrightarrow> cleared (unat i) (Suc (unat i)) bm (clear_bit_at i bm)"
  by (auto simp: cleared_def bit_pos_clear_bit)

lemma aligned_word_residues:
  fixes n p :: nat
  assumes "n mod 64 = 0" "p < 1024"
  shows "p div 64 = n mod 1024 div 64 \<longleftrightarrow> p \<in> (\<lambda>k. k mod 1024) ` {n..<n + 64}"
proof
  let ?m = "n mod 1024"
  have m: "?m mod 64 = 0" using assms(1) by (simp add: mod_mod_cancel)
  assume "p div 64 = ?m div 64"
  then have "p = ?m + p mod 64"
    using m by (metis add.right_neutral mult_div_mod_eq)
  then have "p = (n + p mod 64) mod 1024"
    using assms(2) by (metis mod_add_left_eq mod_less)
  moreover have "n + p mod 64 \<in> {n..<n + 64}" by simp
  ultimately show "p \<in> (\<lambda>k. k mod 1024) ` {n..<n + 64}" by blast
next
  let ?m = "n mod 1024"
  have m: "?m mod 64 = 0" using assms(1) by (simp add: mod_mod_cancel)
  assume "p \<in> (\<lambda>k. k mod 1024) ` {n..<n + 64}"
  then obtain k where k: "n \<le> k" "k < n + 64" "p = k mod 1024" by auto
  define d where "d = k - n"
  have d: "d < 64" "p = (n + d) mod 1024" using k by (auto simp: d_def)
  obtain t where t: "?m = 64 * t" using m by (metis mod_0_imp_dvd dvdE)
  have "?m < 1024" by simp
  then have "t < 16" using t by linarith
  then have small: "?m + d < 1024" unfolding t using d(1) by linarith
  have "p = (?m + d) mod 1024" unfolding d(2) by (rule mod_add_left_eq [symmetric])
  with small have "p = ?m + d" by (metis mod_less)
  with t d(1) show "p div 64 = ?m div 64" by simp
qed

lemma cleared_word:
  assumes "length bm = 16" "unat i mod 64 = 0"
  shows "cleared (unat i) (unat i + 64) bm (clear_word_at i bm)"
proof (unfold cleared_def, intro conjI allI impI)
  show "length (clear_word_at i bm) = 16" using assms(1) by simp
next
  fix p :: nat assume p: "p < 1024"
  show "bit_pos (clear_word_at i bm) p \<longleftrightarrow>
      bit_pos bm p \<and> p \<notin> (\<lambda>k. k mod 1024) ` {unat i..<unat i + 64}"
    unfolding bit_pos_clear_word [OF assms(1) p] aligned_word_residues [OF assms(2) p] by blast
qed

lemma unat_Suc_less: "i < (c::u64) \<Longrightarrow> unat (i + 1) = Suc (unat i)"
proof -
  assume "i < c"
  then have "unat i + 1 < 2 ^ 64"
    using unsigned_less [of c, where 'a = nat] by (simp add: word_less_nat_alt)
  then show ?thesis using unat_add_lem [of i 1] by simp
qed

lemma clear_to_aligned_ok:
  assumes "length bm = 16" "i \<le> c"
  shows "\<exists>i' bm'. clear_to_aligned i c bm = Some (i', bm') \<and> i \<le> i' \<and> i' \<le> c \<and>
           (unat i' mod 64 = 0 \<or> i' = c) \<and> cleared (unat i) (unat i') bm bm'"
  using assms
proof (induction "unat c - unat i" arbitrary: i bm rule: less_induct)
  case less
  have al: "i mod WORD_SIZE = 0 \<longleftrightarrow> unat i mod 64 = 0"
    using unat_eq_zero [of "i mod 64"] by (simp add: WORD_SIZE_def unat_mod)
  show ?case
  proof (cases "i mod WORD_SIZE \<noteq> 0 \<and> i < c")
    case True
    have u: "unat (i + 1) = Suc (unat i)" using True unat_Suc_less by blast
    have lt: "unat c - unat (i + 1) < unat c - unat i"
      using True u by (metis diff_less_mono2 lessI word_less_nat_alt)
    have le: "i + 1 \<le> c" using True u by (metis Suc_leI word_le_nat_alt word_less_nat_alt)
    from less.hyps [OF lt _ le, of "clear_bit_at i bm"] less.prems(1)
    obtain i' bm' where r: "clear_to_aligned (i + 1) c (clear_bit_at i bm) = Some (i', bm')"
        "i + 1 \<le> i'" "i' \<le> c" "unat i' mod 64 = 0 \<or> i' = c"
        "cleared (unat (i + 1)) (unat i') (clear_bit_at i bm) bm'"
      by auto
    have "i \<le> i'" using r(2) u by (simp add: word_le_nat_alt)
    moreover have "cleared (unat i) (unat i') bm bm'"
      using cleared_trans [OF cleared_bit [OF less.prems(1), of i]] r(2,5) u
      by (simp add: word_le_nat_alt)
    ultimately show ?thesis
      using True r by (subst clear_to_aligned.simps) auto
  next
    case False
    then have "clear_to_aligned i c bm = Some (i, bm)"
      by (subst clear_to_aligned.simps) auto
    moreover have "unat i mod 64 = 0 \<or> i = c"
      using False less.prems(2) al by (auto simp: not_less)
    ultimately show ?thesis
      using less.prems cleared_refl by auto
  qed
qed

lemma align_id:
  assumes "unat (w::u64) mod 64 = 0"
  shows "w AND (0 - 64) = w"
proof -
  have "unat (take_bit 6 w) = 0" using assms by (simp add: take_bit_eq_mod unat_mod)
  then have "take_bit 6 w = 0" by (simp add: unat_eq_zero)
  then have low: "bit w n \<Longrightarrow> \<not> n < 6" for n by (metis bit_0_eq bit_take_bit_iff bot_apply bot_bool_def)
  have "(0 - 64 :: u64) = NOT (mask 6)" using minus_exp_eq_not_mask [of 6, where 'a = u64] by simp
  then have "w AND (0 - 64) = w AND NOT (mask 6)" by (simp only:)
  also have "\<dots> = w"
    using low by (auto intro!: bit_word_eqI simp: bit_and_iff bit_not_iff bit_mask_iff)
  finally show ?thesis .
qed

lemma clear_words_ok:
  assumes "length bm = 16" "unat i mod 64 = 0 \<or> i = c" "i \<le> c" "unat c + 1024 < 2 ^ 64"
  shows "\<exists>i' bm'. clear_words i c bm = Some (i', bm') \<and> i \<le> i' \<and> i' \<le> c \<and>
           cleared (unat i) (unat i') bm bm'"
  using assms(1-3)
proof (induction "unat c - unat i" arbitrary: i bm rule: less_induct)
  case less
  have u: "unat (i + 64) = unat i + 64"
    using unat_add_lem [of i 64] less.prems(3) assms(4) by (simp add: word_le_nat_alt)
  show ?case
  proof (cases "i + 64 < c")
    case True
    then have lt: "unat i + 64 < unat c" using u by (simp add: word_less_nat_alt)
    then have al: "unat i mod 64 = 0" using less.prems(2) by auto
    then have al': "unat (i + 64) mod 64 = 0" using u by simp
    have le: "i + 64 \<le> c" using True by simp
    have "unat c - unat (i + 64) < unat c - unat i" using lt u by linarith
    from less.hyps [OF this _ _ le, of "clear_word_at i bm"] less.prems(1) al'
    obtain i' bm' where r: "clear_words (i + 64) c (clear_word_at i bm) = Some (i', bm')"
        "i + 64 \<le> i'" "i' \<le> c" "cleared (unat (i + 64)) (unat i') (clear_word_at i bm) bm'"
      by auto
    have "i \<le> i'" using r(2) u by (simp add: word_le_nat_alt)
    moreover have "cleared (unat i) (unat i') bm bm'"
      using cleared_trans [OF cleared_word [OF less.prems(1) al]] r(2,4) u
      by (simp add: word_le_nat_alt)
    ultimately show ?thesis
      using True r align_id [OF al'] by (subst clear_words.simps) (simp add: WORD_SIZE_def)
  next
    case False
    then have "clear_words i c bm = Some (i, bm)"
      by (subst clear_words.simps) (simp add: WORD_SIZE_def)
    then show ?thesis using less.prems cleared_refl by auto
  qed
qed

lemma clear_rest_ok:
  assumes "length bm = 16" "i \<le> c"
  shows "\<exists>bm'. clear_rest i c bm = Some (c, bm') \<and> cleared (unat i) (unat c) bm bm'"
  using assms
proof (induction "unat c - unat i" arbitrary: i bm rule: less_induct)
  case less
  show ?case
  proof (cases "i < c")
    case True
    have u: "unat (i + 1) = Suc (unat i)" using True unat_Suc_less by blast
    have lt: "unat c - unat (i + 1) < unat c - unat i"
      using True u by (metis diff_less_mono2 lessI word_less_nat_alt)
    have le: "i + 1 \<le> c" using True u by (metis Suc_leI word_le_nat_alt word_less_nat_alt)
    from less.hyps [OF lt _ le, of "clear_bit_at i bm"] less.prems(1)
    obtain bm' where r: "clear_rest (i + 1) c (clear_bit_at i bm) = Some (c, bm')"
        "cleared (unat (i + 1)) (unat c) (clear_bit_at i bm) bm'"
      by auto
    have "cleared (unat i) (unat c) bm bm'"
      using cleared_trans [OF cleared_bit [OF less.prems(1), of i]] r(2) u le
      by (simp add: word_le_nat_alt)
    then show ?thesis using True r by (subst clear_rest.simps) simp
  next
    case False
    then have "i = c" using less.prems(2) by simp
    then show ?thesis using less.prems cleared_refl by (subst clear_rest.simps) auto
  qed
qed

text \<open>
  Advancing the window always returns, and clears exactly the residues of the skipped
  counters.
\<close>

lemma clear_between_ok:
  assumes "length bm = 16" "i \<le> c" "unat c + 1024 < 2 ^ 64"
  shows "\<exists>bm'. clear_between i c bm = Some bm' \<and> cleared (unat i) (unat c) bm bm'"
proof -
  obtain i1 bm1 where 1: "clear_to_aligned i c bm = Some (i1, bm1)" "i \<le> i1" "i1 \<le> c"
      "unat i1 mod 64 = 0 \<or> i1 = c" "cleared (unat i) (unat i1) bm bm1"
    using clear_to_aligned_ok [OF assms(1,2)] by auto
  then have l1: "length bm1 = 16" by (simp add: cleared_def)
  obtain i2 bm2 where 2: "clear_words i1 c bm1 = Some (i2, bm2)" "i1 \<le> i2" "i2 \<le> c"
      "cleared (unat i1) (unat i2) bm1 bm2"
    using clear_words_ok [OF l1 1(4,3) assms(3)] by auto
  then have l2: "length bm2 = 16" by (simp add: cleared_def)
  obtain bm3 where 3: "clear_rest i2 c bm2 = Some (c, bm3)"
      "cleared (unat i2) (unat c) bm2 bm3"
    using clear_rest_ok [OF l2 2(3)] by auto
  have "cleared (unat i) (unat c) bm bm3"
    using cleared_trans [OF cleared_trans [OF 1(5) 2(4)] 3(2)] 1(2) 2(2,3)
    by (simp add: word_le_nat_alt)
  with 1(1) 2(1) 3(1) show ?thesis by (simp add: clear_between_def)
qed

section \<open>The abstract window\<close>

text \<open>
  The abstract window is the next expected counter and the set of all counters received;
  a counter is refused when it is more than 1024 behind or already received.
\<close>

definition spec_mark :: "nat \<times> nat set \<Rightarrow> nat \<Rightarrow> (nat \<times> nat set) \<times> (crypto_error + unit)" where
  "spec_mark w c =
     (if c + 1024 < fst w \<or> c \<in> snd w then (w, Inl InvalidCounter)
      else ((max (fst w) (Suc c), insert c (snd w)), Inr ()))"

definition win_rel :: "validator \<Rightarrow> nat \<times> nat set \<Rightarrow> bool" where
  "win_rel v w \<longleftrightarrow> length (bitmap v) = 16 \<and> unat (next_counter v) = fst w \<and> snd w \<subseteq> {..<fst w} \<and>
     (\<forall>k<fst w. fst w \<le> k + 1024 \<longrightarrow> (bit_pos (bitmap v) (k mod 1024) \<longleftrightarrow> k \<in> snd w))"

text \<open>The counters a validator will not accept any more.\<close>

definition spent :: "validator \<Rightarrow> nat \<Rightarrow> bool" where
  "spent v k \<longleftrightarrow> k < unat (next_counter v) \<and>
     (k + 1024 < unat (next_counter v) \<or> bit_pos (bitmap v) (k mod 1024))"

lemma win_rel_spent: "length (bitmap v) = 16 \<Longrightarrow> win_rel v (unat (next_counter v), {k. spent v k})"
  by (auto simp: win_rel_def spent_def)

lemma spent_if_received: "win_rel v w \<Longrightarrow> k \<in> snd w \<Longrightarrow> spent v k"
  by (auto simp: win_rel_def spent_def)

lemma default_win_rel: "win_rel default_validator (0, {})"
  by (simp add: win_rel_def default_validator_def)

lemma residue_inj:
  fixes k c :: nat
  assumes "k mod 1024 = c mod 1024" "k \<le> c" "c < k + 1024"
  shows "k = c"
proof (rule ccontr)
  assume "k \<noteq> c"
  with assms(2) have "0 < c - k" by simp
  moreover have "1024 dvd c - k" using assms(1,2) mod_eq_dvd_iff_nat by metis
  ultimately have "1024 \<le> c - k" by (rule dvd_imp_le [rotated])
  with assms(3) show False by simp
qed

lemma cleared_all:
  assumes "length bm = 16" "a + 1024 \<le> b"
  shows "cleared a b bm (map (\<lambda>_. 0) bm)"
proof -
  have "p \<in> (\<lambda>k. k mod 1024) ` {a..<b}" if "p < 1024" for p
  proof -
    have "\<exists>k. a \<le> k \<and> k < a + 1024 \<and> p = k mod 1024"
    proof (cases "a mod 1024 \<le> p")
      case True
      have "(a + (p - a mod 1024)) mod 1024 = p" using True that by (metis le_add_diff_inverse mod_add_left_eq mod_less)
      moreover have "p - a mod 1024 < 1024" using that by simp
      ultimately show ?thesis by (metis le_add1 nat_add_left_cancel_less)
    next
      case False
      define d where "d = 1024 - a mod 1024 + p"
      have "a mod 1024 < 1024" by simp
      then have "a mod 1024 + d = 1024 + p" "d < 1024" using False by (simp_all add: d_def)
      then have "(a + d) mod 1024 = p" using that by (metis mod_add_left_eq mod_add_self1 mod_less)
      with \<open>d < 1024\<close> show ?thesis by (metis le_add1 nat_add_left_cancel_less)
    qed
    with assms(2) show ?thesis by auto
  qed
  with assms(1) show ?thesis by (auto simp: cleared_def bit_pos_zero)
qed

lemma advance_win_rel:
  assumes rel: "win_rel v w" and le: "fst w \<le> unat c" and top: "Suc (unat c) < 2 ^ 64"
    and clr: "cleared (fst w) (unat c) (bitmap v) bm"
  shows "win_rel (v\<lparr>bitmap := set_bit_at c bm, next_counter := c + 1\<rparr>)
           (Suc (unat c), insert (unat c) (snd w))"
proof -
  let ?c = "unat c"
  have nx: "unat (c + 1) = Suc ?c" using top unat_add_lem [of c 1] by simp
  have len: "length bm = 16" using clr by (simp add: cleared_def)
  have bits: "bit_pos (set_bit_at c bm) (k mod 1024) \<longleftrightarrow> k \<in> insert ?c (snd w)"
    if k: "k < Suc ?c" "Suc ?c \<le> k + 1024" for k
  proof (cases "k = ?c")
    case True
    then show ?thesis using len by (simp add: bit_pos_set)
  next
    case False
    with k have kc: "k < ?c" "?c < k + 1024" by auto
    have "k mod 1024 \<noteq> ?c mod 1024" using residue_inj [of k ?c] kc by auto
    then have 1: "bit_pos (set_bit_at c bm) (k mod 1024) \<longleftrightarrow>
        bit_pos (bitmap v) (k mod 1024) \<and> k mod 1024 \<notin> (\<lambda>j. j mod 1024) ` {fst w..<?c}"
      using len clr by (simp add: bit_pos_set cleared_def)
    show ?thesis
    proof (cases "k < fst w")
      case True
      then have "k mod 1024 \<notin> (\<lambda>j. j mod 1024) ` {fst w..<?c}"
        using residue_inj [of k] kc by fastforce
      moreover have "bit_pos (bitmap v) (k mod 1024) \<longleftrightarrow> k \<in> snd w"
        using rel True kc le by (simp add: win_rel_def)
      ultimately show ?thesis using 1 kc by simp
    next
      case False
      then have "k mod 1024 \<in> (\<lambda>j. j mod 1024) ` {fst w..<?c}" using kc by simp
      moreover have "k \<notin> snd w" using rel False by (auto simp: win_rel_def)
      ultimately show ?thesis using 1 kc by simp
    qed
  qed
  have "snd w \<subseteq> {..<Suc ?c}" using rel le by (auto simp: win_rel_def)
  with nx len bits show ?thesis by (simp add: win_rel_def)
qed

lemma insert_win_rel:
  assumes rel: "win_rel v w" and "unat c < fst w" "fst w \<le> unat c + 1024"
  shows "win_rel (v\<lparr>bitmap := set_bit_at c (bitmap v)\<rparr>) (fst w, insert (unat c) (snd w))"
proof -
  have "bit_pos (set_bit_at c (bitmap v)) (k mod 1024) \<longleftrightarrow> k = unat c \<or> k \<in> snd w"
    if "k < fst w" "fst w \<le> k + 1024" for k
  proof -
    have "k = unat c" if "k mod 1024 = unat c mod 1024"
    proof (cases "k \<le> unat c")
      case True
      with residue_inj [OF that True] \<open>fst w \<le> k + 1024\<close> assms(2) show ?thesis by linarith
    next
      case False
      with residue_inj [OF that [symmetric]] \<open>k < fst w\<close> assms(3) show ?thesis by linarith
    qed
    then have "k mod 1024 = unat c mod 1024 \<longleftrightarrow> k = unat c" by auto
    then show ?thesis using rel that by (simp add: win_rel_def bit_pos_set)
  qed
  with rel assms(2) show ?thesis by (simp add: win_rel_def)
qed

section \<open>Marking a counter\<close>

lemma word_order_unat:
  "(next_counter v \<le> c) = (unat (next_counter v) \<le> unat c)"
  "(c < next_counter v) = (unat c < unat (next_counter v))"
  "(c = next_counter v) = (unat c = unat (next_counter v))"
  by (simp_all add: word_le_nat_alt word_less_nat_alt word_unat_eq_iff)

text \<open>Where no addition wraps, marking is the step of the abstract window.\<close>

lemma mark_refines:
  assumes rel: "win_rel v w" and top: "unat c + 1024 < 2 ^ 64"
  shows "\<exists>v'. mark_did_receive v c = Some (v', snd (spec_mark w (unat c))) \<and>
           win_rel v' (fst (spec_mark w (unat c)))"
proof -
  have n: "unat (next_counter v) = fst w" and len: "length (bitmap v) = 16"
    using rel by (simp_all add: win_rel_def)
  have add: "unat (c + N_BITS) = unat c + 1024"
    using top unat_add_lem [of c N_BITS] by (simp add: N_BITS_val)
  then have oldw: "c + N_BITS < next_counter v \<longleftrightarrow> unat c + 1024 < fst w"
    by (simp add: word_less_nat_alt n)
  note cmp = word_order_unat [where v = v and c = c, unfolded n]
  consider (old) "unat c + 1024 < fst w" | (mid) "fst w \<le> unat c + 1024" "unat c < fst w"
    | (eq) "unat c = fst w" | (new) "fst w < unat c" by linarith
  then show ?thesis
  proof cases
    case old
    then show ?thesis using oldw rel
      by (simp add: mark_did_receive_def spec_mark_def)
  next
    case mid
    have "check_bit_at (bitmap v) c \<longleftrightarrow> unat c \<in> snd w"
      using rel mid by (simp add: check_bit_pos win_rel_def)
    moreover have "max (fst w) (Suc (unat c)) = fst w" using mid by simp
    ultimately show ?thesis
      using mid oldw cmp insert_win_rel [OF rel mid(2,1)] rel
      by (simp add: mark_did_receive_def spec_mark_def)
  next
    case eq
    then have "unat c \<notin> snd w" using rel by (auto simp: win_rel_def)
    moreover have "c = next_counter v" using eq cmp by simp
    ultimately show ?thesis
      using eq oldw advance_win_rel [OF rel, of c "bitmap v"] cleared_refl [OF len] top
      by (simp add: mark_did_receive_def spec_mark_def max_def)
  next
    case new
    then have out: "unat c \<notin> snd w" using rel by (auto simp: win_rel_def)
    have sub: "unat (c - next_counter v) = unat c - fst w"
      using new cmp n by (metis less_imp_le unat_sub)
    obtain bm where bm: "(if N_BITS \<le> c - next_counter v then Some (map (\<lambda>_. 0) (bitmap v))
           else clear_between (next_counter v) c (bitmap v)) = Some bm"
        "cleared (fst w) (unat c) (bitmap v) bm"
    proof (cases "N_BITS \<le> c - next_counter v")
      case True
      then have "fst w + 1024 \<le> unat c" using sub new by (simp add: word_le_nat_alt N_BITS_val)
      with True show ?thesis using that [OF _ cleared_all [OF len]] by simp
    next
      case False
      have "next_counter v \<le> c" using cmp new by simp
      from clear_between_ok [OF len this top] obtain bm' where
        "clear_between (next_counter v) c (bitmap v) = Some bm'"
        "cleared (unat (next_counter v)) (unat c) (bitmap v) bm'" by auto
      with False show ?thesis using that [of bm'] n by simp
    qed
    show ?thesis
      using new oldw out cmp bm advance_win_rel [OF rel _ _ bm(2)] top
      by (simp add: mark_did_receive_def spec_mark_def max_def)
  qed
qed

text \<open>The last 1024 counters, where the age test wraps: refused, or a step of the window.\<close>

lemma mark_top:
  assumes rel: "win_rel v w" and top: "2 ^ 64 \<le> unat c + 1024"
  shows "mark_did_receive v c = Some (v, Inl InvalidCounter) \<or>
    (fst w + 1024 \<le> unat c \<and> mark_did_receive v c =
       Some (v\<lparr>bitmap := set_bit_at c (map (\<lambda>_. 0) (bitmap v)), next_counter := c + 1\<rparr>, Inr ()))"
proof (cases "c + N_BITS < next_counter v")
  case True
  then show ?thesis by (simp add: mark_did_receive_def)
next
  case False
  have n: "unat (next_counter v) = fst w" using rel by (simp add: win_rel_def)
  have "unat (c + N_BITS) = (unat c + 1024) mod 2 ^ 64"
    by (simp add: N_BITS_val unat_word_ariths)
  also have "\<dots> = unat c + 1024 - 2 ^ 64"
    using top unsigned_less [of c, where 'a = nat] by (simp add: mod_if)
  finally have "fst w \<le> unat c + 1024 - 2 ^ 64"
    using False n by (simp add: word_less_nat_alt)
  then have far: "fst w + 1024 \<le> unat c"
    using unsigned_less [of c, where 'a = nat] top by simp
  then have ord: "next_counter v < c" by (simp add: word_less_nat_alt n)
  then have "unat (c - next_counter v) = unat c - fst w" using n by (metis less_imp_le unat_sub)
  then have "N_BITS \<le> c - next_counter v" using far by (simp add: word_le_nat_alt N_BITS_val)
  with False far ord show ?thesis by (auto simp: mark_did_receive_def)
qed

lemma mark_error_unchanged:
  "mark_did_receive v c = Some (v', Inl e) \<Longrightarrow> v' = v \<and> e = InvalidCounter"
  by (auto simp: mark_did_receive_def split: if_splits Option.bind_splits)

lemma mark_sound:
  assumes rel: "win_rel v w" and c: "c \<noteq> - 1"
  shows "mark_did_receive v c = Some (v, Inl InvalidCounter) \<or>
    (\<exists>v'. mark_did_receive v c = Some (v', Inr ()) \<and> snd (spec_mark w (unat c)) = Inr () \<and>
       win_rel v' (fst (spec_mark w (unat c))))"
proof (cases "unat c + 1024 < 2 ^ 64")
  case True
  obtain v' where v': "mark_did_receive v c = Some (v', snd (spec_mark w (unat c)))"
      "win_rel v' (fst (spec_mark w (unat c)))"
    using mark_refines [OF rel True] by auto
  show ?thesis
  proof (cases "snd (spec_mark w (unat c)) = Inr ()")
    case False
    then obtain e where "snd (spec_mark w (unat c)) = Inl e" by (cases "snd (spec_mark w (unat c))") auto
    with v'(1) show ?thesis using mark_error_unchanged [of v c v' e] by simp
  qed (use v' in auto)
next
  case False
  have "unat c \<noteq> 2 ^ 64 - 1"
  proof -
    have "unat (- 1 :: u64) = 2 ^ 64 - 1" by (simp add: unsigned_minus_1_eq_mask mask_eq_exp_minus_1)
    with c show ?thesis by (metis word_unat_eq_iff)
  qed
  then have top: "Suc (unat c) < 2 ^ 64" using unsigned_less [of c, where 'a = nat] by simp
  have len: "length (bitmap v) = 16" using rel by (simp add: win_rel_def)
  have t64: "2 ^ 64 \<le> unat c + 1024" using False by simp
  show ?thesis
  proof (cases "fst w + 1024 \<le> unat c")
    case True
    then have "unat c \<notin> snd w" using rel by (auto simp: win_rel_def)
    moreover have "max (fst w) (Suc (unat c)) = Suc (unat c)" using True by simp
    ultimately show ?thesis
      using mark_top [OF rel t64] True advance_win_rel [OF rel _ top cleared_all [OF len True]]
      by (auto simp: spec_mark_def)
  qed (use mark_top [OF rel t64] in simp)
qed

lemma mark_total:
  assumes len: "length (bitmap v) = 16"
  shows "\<exists>v' r. mark_did_receive v c = Some (v', r) \<and> length (bitmap v') = 16"
proof (cases "unat c + 1024 < 2 ^ 64")
  case True
  then show ?thesis using mark_refines [OF win_rel_spent [OF len] True] by (auto simp: win_rel_def)
next
  case False
  then show ?thesis using mark_top [OF win_rel_spent [OF len], of c] len by auto
qed

text \<open>The quick check before decryption answers what marking will answer.\<close>

lemma will_accept_spec:
  assumes "win_rel v w" "unat c + 1024 < 2 ^ 64"
  shows "will_accept v c =
    (if unat c + 1024 < fst w then Inl InvalidCounter
     else if unat c \<in> snd w then Inl DuplicateCounter else Inr ())"
proof -
  have n: "unat (next_counter v) = fst w" using assms(1) by (simp add: win_rel_def)
  have "unat (c + N_BITS) = unat c + 1024"
    using assms(2) unat_add_lem [of c N_BITS] by (simp add: N_BITS_val)
  moreover have "check_bit_at (bitmap v) c \<longleftrightarrow> unat c \<in> snd w"
    if "unat c < fst w" "fst w \<le> unat c + 1024"
    using assms(1) that by (simp add: check_bit_pos win_rel_def)
  moreover have "unat c \<notin> snd w" if "fst w \<le> unat c" using assms(1) that by (auto simp: win_rel_def)
  ultimately show ?thesis
    by (simp add: will_accept_def word_le_nat_alt word_less_nat_alt n)
qed

section \<open>The filter contract\<close>

text \<open>One received counter, as a step of the filter.\<close>

definition window_step :: "validator \<Rightarrow> u64 \<Rightarrow> validator \<times> bool" where
  "window_step v c =
     (case receiving_counter_mark v c of Some (v', r) \<Rightarrow> (v', is_ok r) | None \<Rightarrow> (v, False))"

lemma win_rel_receive_cnt [simp]: "win_rel (v\<lparr>receive_cnt := n\<rparr>) w = win_rel v w"
  by (simp add: win_rel_def)

lemma window_step_cases:
  assumes "win_rel v w" "c \<noteq> - 1"
  shows "window_step v c = (v, False) \<or>
    (\<exists>v'. window_step v c = (v', True) \<and> snd (spec_mark w (unat c)) = Inr () \<and>
       win_rel v' (fst (spec_mark w (unat c))))"
  using mark_sound [OF assms] by (auto simp: window_step_def receiving_counter_mark_def)

interpretation window: replay_filter window_step "\<lambda>_ c. c \<noteq> - 1" unat "\<lambda>v. length (bitmap v) = 16" spent
proof
  fix v :: validator and c :: u64
  assume v: "length (bitmap v) = 16" and c: "c \<noteq> - 1"
  note rel = win_rel_spent [OF v]
  show "length (bitmap (fst (window_step v c))) = 16"
    using window_step_cases [OF rel c] v by (auto simp: win_rel_def)
  {
    assume "snd (window_step v c)"
    then show "\<not> spent v (unat c)"
      using window_step_cases [OF rel c] by (auto simp: spec_mark_def split: if_splits)
  }
  {
    assume "snd (window_step v c)"
    then obtain v' where "window_step v c = (v', True)" "unat c \<in> snd (fst (spec_mark (unat (next_counter v), {k. spent v k}) (unat c)))"
        "win_rel v' (fst (spec_mark (unat (next_counter v), {k. spent v k}) (unat c)))"
      using window_step_cases [OF rel c] by (auto simp: spec_mark_def split: if_splits)
    then show "spent (fst (window_step v c)) (unat c)" using spent_if_received by auto
  }
  fix k assume k: "spent v k"
  show "spent (fst (window_step v c)) k"
  proof (cases "snd (window_step v c)")
    case True
    then obtain v' where "window_step v c = (v', True)" "k \<in> snd (fst (spec_mark (unat (next_counter v), {k. spent v k}) (unat c)))"
        "win_rel v' (fst (spec_mark (unat (next_counter v), {k. spent v k}) (unat c)))"
      using window_step_cases [OF rel c] k by (auto simp: spec_mark_def split: if_splits)
    then show ?thesis using spent_if_received by auto
  next
    case False
    then have "window_step v c = (v, False)" using window_step_cases [OF rel c] by auto
    with k show ?thesis by simp
  qed
qed

lemma window_admissible: "- 1 \<notin> set cs \<Longrightarrow> admissible_run window_step (\<lambda>_ c. c \<noteq> - 1) v cs"
  by (induction cs arbitrary: v) auto

section \<open>Properties\<close>

text \<open>
  C8. The bitmap implements the window: in any state that represents a next counter and a
  set of received counters, marking a counter below \<open>2^64 - 1024\<close> returns, answers what the
  abstract window answers and leaves a state that represents its successor. For the 1024 counters
  above, \<open>counter + 1024\<close> wraps in the source and the window is not the abstract one; a session
  stops sending at the counter \<open>2^48\<close>.
\<close>

theorem mark_refines_window:
  assumes "win_rel v w" "unat c + 1024 < 2 ^ 64"
  shows "\<exists>v'. mark_did_receive v c = Some (v', snd (spec_mark w (unat c))) \<and>
           win_rel v' (fst (spec_mark w (unat c)))"
  by (rule mark_refines [OF assms])

theorem mark_refines_window_witness:
  "\<exists>v'. mark_did_receive default_validator 5 = Some (v', Inr ()) \<and> win_rel v' (6, {5})"
  using mark_refines_window [OF default_win_rel, of 5] by (simp add: spec_mark_def)

text \<open>
  C3. No replay gets through a session's window: whatever sequence of counters other than
  \<open>2^64 - 1\<close> is presented to a fresh validator, the counters it accepts are distinct.
\<close>

theorem window_at_most_once:
  assumes "- 1 \<notin> set cs"
  shows "distinct (accepted_inputs window_step default_validator cs)"
proof -
  have "distinct (map unat (accepted_inputs window_step default_validator cs))"
    using default_win_rel
    by (intro window.at_most_once window_admissible assms) (simp add: win_rel_def)
  then show ?thesis by (simp add: distinct_map)
qed

theorem window_at_most_once_witness:
  "distinct (accepted_inputs window_step default_validator [0, 7, 7, 3, 0])"
  by (rule window_at_most_once) simp

text \<open>
  C39. Marking always returns: the clearing loops end for every counter and every window of
  sixteen words, and the bitmap keeps its size.
\<close>

theorem mark_did_receive_returns:
  assumes "length (bitmap v) = 16"
  shows "\<exists>v' r. mark_did_receive v c = Some (v', r) \<and> length (bitmap v') = 16"
  by (rule mark_total [OF assms])

theorem mark_did_receive_returns_witness:
  "\<exists>v' r. mark_did_receive default_validator (- 1) = Some (v', r) \<and> length (bitmap v') = 16"
  by (rule mark_did_receive_returns) (simp add: default_validator_def)

text \<open>The quick check and the marking agree: \<open>will_accept\<close> lets a counter through exactly when
  \<open>mark_did_receive\<close> would accept it; what it refuses it calls invalid when the counter is too
  far back and duplicate when it was received.\<close>

lemma will_accept_agrees_with_mark:
  assumes "win_rel v w" "unat c + 1024 < 2 ^ 64"
  shows "(will_accept v c = Inr () \<longleftrightarrow> (\<exists>v'. mark_did_receive v c = Some (v', Inr ()))) \<and>
    (will_accept v c = Inl DuplicateCounter \<longleftrightarrow> unat c \<in> snd w \<and> fst w \<le> unat c + 1024)"
  using mark_refines [OF assms] by (auto simp: will_accept_spec [OF assms] spec_mark_def)

text \<open>
  The one counter the filter does not cover: on a fresh window the counter \<open>2^64 - 1\<close> is
  accepted, wraps the next counter back to 0, and is accepted again when replayed.
\<close>

lemma last_counter_replays:
  "accepted_inputs window_step default_validator [- 1, - 1] = [- 1, - 1]"
  by (simp add: window_step_def receiving_counter_mark_def mark_did_receive_def default_validator_def N_BITS_val Let_def)

end
