(* ===== verification/Noise_Crypto.thy ===== *)
theory Noise_Crypto
  imports Fp_Prelude Replay_Window
begin

text \<open>
  The primitives of the Noise layer. The hash, the MACs, X25519 and ChaCha20-Poly1305 come
  from third-party crates (blake2, hmac, x25519-dalek, ring); they are the fields of the
  record \<open>crypto\<close>, an argument of every definition that uses them, and \<open>crypto_ok\<close> collects
  their documented behaviour. The wrappers the repository puts around them
  (engine/crypto/fp-crypto-noise/src/handshake.rs) are definitions here.

  Randomness is an argument as well: \<open>r k n\<close> is what the \<open>k\<close>-th call of
  \<^verbatim>\<open>OsRng.try_fill_bytes\<close> of an operation puts into a buffer of \<open>n\<close> bytes, or \<open>None\<close> when the
  operating system gives none.
\<close>

section \<open>Third-party primitives\<close>

record crypto =
  blake2s256 :: "bytes \<Rightarrow> bytes"
  hmac_blake2s :: "bytes \<Rightarrow> bytes \<Rightarrow> bytes"
  blake2s_mac :: "bytes \<Rightarrow> bytes \<Rightarrow> bytes"
  x25519_dh :: "bytes \<Rightarrow> bytes \<Rightarrow> bytes"
  x25519_public :: "bytes \<Rightarrow> bytes"
  chacha_key_ok :: "bytes \<Rightarrow> bool"
  chacha_seal :: "bytes \<Rightarrow> bytes \<Rightarrow> bytes \<Rightarrow> bytes \<Rightarrow> (bytes \<times> bytes) option"
  chacha_open :: "bytes \<Rightarrow> bytes \<Rightarrow> bytes \<Rightarrow> bytes \<Rightarrow> bytes option"
  verify_slices_are_equal :: "bytes \<Rightarrow> bytes \<Rightarrow> bool"

type_synonym rng = "nat \<Rightarrow> nat \<Rightarrow> bytes option"

text \<open>
  What the code relies on: output sizes; that both ends of an X25519 exchange compute the
  same secret; that a ChaCha20-Poly1305 key has 32 bytes; that sealing keeps the length,
  makes a 16-byte tag and is inverted by opening under the same key, nonce and associated
  data; that the constant-time comparison is equality.
\<close>

definition crypto_ok :: "crypto \<Rightarrow> bool" where
  "crypto_ok C \<longleftrightarrow>
     (\<forall>d. length (blake2s256 C d) = 32) \<and>
     (\<forall>k d. length (hmac_blake2s C k d) = 32) \<and>
     (\<forall>k d. length (blake2s_mac C k d) = 16) \<and>
     (\<forall>a. length (x25519_public C a) = 32) \<and>
     (\<forall>a b. x25519_dh C a (x25519_public C b) = x25519_dh C b (x25519_public C a)) \<and>
     (\<forall>k. chacha_key_ok C k \<longleftrightarrow> length k = 32) \<and>
     (\<forall>k n a p. length k = 32 \<and> length n = 12 \<longrightarrow>
        (\<exists>c t. chacha_seal C k n a p = Some (c, t) \<and> length c = length p \<and> length t = 16 \<and>
               chacha_open C k n a (c @ t) = Some p)) \<and>
     (\<forall>k n a c p. chacha_open C k n a c = Some p \<longrightarrow> length c = length p + 16) \<and>
     (\<forall>x y. verify_slices_are_equal C x y \<longleftrightarrow> x = y)"

definition rng_ok :: "rng \<Rightarrow> bool" where
  "rng_ok r \<longleftrightarrow> (\<forall>k n. \<exists>b. r k n = Some b \<and> length b = n)"

section \<open>Wrappers of the repository\<close>

definition b2s_hash :: "crypto \<Rightarrow> bytes \<Rightarrow> bytes \<Rightarrow> bytes" where
  "b2s_hash C data1 data2 = blake2s256 C (data1 @ data2)"

definition b2s_hmac :: "crypto \<Rightarrow> bytes \<Rightarrow> bytes \<Rightarrow> bytes" where
  "b2s_hmac C key data1 = hmac_blake2s C (key @ replicate 32 0) data1"

definition b2s_hmac2 :: "crypto \<Rightarrow> bytes \<Rightarrow> bytes \<Rightarrow> bytes \<Rightarrow> bytes" where
  "b2s_hmac2 C key data1 data2 = hmac_blake2s C (key @ replicate 32 0) (data1 @ data2)"

definition b2s_keyed_mac_16 :: "crypto \<Rightarrow> bytes \<Rightarrow> bytes \<Rightarrow> bytes" where
  "b2s_keyed_mac_16 C key data1 = blake2s_mac C key data1"

text \<open>The 12-byte nonce of a counter.\<close>

definition counter_nonce :: "u64 \<Rightarrow> bytes" where
  "counter_nonce counter = replicate 4 0 @ to_le_bytes 8 counter"

text \<open>Sealing into a buffer of \<open>ct_len\<close> bytes.\<close>

definition aead_chacha20_seal_inner ::
    "crypto \<Rightarrow> nat \<Rightarrow> bytes \<Rightarrow> bytes \<Rightarrow> bytes \<Rightarrow> bytes \<Rightarrow> crypto_error + bytes" where
  "aead_chacha20_seal_inner C ct_len key nonce data aad =
     (if \<not> chacha_key_ok C key then Inl WrongKey
      else if length data + 16 \<noteq> ct_len then Inl DestinationBufferTooSmall
      else case chacha_seal C key nonce aad data of
             None \<Rightarrow> Inl InvalidAeadTag
           | Some (body, tag) \<Rightarrow> Inr (body @ tag))"

definition aead_chacha20_seal ::
    "crypto \<Rightarrow> nat \<Rightarrow> bytes \<Rightarrow> u64 \<Rightarrow> bytes \<Rightarrow> bytes \<Rightarrow> crypto_error + bytes" where
  "aead_chacha20_seal C ct_len key counter data aad =
     aead_chacha20_seal_inner C ct_len key (counter_nonce counter) data aad"

text \<open>Opening into a buffer of \<open>buf_len\<close> bytes; the inner error carries no information.\<close>

definition aead_chacha20_open_inner ::
    "crypto \<Rightarrow> nat \<Rightarrow> bytes \<Rightarrow> bytes \<Rightarrow> bytes \<Rightarrow> bytes \<Rightarrow> unit + bytes" where
  "aead_chacha20_open_inner C buf_len key nonce data aad =
     (if \<not> chacha_key_ok C key then Inl ()
      else case chacha_open C key nonce aad data of
             None \<Rightarrow> Inl ()
           | Some plaintext \<Rightarrow> if buf_len \<noteq> length plaintext then Inl () else Inr plaintext)"

definition aead_chacha20_open ::
    "crypto \<Rightarrow> nat \<Rightarrow> bytes \<Rightarrow> u64 \<Rightarrow> bytes \<Rightarrow> bytes \<Rightarrow> crypto_error + bytes" where
  "aead_chacha20_open C buf_len key counter data aad =
     (case aead_chacha20_open_inner C buf_len key (counter_nonce counter) data aad of
        Inl _ \<Rightarrow> Inl InvalidAeadTag
      | Inr plaintext \<Rightarrow> Inr plaintext)"

text \<open>The MAC of disco datagrams (lib.rs), keyed by the static-static secret.\<close>

definition DISCO_MAC_LABEL :: bytes where
  "DISCO_MAC_LABEL = map (\<lambda>c. of_char c) ''fluxpeer-disco-mac-v1''"

definition disco_mac :: "crypto \<Rightarrow> bytes \<Rightarrow> bytes \<Rightarrow> bytes" where
  "disco_mac C static_shared data = b2s_keyed_mac_16 C (b2s_hmac C static_shared DISCO_MAC_LABEL) data"

section \<open>Facts the clients use\<close>

lemma crypto_ok_lengths:
  assumes "crypto_ok C"
  shows "length (b2s_hash C x y) = 32" "length (b2s_hmac C k x) = 32"
    "length (b2s_hmac2 C k x y) = 32" "length (b2s_keyed_mac_16 C k x) = 16"
    "length (x25519_public C x) = 32"
  using assms
  by (simp_all add: crypto_ok_def b2s_hash_def b2s_hmac_def b2s_hmac2_def b2s_keyed_mac_16_def)

lemma crypto_ok_dh:
  "crypto_ok C \<Longrightarrow> x25519_dh C a (x25519_public C b) = x25519_dh C b (x25519_public C a)"
  by (simp add: crypto_ok_def)

lemma crypto_ok_eq: "crypto_ok C \<Longrightarrow> verify_slices_are_equal C x y \<longleftrightarrow> x = y"
  by (simp add: crypto_ok_def)

lemma crypto_ok_key: "crypto_ok C \<Longrightarrow> chacha_key_ok C k \<longleftrightarrow> length k = 32"
  by (simp add: crypto_ok_def)

lemma length_counter_nonce [simp]: "length (counter_nonce n) = 12"
  by (simp add: counter_nonce_def)

lemma crypto_ok_seal:
  assumes "crypto_ok C" "length k = 32" "length n = 12"
  obtains c t where "chacha_seal C k n a p = Some (c, t)" "length c = length p" "length t = 16"
    "chacha_open C k n a (c @ t) = Some p"
proof -
  have "\<exists>c t. chacha_seal C k n a p = Some (c, t) \<and> length c = length p \<and> length t = 16 \<and>
      chacha_open C k n a (c @ t) = Some p"
    using assms by (simp add: crypto_ok_def)
  then show thesis using that by auto
qed

lemma crypto_ok_open_length:
  "crypto_ok C \<Longrightarrow> chacha_open C k n a c = Some p \<Longrightarrow> length c = length p + 16"
  by (simp add: crypto_ok_def)

lemma aead_seal_open:
  assumes "crypto_ok C" "length k = 32" "ct_len = length p + 16"
  obtains c where "aead_chacha20_seal C ct_len k ctr p aad = Inr c" "length c = ct_len"
    "aead_chacha20_open C (length p) k ctr c aad = Inr p"
proof -
  obtain c t where ct: "chacha_seal C k (counter_nonce ctr) aad p = Some (c, t)"
      "length c = length p" "length t = 16" "chacha_open C k (counter_nonce ctr) aad (c @ t) = Some p"
    using crypto_ok_seal [OF assms(1,2) length_counter_nonce] .
  show thesis
  proof (rule that [of "c @ t"])
    show "aead_chacha20_seal C ct_len k ctr p aad = Inr (c @ t)"
      using ct assms by (simp add: aead_chacha20_seal_def aead_chacha20_seal_inner_def crypto_ok_key)
    show "aead_chacha20_open C (length p) k ctr (c @ t) aad = Inr p"
      using ct assms by (simp add: aead_chacha20_open_def aead_chacha20_open_inner_def crypto_ok_key)
  qed (use ct assms in simp)
qed

lemma counter_nonce_inj: "counter_nonce a = counter_nonce b \<Longrightarrow> a = b"
  unfolding counter_nonce_def by (metis from_to_le_u64 same_append_eq)

section \<open>A concrete instance\<close>

text \<open>
  A small instance that satisfies \<open>crypto_ok\<close>; the witnesses evaluate the definitions on it.
  Its tag depends on the key, the nonce and the associated data.
\<close>

definition toy_tag :: "bytes \<Rightarrow> bytes \<Rightarrow> bytes \<Rightarrow> bytes" where
  "toy_tag k n a = replicate 15 (sum_list k) @ [sum_list n + 3 * sum_list a]"

definition toy_crypto :: crypto where
  "toy_crypto =
     \<lparr>blake2s256 = (\<lambda>d. replicate 32 (sum_list d + 1)),
      hmac_blake2s = (\<lambda>k d. replicate 32 (sum_list k + 5 * sum_list d + 7)),
      blake2s_mac = (\<lambda>k d. replicate 16 (sum_list k + 3 * sum_list d)),
      x25519_dh = (\<lambda>a p. replicate 32 (sum_list a + sum_list p)),
      x25519_public = (\<lambda>a. sum_list a # replicate 31 0),
      chacha_key_ok = (\<lambda>k. length k = 32),
      chacha_seal = (\<lambda>k n a p. Some (p, toy_tag k n a)),
      chacha_open = (\<lambda>k n a c.
        if 16 \<le> length c \<and> drop (length c - 16) c = toy_tag k n a
        then Some (take (length c - 16) c) else None),
      verify_slices_are_equal = (\<lambda>x y. x = y)\<rparr>"

lemma length_toy_tag [simp]: "length (toy_tag k n a) = 16"
  by (simp add: toy_tag_def)

lemma toy_crypto_ok: "crypto_ok toy_crypto"
  unfolding crypto_ok_def
proof (intro conjI allI impI)
  fix k n a p
  show "\<exists>c t. chacha_seal toy_crypto k n a p = Some (c, t) \<and> length c = length p \<and>
      length t = 16 \<and> chacha_open toy_crypto k n a (c @ t) = Some p"
    by (simp add: toy_crypto_def)
next
  fix k n a c p
  assume "chacha_open toy_crypto k n a c = Some p"
  then show "length c = length p + 16" by (auto simp: toy_crypto_def split: if_splits)
qed (simp_all add: toy_crypto_def sum_list_replicate add.commute split: if_splits)

definition toy_rng :: rng where
  "toy_rng k n = Some (replicate n (word_of_nat (3 + k)))"

lemma toy_rng_ok: "rng_ok toy_rng"
  by (simp add: rng_ok_def toy_rng_def)

end
