(* ===== verification/Noise_Session.thy ===== *)
theory Noise_Session
  imports Noise_Crypto
begin

text \<open>
  A transport session of the Noise tunnel (\<^verbatim>\<open>Session\<close> of
  engine/crypto/fp-crypto-noise/src/session.rs): sealing payloads under a fresh counter with
  random padding, and opening received packets behind the replay window. The AEAD keys are
  kept as their 32 bytes. A destination buffer matters through its length; what the
  operation returns is the slice it filled.
\<close>

section \<open>Model\<close>

definition DATA :: u32 where "DATA = 4"
definition DATA_OVERHEAD_SZ :: nat where "DATA_OVERHEAD_SZ = 48"
definition MAX_NONCE :: u64 where "MAX_NONCE = push_bit 48 1"
definition MAX_PADDING :: byte where "MAX_PADDING = 15"
definition AEAD_SIZE :: nat where "AEAD_SIZE = 16"

record packet_data =
  pd_receiver_idx :: u32
  pd_counter :: u64
  encrypted_encapsulated_packet :: bytes

record session =
  receiving_index :: u32
  sending_index :: u32
  receiver :: bytes
  sender :: bytes
  sending_key_counter :: u64
  receiving_key_counter :: validator

definition session_new :: "crypto \<Rightarrow> u32 \<Rightarrow> u32 \<Rightarrow> bytes \<Rightarrow> bytes \<Rightarrow> crypto_error + session" where
  "session_new C local_index peer_index receiving_key sending_key =
     (if \<not> chacha_key_ok C receiving_key then Inl WrongKey
      else if \<not> chacha_key_ok C sending_key then Inl WrongKey
      else Inr \<lparr>receiving_index = local_index, sending_index = peer_index,
                receiver = receiving_key, sender = sending_key,
                sending_key_counter = 0, receiving_key_counter = default_validator\<rparr>)"

definition local_index :: "session \<Rightarrow> nat" where
  "local_index s = unat (receiving_index s)"

text \<open>The padding length drawn from four random bytes (read in little-endian order).\<close>

definition padding_len_of :: "bytes \<Rightarrow> byte" where
  "padding_len_of random = ucast ((from_le_bytes random :: u32) mod (ucast MAX_PADDING + 1))"

text \<open>
  The plaintext that is sealed: the padding length, that many random bytes, the payload.
\<close>

definition padded_plaintext :: "rng \<Rightarrow> bytes \<Rightarrow> crypto_error + bytes" where
  "padded_plaintext r src =
     rbind (ok_or RandomnessUnavailable (r 0 4)) (\<lambda>random.
       let padding_len = padding_len_of random in
       if 0 < padding_len
       then rbind (ok_or RandomnessUnavailable (r 1 (unat padding_len))) (\<lambda>padding_buf.
              Inr (padding_len # padding_buf @ src))
       else Inr (padding_len # src))"

definition format_packet_data ::
    "crypto \<Rightarrow> rng \<Rightarrow> session \<Rightarrow> bytes \<Rightarrow> nat \<Rightarrow> session \<times> (crypto_error + bytes)" where
  "format_packet_data C r s src dst_len =
     (if dst_len < length src + DATA_OVERHEAD_SZ then (s, Inl DestinationBufferTooSmall)
      else
        let counter = sending_key_counter s;
            s = s\<lparr>sending_key_counter := counter + 1\<rparr>
        in if MAX_NONCE \<le> counter then (s, Inl NonceExhausted)
        else (s, rbind (padded_plaintext r src) (\<lambda>data.
               case chacha_seal C (sender s) (counter_nonce counter) [] data of
                 None \<Rightarrow> Inl InvalidAeadTag
               | Some (body, tag) \<Rightarrow>
                   Inr (to_le_bytes 4 DATA @ to_le_bytes 4 (sending_index s) @
                        to_le_bytes 8 counter @ body @ tag))))"

text \<open>Stripping the padding of a decrypted packet.\<close>

definition strip_padding :: "bytes \<Rightarrow> crypto_error + bytes" where
  "strip_padding decrypted =
     (if decrypted = [] then Inl InvalidPacket
      else let header_len = 1 + unat (decrypted ! 0)
           in if length decrypted < header_len then Inl InvalidPacket
              else Inr (drop header_len decrypted))"

definition receive_packet_data ::
    "crypto \<Rightarrow> session \<Rightarrow> packet_data \<Rightarrow> nat \<Rightarrow> (session \<times> (crypto_error + bytes)) option" where
  "receive_packet_data C s packet dst_len =
     (if dst_len < length (encrypted_encapsulated_packet packet)
      then Some (s, Inl DestinationBufferTooSmall)
      else if pd_receiver_idx packet \<noteq> receiving_index s then Some (s, Inl WrongIndex)
      else case will_accept (receiving_key_counter s) (pd_counter packet) of
        Inl e \<Rightarrow> Some (s, Inl e)
      | Inr _ \<Rightarrow>
        (case chacha_open C (receiver s) (counter_nonce (pd_counter packet)) []
                (encrypted_encapsulated_packet packet) of
           None \<Rightarrow> Some (s, Inl InvalidAeadTag)
         | Some decrypted \<Rightarrow>
             Option.bind (receiving_counter_mark (receiving_key_counter s) (pd_counter packet))
               (\<lambda>(v, ret). let s = s\<lparr>receiving_key_counter := v\<rparr> in
                  case ret of
                    Inl e \<Rightarrow> Some (s, Inl e)
                  | Inr _ \<Rightarrow> Some (s, strip_padding decrypted))))"

section \<open>Padding\<close>

lemma padding_len_bound: "unat (padding_len_of random) \<le> 15"
proof -
  have "unat (ucast MAX_PADDING + 1 :: u32) = 16" by (simp add: MAX_PADDING_def)
  then have "unat ((from_le_bytes random :: u32) mod (ucast MAX_PADDING + 1)) < 16"
    by (simp add: unat_mod)
  then show ?thesis
    by (simp add: padding_len_of_def unsigned_ucast_eq take_bit_eq_mod)
qed

lemma strip_padded [simp]:
  "length pad = unat n \<Longrightarrow> strip_padding (n # pad @ src) = Inr src"
  by (simp add: strip_padding_def Let_def)

lemma padded_plaintext_ok:
  assumes "rng_ok r"
  obtains n pad where "padded_plaintext r src = Inr (n # pad @ src)" "length pad = unat n"
    "unat n \<le> 15"
proof -
  obtain random where random: "r 0 4 = Some random" using assms by (metis rng_ok_def)
  let ?n = "padding_len_of random"
  obtain pad where pad: "r 1 (unat ?n) = Some pad" "length pad = unat ?n"
    using assms by (metis rng_ok_def)
  show thesis
  proof (cases "0 < ?n")
    case True
    then show ?thesis
      using that [of ?n pad] pad random padding_len_bound [of random]
      by (simp add: padded_plaintext_def Let_def)
  next
    case False
    then have "?n = 0" by (simp add: word_gt_0)
    then show ?thesis
      using that [of ?n "[]"] random by (simp add: padded_plaintext_def Let_def)
  qed
qed

section \<open>Sending\<close>

lemma format_packet_data_counter:
  "fst (format_packet_data C r s src n) =
     (if n < length src + DATA_OVERHEAD_SZ then s
      else s\<lparr>sending_key_counter := sending_key_counter s + 1\<rparr>)"
  by (simp add: format_packet_data_def Let_def)

text \<open>A packet that is sent carries the counter of the session, which is below the limit.\<close>

lemma format_packet_data_sent:
  assumes "format_packet_data C r s src n = (s', Inr pkt)"
  shows "slice 8 16 pkt = to_le_bytes 8 (sending_key_counter s)"
    and "sending_key_counter s < MAX_NONCE"
    and "s' = s\<lparr>sending_key_counter := sending_key_counter s + 1\<rparr>"
    and "length src + DATA_OVERHEAD_SZ \<le> n"
  using assms
  by (auto simp: format_packet_data_def Let_def rbind_Inr_conv slice_def split: if_splits option.splits)

lemma format_packet_data_ok:
  assumes C: "crypto_ok C" and r: "rng_ok r" and k: "length (sender s) = 32"
    and fits: "length src + DATA_OVERHEAD_SZ \<le> n" and c: "sending_key_counter s < MAX_NONCE"
  obtains ct pad m where
    "format_packet_data C r s src n =
       (s\<lparr>sending_key_counter := sending_key_counter s + 1\<rparr>,
        Inr (to_le_bytes 4 DATA @ to_le_bytes 4 (sending_index s) @
             to_le_bytes 8 (sending_key_counter s) @ ct))"
    "chacha_open C (sender s) (counter_nonce (sending_key_counter s)) [] ct = Some (m # pad @ src)"
    "length pad = unat m" "unat m \<le> 15"
    "length ct = length src + 17 + length pad"
proof -
  obtain m pad where p: "padded_plaintext r src = Inr (m # pad @ src)" "length pad = unat m" "unat m \<le> 15"
    using padded_plaintext_ok [OF r] .
  obtain b t where bt: "chacha_seal C (sender s) (counter_nonce (sending_key_counter s)) [] (m # pad @ src) = Some (b, t)"
      "length b = length (m # pad @ src)" "length t = 16"
      "chacha_open C (sender s) (counter_nonce (sending_key_counter s)) [] (b @ t) = Some (m # pad @ src)"
    using crypto_ok_seal [OF C k length_counter_nonce] .
  show thesis
    by (rule that [of "b @ t" m pad]) (use p bt fits c in \<open>simp_all add: format_packet_data_def Let_def\<close>)
qed

section \<open>Receiving\<close>

lemma receive_packet_data_ok:
  assumes rel: "win_rel (receiving_key_counter s) w" and top: "unat (pd_counter p) + 1024 < 2 ^ 64"
    and new: "unat (pd_counter p) \<notin> snd w" "fst w \<le> unat (pd_counter p) + 1024"
    and idx: "pd_receiver_idx p = receiving_index s"
    and fits: "length (encrypted_encapsulated_packet p) \<le> n"
    and open_ok: "chacha_open C (receiver s) (counter_nonce (pd_counter p)) []
                (encrypted_encapsulated_packet p) = Some (m # pad @ src)" "length pad = unat m"
  obtains v where "receive_packet_data C s p n = Some (s\<lparr>receiving_key_counter := v\<rparr>, Inr src)"
    "win_rel v (max (fst w) (Suc (unat (pd_counter p))), insert (unat (pd_counter p)) (snd w))"
proof -
  have "spec_mark w (unat (pd_counter p)) =
      ((max (fst w) (Suc (unat (pd_counter p))), insert (unat (pd_counter p)) (snd w)), Inr ())"
    using new by (simp add: spec_mark_def)
  with mark_refines [OF rel top] obtain v where
    v: "mark_did_receive (receiving_key_counter s) (pd_counter p) = Some (v, Inr ())"
       "win_rel v (max (fst w) (Suc (unat (pd_counter p))), insert (unat (pd_counter p)) (snd w))"
    by auto
  show thesis
    by (rule that [of "v\<lparr>receive_cnt := receive_cnt v + 1\<rparr>"])
      (use new fits idx open_ok v will_accept_spec [OF rel top] in
        \<open>simp_all add: receive_packet_data_def receiving_counter_mark_def Let_def\<close>)
qed

lemma receive_packet_data_total:
  assumes "length (bitmap (receiving_key_counter s)) = 16"
  shows "\<exists>s' r. receive_packet_data C s p n = Some (s', r) \<and>
           length (bitmap (receiving_key_counter s')) = 16"
  using assms mark_total [OF assms, of "pd_counter p"]
  by (auto simp: receive_packet_data_def receiving_counter_mark_def Let_def
      split: option.splits sum.splits)

text \<open>The step of the receive side as a replay filter over packets.\<close>

definition session_step :: "crypto \<Rightarrow> nat \<Rightarrow> session \<Rightarrow> packet_data \<Rightarrow> session \<times> bool" where
  "session_step C n s p =
     (case receive_packet_data C s p n of Some (s', r) \<Rightarrow> (s', is_ok r) | None \<Rightarrow> (s, False))"

text \<open>Receiving leaves the window alone or is one step of it; what is delivered was accepted.\<close>

lemma session_step_window:
  "(session_step C n s p = (s, False)) \<or>
   (receiving_key_counter (fst (session_step C n s p)) =
      fst (window_step (receiving_key_counter s) (pd_counter p)) \<and>
    (snd (session_step C n s p) \<longrightarrow> snd (window_step (receiving_key_counter s) (pd_counter p))))"
  by (auto simp: session_step_def window_step_def receive_packet_data_def Let_def
      split: option.splits sum.splits Option.bind_splits)

interpretation session: replay_filter "session_step C n" "\<lambda>_ p. pd_counter p \<noteq> - 1"
  "\<lambda>p. unat (pd_counter p)" "\<lambda>s. length (bitmap (receiving_key_counter s)) = 16"
  "\<lambda>s. spent (receiving_key_counter s)" for C n
proof
  fix s :: session and p :: packet_data
  assume inv: "length (bitmap (receiving_key_counter s)) = 16" and good: "pd_counter p \<noteq> - 1"
  note w = session_step_window [of C n s p]
  show "length (bitmap (receiving_key_counter (fst (session_step C n s p)))) = 16"
    using w inv window.inv_step [OF inv good] by auto
  show "snd (session_step C n s p) \<Longrightarrow> \<not> spent (receiving_key_counter s) (unat (pd_counter p))"
    using w window.fresh_if_accepted [OF inv good] by auto
  show "snd (session_step C n s p) \<Longrightarrow>
      spent (receiving_key_counter (fst (session_step C n s p))) (unat (pd_counter p))"
    using w window.spent_if_accepted [OF inv good] by auto
  show "spent (receiving_key_counter s) k \<Longrightarrow>
      spent (receiving_key_counter (fst (session_step C n s p))) k" for k
    using w window.spent_persists [OF inv good] by auto
qed

section \<open>Runs of a session\<close>

text \<open>The packets a session emits for a sequence of payloads, each with its own randomness.\<close>

fun send_run :: "crypto \<Rightarrow> session \<Rightarrow> (rng \<times> bytes \<times> nat) list \<Rightarrow> bytes list" where
  "send_run C s [] = []"
| "send_run C s ((r, src, n) # reqs) =
     (let (s', res) = format_packet_data C r s src n
      in case res of Inl _ \<Rightarrow> send_run C s' reqs | Inr pkt \<Rightarrow> pkt # send_run C s' reqs)"

text \<open>A packet that was sealed under a counter: the AEAD was called with the key and the counter's nonce on
  the padded payload of a request, and the header announces the same counter.\<close>

definition sealed_under :: "crypto \<Rightarrow> session \<Rightarrow> (rng \<times> bytes \<times> nat) list \<Rightarrow> bytes \<Rightarrow> u64 \<Rightarrow> bool" where
  "sealed_under C s reqs pkt c \<longleftrightarrow>
     (\<exists>(r, src, n) \<in> set reqs. \<exists>data body tag.
        padded_plaintext r src = Inr data \<and>
        chacha_seal C (sender s) (counter_nonce c) [] data = Some (body, tag) \<and>
        pkt = to_le_bytes 4 DATA @ to_le_bytes 4 (sending_index s) @ to_le_bytes 8 c @ body @ tag)"

lemma format_packet_data_sealed:
  assumes "format_packet_data C r s src n = (s', Inr pkt)"
  shows "sealed_under C s ((r, src, n) # reqs) pkt (sending_key_counter s)"
  using assms
  by (auto simp: format_packet_data_def sealed_under_def Let_def rbind_Inr_conv split: if_splits option.splits)

lemma sealed_under_later:
  "sealed_under C s' reqs pkt c \<Longrightarrow> sender s' = sender s \<Longrightarrow> sending_index s' = sending_index s
     \<Longrightarrow> sealed_under C s (req # reqs) pkt c"
  by (fastforce simp: sealed_under_def)

text \<open>The counters under which a session seals ascend.\<close>

lemma send_run_counters:
  assumes "unat (sending_key_counter s) + length reqs < 2 ^ 64"
  shows "\<exists>cs. list_all2 (sealed_under C s reqs) (send_run C s reqs) cs \<and> sorted_wrt (<) cs \<and>
           list_all (\<lambda>c. sending_key_counter s \<le> c \<and> c < MAX_NONCE) cs"
  using assms
proof (induction reqs arbitrary: s)
  case (Cons req reqs)
  obtain r src n where req: "req = (r, src, n)" by (cases req)
  obtain s' res where f: "format_packet_data C r s src n = (s', res)" by fastforce
  let ?c = "sending_key_counter s"
  have up: "unat (?c + 1) = Suc (unat ?c)"
    using Cons.prems unat_add_lem [of ?c 1] by simp
  have s': "s' = s \<or> s' = s\<lparr>sending_key_counter := ?c + 1\<rparr>"
    using format_packet_data_counter [of C r s src n] f by (auto split: if_splits)
  have keys: "sender s' = sender s" "sending_index s' = sending_index s" using s' by auto
  have "unat (sending_key_counter s') + length reqs < 2 ^ 64" using s' Cons.prems up by auto
  from Cons.IH [OF this] obtain cs where
    cs: "list_all2 (sealed_under C s' reqs) (send_run C s' reqs) cs" "sorted_wrt (<) cs"
      "list_all (\<lambda>c. sending_key_counter s' \<le> c \<and> c < MAX_NONCE) cs" by blast
  have sealed: "list_all2 (sealed_under C s (req # reqs)) (send_run C s' reqs) cs"
    using cs(1) by (rule list.rel_mono_strong) (rule sealed_under_later [OF _ keys])
  show ?case
  proof (cases res)
    case (Inl e)
    have "?c \<le> sending_key_counter s'" using s' up by (auto simp: word_le_nat_alt)
    then have "list_all (\<lambda>c. ?c \<le> c \<and> c < MAX_NONCE) cs"
      using cs(3) by (auto simp: list_all_iff intro: order_trans)
    then show ?thesis using sealed cs(2) f req Inl by auto
  next
    case (Inr pkt)
    note sent = format_packet_data_sent [OF f [unfolded Inr]]
    have less: "?c < sending_key_counter s'" using sent(3) up by (simp add: word_less_nat_alt)
    have "sealed_under C s (req # reqs) pkt ?c"
      unfolding req by (rule format_packet_data_sealed [OF f [unfolded Inr]])
    then show ?thesis
      using sealed cs(2,3) less sent(2) f req Inr
      by (intro exI [of _ "?c # cs"]) (auto simp: list_all_iff intro: order.strict_trans2)
  qed
qed simp

section \<open>Properties\<close>

definition toy_session :: session where
  "toy_session = \<lparr>receiving_index = 7, sending_index = 9, receiver = replicate 32 1,
     sender = replicate 32 2, sending_key_counter = 0, receiving_key_counter = default_validator\<rparr>"

text \<open>
  C5. A session never reuses a nonce: for any sequence of fewer than \<open>2^64\<close> payloads, every
  packet a new session emits was sealed with its sending key under the nonce of the counter in its
  header, these nonces are pairwise different, and all counters are below the limit of \<open>2^48\<close>.
\<close>

theorem nonces_never_reused:
  assumes "session_new C li pi rk sk = Inr s" "length reqs < 2 ^ 64"
  shows "\<exists>cs. list_all2 (sealed_under C s reqs) (send_run C s reqs) cs \<and>
           distinct (map counter_nonce cs) \<and> list_all (\<lambda>c. c < MAX_NONCE) cs"
proof -
  have "sending_key_counter s = 0" using assms(1) by (auto simp: session_new_def split: if_splits)
  with send_run_counters [of s reqs C] assms(2) obtain cs where
    cs: "list_all2 (sealed_under C s reqs) (send_run C s reqs) cs" "sorted_wrt (<) cs" "list_all (\<lambda>c. c < MAX_NONCE) cs"
    by (auto simp: list_all_iff)
  have "distinct cs" using cs(2) by (induction cs) auto
  then have "distinct (map counter_nonce cs)" by (auto simp: distinct_map inj_on_def dest: counter_nonce_inj)
  with cs show ?thesis by blast
qed

text \<open>The witness seals two packets.\<close>

theorem nonces_never_reused_witness:
  "let reqs = [(toy_rng, [1, 2], 64), (toy_rng, [3], 49)] in
   \<exists>s cs. session_new toy_crypto 1 2 (replicate 32 5) (replicate 32 6) = Inr s \<and>
     length (send_run toy_crypto s reqs) = 2 \<and> length cs = 2 \<and>
     list_all2 (sealed_under toy_crypto s reqs) (send_run toy_crypto s reqs) cs \<and> distinct (map counter_nonce cs)"
proof -
  let ?reqs = "[(toy_rng, [1, 2], 64), (toy_rng, [3], 49)] :: (rng \<times> bytes \<times> nat) list"
  obtain s where s: "session_new toy_crypto 1 2 (replicate 32 5) (replicate 32 6) = Inr s"
    and k: "length (sender s) = 32" "sending_key_counter s = 0"
    by (simp add: session_new_def toy_crypto_def)
  have two: "length (send_run toy_crypto s ?reqs) = 2"
    by (rule format_packet_data_ok [OF toy_crypto_ok toy_rng_ok k(1), of "[1, 2]" 64];
        rule format_packet_data_ok [OF toy_crypto_ok toy_rng_ok, of "s\<lparr>sending_key_counter := 1\<rparr>" "[3]" 49])
      (use k in \<open>simp_all add: DATA_OVERHEAD_SZ_def MAX_NONCE_def\<close>)
  obtain cs where "list_all2 (sealed_under toy_crypto s ?reqs) (send_run toy_crypto s ?reqs) cs"
      "distinct (map counter_nonce cs)"
    using nonces_never_reused [OF s, of ?reqs] by auto
  with s two list_all2_lengthD show ?thesis unfolding Let_def by metis
qed

text \<open>
  A data packet fits its buffer: what \<open>format_packet_data\<close> emits for a payload is at least
  33 bytes longer than the payload, at most 48 bytes longer, and no longer than the
  destination it was given.
\<close>

lemma data_packet_bounds:
  assumes "crypto_ok C" "rng_ok r" "length (sender s) = 32"
    "format_packet_data C r s src n = (s', Inr pkt)"
  shows "length src + 33 \<le> length pkt \<and> length pkt \<le> length src + DATA_OVERHEAD_SZ \<and> length pkt \<le> n"
proof -
  note sent = format_packet_data_sent [OF assms(4)]
  show ?thesis
    using format_packet_data_ok [OF assms(1-3) sent(4,2)] assms(4) sent(4)
    by (fastforce simp: DATA_OVERHEAD_SZ_def)
qed

text \<open>
  C4. A session delivers the packet of a counter at most once: in any sequence of received
  packets none of which carries the counter \<open>2^64 - 1\<close>, the delivered ones have distinct counters.
  The excluded counter wraps the window and is outside what an honest sender uses, whose
  counters stay below \<open>2^48\<close>.
\<close>

theorem session_delivers_once:
  assumes "session_new C li pi rk sk = Inr s" "\<forall>p \<in> set ps. pd_counter p \<noteq> - 1"
  shows "distinct (map pd_counter (accepted_inputs (session_step C n) s ps))"
proof -
  have "length (bitmap (receiving_key_counter s)) = 16"
    using assms(1) default_win_rel by (auto simp: session_new_def win_rel_def split: if_splits)
  moreover have "admissible_run (session_step C n) (\<lambda>_ p. pd_counter p \<noteq> - 1) s ps"
    using assms(2) by (induction ps arbitrary: s) auto
  ultimately have "distinct (map (\<lambda>p. unat (pd_counter p)) (accepted_inputs (session_step C n) s ps))"
    by (rule session.at_most_once)
  then show ?thesis by (auto simp: distinct_map inj_on_def)
qed

text \<open>In the witness a packet of the peer is received twice and delivered once.\<close>

theorem session_delivers_once_witness:
  "\<exists>s p. session_new toy_crypto 1 2 (replicate 32 5) (replicate 32 6) = Inr s \<and>
     accepted_inputs (session_step toy_crypto 99) s [p, p] = [p]"
proof -
  obtain s where s: "session_new toy_crypto 1 2 (replicate 32 5) (replicate 32 6) = Inr s"
    and f: "receiver s = replicate 32 5" "receiving_index s = 1" "receiving_key_counter s = default_validator"
    by (simp add: session_new_def toy_crypto_def)
  let ?peer = "toy_session\<lparr>sender := replicate 32 5\<rparr>"
  obtain ct pad m where ct: "chacha_open toy_crypto (replicate 32 5) (counter_nonce 0) [] ct = Some (m # pad @ [1, 2])"
      "length pad = unat m" "unat m \<le> 15" "length ct = 19 + length pad"
    by (rule format_packet_data_ok [OF toy_crypto_ok toy_rng_ok, of ?peer "[1, 2]" 99])
      (simp_all add: toy_session_def DATA_OVERHEAD_SZ_def MAX_NONCE_def)
  define p where "p = \<lparr>pd_receiver_idx = 1, pd_counter = 0, encrypted_encapsulated_packet = ct\<rparr>"
  obtain v where "receive_packet_data toy_crypto s p 99 = Some (s\<lparr>receiving_key_counter := v\<rparr>, Inr [1, 2])"
    by (rule receive_packet_data_ok [of s "(0, {})" p 99 toy_crypto m pad "[1, 2]"])
      (use f ct default_win_rel in \<open>simp_all add: p_def\<close>)
  then have first: "accepted_inputs (session_step toy_crypto 99) s [p, p] =
      p # accepted_inputs (session_step toy_crypto 99) (s\<lparr>receiving_key_counter := v\<rparr>) [p]"
    by (simp add: session_step_def is_ok_def)
  have "distinct (map pd_counter (accepted_inputs (session_step toy_crypto 99) s [p, p]))"
    by (rule session_delivers_once [OF s]) (simp add: p_def)
  with first have "accepted_inputs (session_step toy_crypto 99) (s\<lparr>receiving_key_counter := v\<rparr>) [p] = []"
    by (auto split: if_splits prod.splits)
  with s first show ?thesis by auto
qed

text \<open>
  C34. A packet that does not authenticate has no effect: when the AEAD refuses it, the
  session reports an error and its keys, counters and window are what they were.
\<close>

theorem unauthenticated_packet_no_effect:
  assumes "chacha_open C (receiver s) (counter_nonce (pd_counter p)) []
             (encrypted_encapsulated_packet p) = None"
  shows "\<exists>e. receive_packet_data C s p n = Some (s, Inl e)"
  using assms by (auto simp: receive_packet_data_def split: sum.splits)

theorem unauthenticated_packet_no_effect_witness:
  "\<exists>e. receive_packet_data toy_crypto toy_session
     \<lparr>pd_receiver_idx = 7, pd_counter = 0, encrypted_encapsulated_packet = [1, 2, 3]\<rparr> 64
     = Some (toy_session, Inl e)"
  by (rule unauthenticated_packet_no_effect)
    (simp add: toy_crypto_def)

end
