(* ===== verification/Sleepy_Instant.thy ===== *)
theory Sleepy_Instant
  imports Main
begin

text \<open>
  The clock of the crypto layer (engine/crypto/fp-crypto-noise/src/sleepyinstant): a reading
  pairs the boot-time clock of the operating system, which may be unavailable, with the
  monotonic clock of the standard library. A timespec is a pair of integers (seconds,
  nanoseconds); a \<^verbatim>\<open>Duration\<close> and a reading of the standard clock are numbers of nanoseconds.
\<close>

section \<open>Durations\<close>

definition NANOSECOND :: int where "NANOSECOND = 1000000000"

text \<open>\<^verbatim>\<open>Duration::new\<close>, \<^verbatim>\<open>as_secs\<close>, \<^verbatim>\<open>subsec_nanos\<close>, \<^verbatim>\<open>checked_add\<close> of the standard library.\<close>

definition duration_new :: "nat \<Rightarrow> nat \<Rightarrow> nat" where
  "duration_new secs nanos = secs * 1000000000 + nanos"

definition as_secs :: "nat \<Rightarrow> nat" where "as_secs d = d div 1000000000"
definition subsec_nanos :: "nat \<Rightarrow> nat" where "subsec_nanos d = d mod 1000000000"
definition as_millis :: "nat \<Rightarrow> nat" where "as_millis d = d div 1000000"

definition duration_checked_add :: "nat \<Rightarrow> nat \<Rightarrow> nat option" where
  "duration_checked_add a b = (if as_secs (a + b) < 2 ^ 64 then Some (a + b) else None)"

section \<open>Instants\<close>

record instant =
  os_time :: "(int \<times> int) option"
  fallback :: nat

definition checked_duration_since :: "instant \<Rightarrow> instant \<Rightarrow> nat option" where
  "checked_duration_since self earlier =
     (case (os_time self, os_time earlier) of
        (Some current, Some previous) \<Rightarrow>
          (let (tv_sec, tv_nsec) =
             (if snd current < snd previous
              then (fst current - fst previous - 1, snd current - snd previous + NANOSECOND)
              else (fst current - fst previous, snd current - snd previous))
           in if tv_sec < 0 then None else Some (duration_new (nat tv_sec) (nat tv_nsec)))
      | _ \<Rightarrow> if fallback earlier \<le> fallback self then Some (fallback self - fallback earlier) else None)"

definition duration_since :: "instant \<Rightarrow> instant \<Rightarrow> nat" where
  "duration_since self earlier =
     (case checked_duration_since self earlier of None \<Rightarrow> 0 | Some d \<Rightarrow> d)"

section \<open>Correctness\<close>

text \<open>The nanoseconds a timespec stands for.\<close>

definition total_nanos :: "int \<times> int \<Rightarrow> int" where
  "total_nanos t = fst t * NANOSECOND + snd t"

definition timespec_ok :: "int \<times> int \<Rightarrow> bool" where
  "timespec_ok t \<longleftrightarrow> 0 \<le> snd t \<and> snd t < NANOSECOND"

text \<open>The difference of two clock readings is computed without mixing the two clocks: with
  both boot-time readings present it is their difference in nanoseconds, zero when the
  other reading is the later one; otherwise it is the saturating difference of the
  monotonic readings.\<close>

lemma duration_since_correct:
  assumes "\<forall>t. os_time self = Some t \<longrightarrow> timespec_ok t" "\<forall>t. os_time earlier = Some t \<longrightarrow> timespec_ok t"
  shows "duration_since self earlier =
    (case (os_time self, os_time earlier) of
       (Some c, Some p) \<Rightarrow> nat (total_nanos c - total_nanos p)
     | _ \<Rightarrow> fallback self - fallback earlier)"
  using assms
  by (auto simp: duration_since_def checked_duration_since_def duration_new_def total_nanos_def
      timespec_ok_def NANOSECOND_def Let_def nat_mult_distrib split: option.splits)

end
