(* ===== verification/Noise_Handshake.thy ===== *)
theory Noise_Handshake
  imports Noise_Session Sleepy_Instant
begin

text \<open>
  The Noise IK handshake of the tunnel (engine/crypto/fp-crypto-noise/src/handshake.rs):
  formatting and processing the initiation and the response, with the state both ends
  keep between them. Operations pass the handshake state explicitly and return it even
  when they fail, since several of them change it before an error.

  The derivations that the source writes out at both ends (chaining key and hash after the
  first message, after the response, and the transport keys) are one definition each. The
  destination buffer is a byte list because its last sixteen bytes (mac2) are sent as found.
\<close>

section \<open>Constants\<close>

definition HANDSHAKE_INIT :: u32 where "HANDSHAKE_INIT = 1"
definition HANDSHAKE_RESP :: u32 where "HANDSHAKE_RESP = 2"
definition HANDSHAKE_INIT_SZ :: nat where "HANDSHAKE_INIT_SZ = 148"
definition HANDSHAKE_RESP_SZ :: nat where "HANDSHAKE_RESP_SZ = 92"
definition KEY_LEN :: nat where "KEY_LEN = 32"
definition TIMESTAMP_LEN :: nat where "TIMESTAMP_LEN = 12"

definition LABEL_MAC1 :: bytes where
  "LABEL_MAC1 = map (\<lambda>c. of_char c) ''mac1----''"

definition INITIAL_CHAIN_KEY :: bytes where
  "INITIAL_CHAIN_KEY =
     [96, 226, 109, 174, 243, 39, 239, 192, 46, 195, 53, 226, 160, 37, 210, 208, 22, 235, 66, 6,
      248, 114, 119, 245, 45, 56, 209, 152, 139, 120, 205, 54]"

definition INITIAL_CHAIN_HASH :: bytes where
  "INITIAL_CHAIN_HASH =
     [34, 17, 179, 97, 8, 26, 197, 102, 105, 18, 67, 219, 69, 138, 213, 50, 45, 156, 108, 102, 34,
      147, 232, 183, 14, 225, 156, 101, 186, 7, 158, 243]"

section \<open>Timestamps\<close>

record tai64n =
  secs :: u64
  nano :: u32

definition tai64n_zero :: tai64n where "tai64n_zero = \<lparr>secs = 0, nano = 0\<rparr>"

definition tai64n_parse :: "bytes \<Rightarrow> crypto_error + tai64n" where
  "tai64n_parse buf =
     (if length buf < 12 then Inl InvalidTai64nTimestamp
      else if length (drop 8 buf) \<noteq> 4 then Inl InvalidTai64nTimestamp
      else Inr \<lparr>secs = from_be_bytes (take 8 buf), nano = from_be_bytes (drop 8 buf)\<rparr>)"

definition tai64n_after :: "tai64n \<Rightarrow> tai64n \<Rightarrow> bool" where
  "tai64n_after a b \<longleftrightarrow> secs b < secs a \<or> secs a = secs b \<and> nano b < nano a"

record time_stamper =
  duration_at_start :: "nat option"
  instant_at_start :: instant

definition TAI64_BASE :: nat where "TAI64_BASE = 2 ^ 62 + 37"

definition stamp :: "time_stamper \<Rightarrow> instant \<Rightarrow> crypto_error + bytes" where
  "stamp st now =
     rbind (ok_or InvalidTai64nTimestamp (duration_at_start st)) (\<lambda>start.
     rbind (ok_or InvalidTai64nTimestamp
              (duration_checked_add (duration_since now (instant_at_start st)) start)) (\<lambda>stamp.
       if 2 ^ 64 \<le> as_secs stamp + TAI64_BASE then Inl InvalidTai64nTimestamp
       else Inr (to_be_bytes 8 (word_of_nat (as_secs stamp + TAI64_BASE) :: u64) @
                 to_be_bytes 4 (word_of_nat (subsec_nanos stamp) :: u32))))"

section \<open>State\<close>

record noise_params =
  static_public :: bytes
  static_private :: bytes
  peer_static_public :: bytes
  static_shared :: bytes
  sending_mac1_key :: bytes
  preshared_key :: "bytes option"

record init_sent =
  is_local_index :: u32
  is_hash :: bytes
  is_chaining_key :: bytes
  is_ephemeral_private :: bytes
  is_time_sent :: instant

datatype handshake_state =
    HsNone
  | InitSent init_sent
  | InitReceived bytes bytes bytes u32 \<comment> \<open>hash, chaining key, peer ephemeral, peer index\<close>

record handshake =
  params :: noise_params
  next_index :: u32
  previous :: handshake_state
  state :: handshake_state
  last_handshake_timestamp :: tai64n
  stamper :: time_stamper
  last_rtt :: "u32 option"

record handshake_init =
  hi_sender_idx :: u32
  hi_unencrypted_ephemeral :: bytes
  hi_encrypted_static :: bytes
  hi_encrypted_timestamp :: bytes

record handshake_response =
  hr_sender_idx :: u32
  hr_receiver_idx :: u32
  hr_unencrypted_ephemeral :: bytes
  hr_encrypted_nothing :: bytes

definition noise_params_new :: "crypto \<Rightarrow> bytes \<Rightarrow> bytes \<Rightarrow> bytes \<Rightarrow> bytes option \<Rightarrow> noise_params" where
  "noise_params_new C priv pub peer_pub psk =
     \<lparr>static_public = pub, static_private = priv, peer_static_public = peer_pub,
      static_shared = x25519_dh C priv peer_pub,
      sending_mac1_key = b2s_hash C LABEL_MAC1 peer_pub, preshared_key = psk\<rparr>"

definition handshake_new ::
    "crypto \<Rightarrow> bytes \<Rightarrow> bytes \<Rightarrow> bytes \<Rightarrow> u32 \<Rightarrow> bytes option \<Rightarrow> time_stamper \<Rightarrow> handshake" where
  "handshake_new C priv pub peer_pub global_idx psk st =
     \<lparr>params = noise_params_new C priv pub peer_pub psk, next_index = global_idx,
      previous = HsNone, state = HsNone, last_handshake_timestamp = tai64n_zero,
      stamper = st, last_rtt = None\<rparr>"

definition inc_index :: "handshake \<Rightarrow> handshake \<times> u32" where
  "inc_index hs =
     (let index = next_index hs;
          idx8 = (ucast index :: byte);
          next = (index AND NOT 0xff) OR ucast (idx8 + 1)
      in (hs\<lparr>next_index := next\<rparr>, next))"

section \<open>Key derivation\<close>

text \<open>
  Hash, chaining key and key after the initiator's ephemeral key and the ephemeral-static
  secret have been mixed in.
\<close>

definition init_derive :: "crypto \<Rightarrow> bytes \<Rightarrow> bytes \<Rightarrow> bytes \<Rightarrow> bytes \<times> bytes \<times> bytes" where
  "init_derive C responder_public ephemeral_public ephemeral_shared =
     (let hash = b2s_hash C INITIAL_CHAIN_HASH responder_public;
          hash = b2s_hash C hash ephemeral_public;
          chaining_key = b2s_hmac C (b2s_hmac C INITIAL_CHAIN_KEY ephemeral_public) [1];
          temp = b2s_hmac C chaining_key ephemeral_shared;
          chaining_key = b2s_hmac C temp [1];
          key = b2s_hmac2 C temp chaining_key [2]
      in (hash, chaining_key, key))"

text \<open>Chaining key and key after the static-static secret.\<close>

definition static_derive :: "crypto \<Rightarrow> bytes \<Rightarrow> bytes \<Rightarrow> bytes \<times> bytes" where
  "static_derive C chaining_key shared =
     (let temp = b2s_hmac C chaining_key shared;
          chaining_key = b2s_hmac C temp [1];
          key = b2s_hmac2 C temp chaining_key [2]
      in (chaining_key, key))"

text \<open>Hash, chaining key and key of the response.\<close>

definition resp_derive ::
    "crypto \<Rightarrow> bytes \<Rightarrow> bytes \<Rightarrow> bytes \<Rightarrow> bytes \<Rightarrow> bytes \<Rightarrow> bytes option \<Rightarrow> bytes \<times> bytes \<times> bytes" where
  "resp_derive C hash chaining_key ephemeral_public ee se psk =
     (let hash = b2s_hash C hash ephemeral_public;
          temp = b2s_hmac C chaining_key ephemeral_public;
          chaining_key = b2s_hmac C temp [1];
          temp = b2s_hmac C chaining_key ee;
          chaining_key = b2s_hmac C temp [1];
          temp = b2s_hmac C chaining_key se;
          chaining_key = b2s_hmac C temp [1];
          temp = b2s_hmac C chaining_key (case psk of None \<Rightarrow> replicate 32 0 | Some k \<Rightarrow> k);
          chaining_key = b2s_hmac C temp [1];
          temp2 = b2s_hmac2 C temp chaining_key [2];
          key = b2s_hmac2 C temp temp2 [3];
          hash = b2s_hash C hash temp2
      in (hash, chaining_key, key))"

text \<open>The two transport keys: what the initiator sends with, what it receives with.\<close>

definition transport_keys :: "crypto \<Rightarrow> bytes \<Rightarrow> bytes \<times> bytes" where
  "transport_keys C chaining_key =
     (let temp1 = b2s_hmac C chaining_key [];
          temp2 = b2s_hmac C temp1 [1];
          temp3 = b2s_hmac2 C temp1 temp2 [2]
      in (temp2, temp3))"

section \<open>Operations\<close>

definition parse_handshake_anon ::
    "crypto \<Rightarrow> bytes \<Rightarrow> bytes \<Rightarrow> handshake_init \<Rightarrow> crypto_error + bytes" where
  "parse_handshake_anon C own_private own_public packet =
     (let e = hi_unencrypted_ephemeral packet;
          (hash, chaining_key, key) = init_derive C own_public e (x25519_dh C own_private e)
      in aead_chacha20_open C KEY_LEN key 0 (hi_encrypted_static packet) hash)"

text \<open>
  Computing mac1: the message without its last 32 bytes is authenticated, the 16 bytes after
  it become the MAC, the last 16 bytes stay.
\<close>

definition append_mac1 :: "crypto \<Rightarrow> handshake \<Rightarrow> bytes \<Rightarrow> bytes" where
  "append_mac1 C hs dst =
     (let mac1_off = length dst - 32; mac2_off = length dst - 16
      in take mac1_off dst @ b2s_keyed_mac_16 C (sending_mac1_key (params hs)) (take mac1_off dst) @
         drop mac2_off dst)"

definition format_handshake_initiation ::
    "crypto \<Rightarrow> rng \<Rightarrow> (nat \<Rightarrow> instant) \<Rightarrow> handshake \<Rightarrow> bytes \<Rightarrow> handshake \<times> (crypto_error + bytes)" where
  "format_handshake_initiation C r now hs dst =
     (if length dst < HANDSHAKE_INIT_SZ then (hs, Inl DestinationBufferTooSmall)
      else
        let (hs, local_index) = inc_index hs in
        case r 0 32 of
          None \<Rightarrow> (hs, Inl RandomnessUnavailable)
        | Some ephemeral_private \<Rightarrow>
          let e = x25519_public C ephemeral_private;
              ps = peer_static_public (params hs);
              (hash, chaining_key, key) = init_derive C ps e (x25519_dh C ephemeral_private ps)
          in case aead_chacha20_seal C 48 key 0 (static_public (params hs)) hash of
            Inl err \<Rightarrow> (hs, Inl err)
          | Inr encrypted_static \<Rightarrow>
            let hash = b2s_hash C hash encrypted_static;
                (chaining_key, key) = static_derive C chaining_key (static_shared (params hs))
            in case stamp (stamper hs) (now 0) of
              Inl err \<Rightarrow> (hs, Inl err)
            | Inr timestamp \<Rightarrow>
              (case aead_chacha20_seal C 28 key 0 timestamp hash of
                 Inl err \<Rightarrow> (hs, Inl err)
               | Inr encrypted_timestamp \<Rightarrow>
                 let hash = b2s_hash C hash encrypted_timestamp;
                     hs = hs\<lparr>previous := state hs,
                             state := InitSent \<lparr>is_local_index = local_index, is_hash = hash,
                               is_chaining_key = chaining_key,
                               is_ephemeral_private = ephemeral_private, is_time_sent = now 1\<rparr>\<rparr>;
                     msg = to_le_bytes 4 HANDSHAKE_INIT @ to_le_bytes 4 local_index @ e @
                           encrypted_static @ encrypted_timestamp @ slice 116 148 dst
                 in (hs, Inr (append_mac1 C hs msg))))"

definition format_handshake_response ::
    "crypto \<Rightarrow> rng \<Rightarrow> handshake \<Rightarrow> bytes \<Rightarrow> handshake \<times> (crypto_error + bytes \<times> session)" where
  "format_handshake_response C r hs dst =
     (if length dst < HANDSHAKE_RESP_SZ then (hs, Inl DestinationBufferTooSmall)
      else
        let st = state hs; hs = hs\<lparr>state := HsNone\<rparr> in
        case st of
          InitReceived hash chaining_key peer_ephemeral_public peer_index \<Rightarrow>
            (case r 0 32 of
               None \<Rightarrow> (hs, Inl RandomnessUnavailable)
             | Some ephemeral_private \<Rightarrow>
               let (hs, local_index) = inc_index hs;
                   e = x25519_public C ephemeral_private;
                   ee = x25519_dh C ephemeral_private peer_ephemeral_public;
                   se = x25519_dh C ephemeral_private (peer_static_public (params hs));
                   (hash, chaining_key, key) =
                     resp_derive C hash chaining_key e ee se (preshared_key (params hs))
               in case aead_chacha20_seal C 16 key 0 [] hash of
                    Inl err \<Rightarrow> (hs, Inl err)
                  | Inr encrypted_nothing \<Rightarrow>
                    let (temp2, temp3) = transport_keys C chaining_key;
                        msg = to_le_bytes 4 HANDSHAKE_RESP @ to_le_bytes 4 local_index @
                              to_le_bytes 4 peer_index @ e @ encrypted_nothing @ slice 60 92 dst
                    in (hs, rbind (session_new C local_index peer_index temp2 temp3)
                              (\<lambda>s. Inr (append_mac1 C hs msg, s))))
        | _ \<Rightarrow> (hs, Inl UnexpectedPacket))"

definition receive_handshake_initialization ::
    "crypto \<Rightarrow> rng \<Rightarrow> handshake \<Rightarrow> handshake_init \<Rightarrow> bytes
       \<Rightarrow> handshake \<times> (crypto_error + bytes \<times> session)" where
  "receive_handshake_initialization C r hs packet dst =
     (let e = hi_unencrypted_ephemeral packet;
          (hash, chaining_key, key) =
            init_derive C (static_public (params hs)) e (x25519_dh C (static_private (params hs)) e)
      in case aead_chacha20_open C KEY_LEN key 0 (hi_encrypted_static packet) hash of
        Inl err \<Rightarrow> (hs, Inl err)
      | Inr peer_static_public_decrypted \<Rightarrow>
        if \<not> verify_slices_are_equal C (peer_static_public (params hs)) peer_static_public_decrypted
        then (hs, Inl WrongKey)
        else
          let hash = b2s_hash C hash (hi_encrypted_static packet);
              (chaining_key, key) = static_derive C chaining_key (static_shared (params hs))
          in case rbind (aead_chacha20_open C TIMESTAMP_LEN key 0 (hi_encrypted_timestamp packet) hash)
                        tai64n_parse of
            Inl err \<Rightarrow> (hs, Inl err)
          | Inr timestamp \<Rightarrow>
            if \<not> tai64n_after timestamp (last_handshake_timestamp hs)
            then (hs, Inl WrongTai64nTimestamp)
            else
              let hs = hs\<lparr>last_handshake_timestamp := timestamp\<rparr>;
                  hash = b2s_hash C hash (hi_encrypted_timestamp packet);
                  hs = hs\<lparr>previous := state hs,
                          state := InitReceived hash chaining_key e (hi_sender_idx packet)\<rparr>
              in format_handshake_response C r hs dst)"

text \<open>The sent initiation a response answers, and whether it is the previous one.\<close>

definition awaited :: "handshake \<Rightarrow> u32 \<Rightarrow> (init_sent \<times> bool) option" where
  "awaited hs receiver_idx =
     (case state hs of
        InitSent s \<Rightarrow> if is_local_index s = receiver_idx then Some (s, False)
                      else (case previous hs of
                              InitSent s \<Rightarrow> if is_local_index s = receiver_idx then Some (s, True) else None
                            | _ \<Rightarrow> None)
      | _ \<Rightarrow> (case previous hs of
                InitSent s \<Rightarrow> if is_local_index s = receiver_idx then Some (s, True) else None
              | _ \<Rightarrow> None))"

definition receive_handshake_response ::
    "crypto \<Rightarrow> instant \<Rightarrow> handshake \<Rightarrow> handshake_response \<Rightarrow> handshake \<times> (crypto_error + session)" where
  "receive_handshake_response C now hs packet =
     (case awaited hs (hr_receiver_idx packet) of
        None \<Rightarrow> (hs, Inl UnexpectedPacket)
      | Some (st, is_previous) \<Rightarrow>
        let e = hr_unencrypted_ephemeral packet;
            ee = x25519_dh C (is_ephemeral_private st) e;
            se = x25519_dh C (static_private (params hs)) e;
            (hash, chaining_key, key) =
              resp_derive C (is_hash st) (is_chaining_key st) e ee se (preshared_key (params hs))
        in case aead_chacha20_open C 0 key 0 (hr_encrypted_nothing packet) hash of
          Inl err \<Rightarrow> (hs, Inl err)
        | Inr _ \<Rightarrow>
          let (temp2, temp3) = transport_keys C chaining_key;
              hs = hs\<lparr>last_rtt := Some (word_of_nat (as_millis (duration_since now (is_time_sent st))))\<rparr>;
              hs = (if is_previous then hs\<lparr>previous := HsNone\<rparr> else hs\<lparr>state := HsNone\<rparr>)
          in (hs, session_new C (is_local_index st) (hr_sender_idx packet) temp3 temp2))"

section \<open>Session indices\<close>

lemma unat_byte_split:
  fixes w :: u32
  shows "unat w div 256 = unat (drop_bit 8 w)" "unat w mod 256 = unat (take_bit 8 w)"
  by (simp_all add: drop_bit_eq_div take_bit_eq_mod unat_div unat_mod)

lemma inc_index_block:
  "unat (snd (inc_index hs)) div 256 = unat (next_index hs) div 256"
  "unat (snd (inc_index hs)) mod 256 = Suc (unat (next_index hs)) mod 256"
proof -
  let ?i = "next_index hs"
  let ?b = "(ucast ?i :: byte) + 1"
  have ff: "(0xff :: u32) = mask 8" by (simp add: mask_eq_exp_minus_1)
  have n: "snd (inc_index hs) = (?i AND NOT (mask 8)) OR ucast ?b"
    by (simp add: inc_index_def Let_def ff)
  have hi: "\<not> bit (ucast ?b :: u32) k" if "8 \<le> k" for k
    using that bit_imp_le_length [of ?b k] by (auto simp: bit_ucast_iff)
  have "drop_bit 8 (snd (inc_index hs)) = drop_bit 8 ?i"
    unfolding n by (rule bit_word_eqI)
      (use hi in \<open>auto simp: bit_drop_bit_eq bit_or_iff bit_and_iff bit_not_iff bit_mask_iff
        dest: bit_imp_le_length\<close>)
  then show "unat (snd (inc_index hs)) div 256 = unat ?i div 256"
    by (simp only: unat_byte_split)
  have "take_bit 8 (snd (inc_index hs)) = ucast ?b"
    unfolding n by (rule bit_word_eqI)
      (use hi in \<open>auto simp: bit_take_bit_iff bit_or_iff bit_and_iff bit_not_iff bit_mask_iff not_less\<close>)
  moreover have "unat (ucast ?b :: u32) = Suc (unat ?i) mod 256"
    by (simp add: unsigned_ucast_eq unat_word_ariths take_bit_eq_mod mod_simps)
  ultimately show "unat (snd (inc_index hs)) mod 256 = Suc (unat ?i) mod 256"
    by (simp only: unat_byte_split)
qed

section \<open>Timestamps only move forward\<close>

lemma tai64n_after_irrefl: "\<not> tai64n_after a a"
  by (simp add: tai64n_after_def)

lemma tai64n_after_trans: "tai64n_after a b \<Longrightarrow> tai64n_after b c \<Longrightarrow> tai64n_after a c"
  by (auto simp: tai64n_after_def)

lemma stamp_length: "stamp st now = Inr ts \<Longrightarrow> length ts = 12"
  by (auto simp: stamp_def rbind_Inr_conv split: if_splits)

lemma tai64n_parse_total: "length ts = 12 \<Longrightarrow> \<exists>t. tai64n_parse ts = Inr t"
  by (simp add: tai64n_parse_def)

lemma tai64n_parse_bytes:
  "tai64n_parse (to_be_bytes 8 s @ to_be_bytes 4 n) = Inr \<lparr>secs = s, nano = n\<rparr>"
  by (simp add: tai64n_parse_def)

section \<open>Derived keys\<close>

lemma derive_lengths:
  assumes C: "crypto_ok C"
  shows "init_derive C x y z = (h, ck, k) \<Longrightarrow> length k = 32"
    and "static_derive C x y = (ck, k) \<Longrightarrow> length k = 32"
    and "resp_derive C u v w x y z' = (h, ck, k) \<Longrightarrow> length k = 32"
    and "transport_keys C x = (k1, k2) \<Longrightarrow> length k1 = 32 \<and> length k2 = 32"
  using crypto_ok_lengths [OF C]
  by (auto simp: init_derive_def static_derive_def resp_derive_def transport_keys_def Let_def)

section \<open>The four steps on matching inputs\<close>

text \<open>Everything after the 116 bytes both ends authenticate: mac1 and the untouched mac2.\<close>

definition init_message :: "crypto \<Rightarrow> handshake \<Rightarrow> u32 \<Rightarrow> bytes \<Rightarrow> bytes \<Rightarrow> bytes \<Rightarrow> bytes \<Rightarrow> bytes" where
  "init_message C hs idx e es ets dst =
     append_mac1 C hs (to_le_bytes 4 HANDSHAKE_INIT @ to_le_bytes 4 idx @ e @ es @ ets @ slice 116 148 dst)"

definition resp_message :: "crypto \<Rightarrow> handshake \<Rightarrow> u32 \<Rightarrow> u32 \<Rightarrow> bytes \<Rightarrow> bytes \<Rightarrow> bytes \<Rightarrow> bytes" where
  "resp_message C hs idx peer e en dst =
     append_mac1 C hs (to_le_bytes 4 HANDSHAKE_RESP @ to_le_bytes 4 idx @ to_le_bytes 4 peer @ e @ en @
       slice 60 92 dst)"

lemma append_mac1_params: "params hs' = params hs \<Longrightarrow> append_mac1 C hs' m = append_mac1 C hs m"
  by (simp add: append_mac1_def)

lemma inc_index_params [simp]:
  "params (fst (inc_index hs)) = params hs" "stamper (fst (inc_index hs)) = stamper hs"
  "state (fst (inc_index hs)) = state hs" "previous (fst (inc_index hs)) = previous hs"
  "last_handshake_timestamp (fst (inc_index hs)) = last_handshake_timestamp hs"
  by (simp_all add: inc_index_def Let_def)

lemma format_handshake_initiation_ok:
  assumes C: "crypto_ok C" and r: "r 0 32 = Some ea" and dst: "148 \<le> length dst"
    and pub: "length (static_public (params hs)) = 32"
    and ts: "stamp (stamper hs) (now 0) = Inr ts"
    and d1: "init_derive C (peer_static_public (params hs)) (x25519_public C ea)
               (x25519_dh C ea (peer_static_public (params hs))) = (h1, ck1, k1)"
    and d2: "static_derive C ck1 (static_shared (params hs)) = (ck2, k2)"
  obtains es ets where
    "format_handshake_initiation C r now hs dst =
       ((fst (inc_index hs))\<lparr>previous := state hs,
          state := InitSent \<lparr>is_local_index = snd (inc_index hs),
             is_hash = b2s_hash C (b2s_hash C h1 es) ets, is_chaining_key = ck2,
             is_ephemeral_private = ea, is_time_sent = now 1\<rparr>\<rparr>,
        Inr (init_message C hs (snd (inc_index hs)) (x25519_public C ea) es ets dst))"
    "aead_chacha20_open C KEY_LEN k1 0 es h1 = Inr (static_public (params hs))"
    "aead_chacha20_open C TIMESTAMP_LEN k2 0 ets (b2s_hash C h1 es) = Inr ts"
    "length es = 48" "length ets = 28"
proof -
  obtain es where es: "aead_chacha20_seal C 48 k1 0 (static_public (params hs)) h1 = Inr es"
      "length es = 48" "aead_chacha20_open C 32 k1 0 es h1 = Inr (static_public (params hs))"
    using aead_seal_open [OF C derive_lengths(1) [OF C d1], of 48 "static_public (params hs)" 0 h1] pub
    by auto
  obtain ets where ets: "aead_chacha20_seal C 28 k2 0 ts (b2s_hash C h1 es) = Inr ets"
      "length ets = 28" "aead_chacha20_open C 12 k2 0 ets (b2s_hash C h1 es) = Inr ts"
    using aead_seal_open [OF C derive_lengths(2) [OF C d2], of 28 ts 0 "b2s_hash C h1 es"]
      stamp_length [OF ts] by auto
  obtain hs' li where inc: "inc_index hs = (hs', li)" by fastforce
  have p: "params hs' = params hs" "stamper hs' = stamper hs" "state hs' = state hs"
    using inc_index_params [of hs] inc by simp_all
  show thesis
  proof (rule that [OF _ _ _ es(2) ets(2)])
    show "aead_chacha20_open C KEY_LEN k1 0 es h1 = Inr (static_public (params hs))"
      using es(3) by (simp add: KEY_LEN_def)
    show "aead_chacha20_open C TIMESTAMP_LEN k2 0 ets (b2s_hash C h1 es) = Inr ts"
      using ets(3) by (simp add: TIMESTAMP_LEN_def)
  qed (use dst r d1 d2 es(1) ets(1) ts inc p in
      \<open>simp add: format_handshake_initiation_def HANDSHAKE_INIT_SZ_def Let_def init_message_def
         append_mac1_def\<close>)
qed

lemma receive_handshake_initialization_ok:
  assumes C: "crypto_ok C"
    and d1: "init_derive C (static_public (params hs)) (hi_unencrypted_ephemeral p)
      (x25519_dh C (static_private (params hs)) (hi_unencrypted_ephemeral p)) = (h1, ck1, k1)"
    and d2: "static_derive C ck1 (static_shared (params hs)) = (ck2, k2)"
    and o1: "aead_chacha20_open C KEY_LEN k1 0 (hi_encrypted_static p) h1 = Inr (peer_static_public (params hs))"
    and o2: "aead_chacha20_open C TIMESTAMP_LEN k2 0 (hi_encrypted_timestamp p)
               (b2s_hash C h1 (hi_encrypted_static p)) = Inr ts"
    and t: "tai64n_parse ts = Inr t" "tai64n_after t (last_handshake_timestamp hs)"
  shows "receive_handshake_initialization C r hs p dst =
    format_handshake_response C r (hs\<lparr>last_handshake_timestamp := t, previous := state hs,
      state := InitReceived
        (b2s_hash C (b2s_hash C h1 (hi_encrypted_static p)) (hi_encrypted_timestamp p)) ck2
        (hi_unencrypted_ephemeral p) (hi_sender_idx p)\<rparr>) dst"
  using assms by (simp add: receive_handshake_initialization_def Let_def crypto_ok_eq)

lemma format_handshake_response_ok:
  assumes C: "crypto_ok C" and r: "r 0 32 = Some eb" and dst: "92 \<le> length dst"
    and st: "state hs = InitReceived hash ck pe pidx"
    and d: "resp_derive C hash ck (x25519_public C eb) (x25519_dh C eb pe)
              (x25519_dh C eb (peer_static_public (params hs))) (preshared_key (params hs)) = (h, ck', k)"
    and tk: "transport_keys C ck' = (t2, t3)"
    and inc: "inc_index (hs\<lparr>state := HsNone\<rparr>) = (hs', li)"
  obtains en s where
    "format_handshake_response C r hs dst =
       (hs', Inr (resp_message C hs li pidx (x25519_public C eb) en dst, s))"
    "session_new C li pidx t2 t3 = Inr s"
    "aead_chacha20_open C 0 k 0 en h = Inr []" "length en = 16"
proof -
  obtain en where en: "aead_chacha20_seal C 16 k 0 [] h = Inr en" "length en = 16"
      "aead_chacha20_open C 0 k 0 en h = Inr []"
    using aead_seal_open [OF C derive_lengths(3) [OF C d], of 16 "[]" 0 h] by auto
  obtain s where s: "session_new C li pidx t2 t3 = Inr s"
    using derive_lengths(4) [OF C tk] C by (simp add: session_new_def crypto_ok_key)
  have p: "params hs' = params hs" using inc_index_params(1) [of "hs\<lparr>state := HsNone\<rparr>"] inc by simp
  show thesis
    by (rule that [OF _ s en(3,2)])
      (use dst r st d tk inc en(1) s p in
        \<open>simp add: format_handshake_response_def HANDSHAKE_RESP_SZ_def Let_def resp_message_def
           append_mac1_def\<close>)
qed

lemma receive_handshake_response_ok:
  assumes "state hs = InitSent st" "is_local_index st = hr_receiver_idx p"
    and "resp_derive C (is_hash st) (is_chaining_key st) (hr_unencrypted_ephemeral p)
           (x25519_dh C (is_ephemeral_private st) (hr_unencrypted_ephemeral p))
           (x25519_dh C (static_private (params hs)) (hr_unencrypted_ephemeral p))
           (preshared_key (params hs)) = (h, ck, k)"
    and "transport_keys C ck = (t2, t3)"
    and "aead_chacha20_open C 0 k 0 (hr_encrypted_nothing p) h = Inr m"
  shows "receive_handshake_response C now hs p =
    (hs\<lparr>last_rtt := Some (word_of_nat (as_millis (duration_since now (is_time_sent st)))), state := HsNone\<rparr>,
     session_new C (is_local_index st) (hr_sender_idx p) t3 t2)"
  using assms by (simp add: receive_handshake_response_def awaited_def Let_def)

section \<open>Initiations as a replay filter\<close>

text \<open>The timestamp an initiation carries for a responder with parameters \<open>P\<close>.\<close>

definition init_timestamp :: "crypto \<Rightarrow> noise_params \<Rightarrow> handshake_init \<Rightarrow> crypto_error + tai64n" where
  "init_timestamp C P packet =
     (let e = hi_unencrypted_ephemeral packet;
          (hash, chaining_key, key) = init_derive C (static_public P) e (x25519_dh C (static_private P) e);
          hash = b2s_hash C hash (hi_encrypted_static packet);
          (chaining_key, key) = static_derive C chaining_key (static_shared P)
      in rbind (aead_chacha20_open C TIMESTAMP_LEN key 0 (hi_encrypted_timestamp packet) hash) tai64n_parse)"

definition init_step ::
    "crypto \<Rightarrow> handshake \<Rightarrow> rng \<times> handshake_init \<times> bytes \<Rightarrow> handshake \<times> bool" where
  "init_step C hs = (\<lambda>(r, p, dst). let (hs', res) = receive_handshake_initialization C r hs p dst
                                  in (hs', is_ok res))"

lemma format_handshake_response_keeps:
  "params (fst (format_handshake_response C r hs dst)) = params hs"
  "last_handshake_timestamp (fst (format_handshake_response C r hs dst)) = last_handshake_timestamp hs"
  by (auto simp: format_handshake_response_def inc_index_def Let_def
      split: handshake_state.splits option.splits prod.splits sum.splits)

text \<open>
  Receiving an initiation leaves the state alone or moves the last timestamp forward to the
  one of the packet; what is accepted moved it.
\<close>

lemma receive_handshake_initialization_cases:
  fixes hs p r dst C
  defines "hs' \<equiv> fst (receive_handshake_initialization C r hs p dst)"
    and "res \<equiv> snd (receive_handshake_initialization C r hs p dst)"
  shows "hs' = hs \<and> \<not> is_ok res \<or>
    params hs' = params hs \<and>
    (\<exists>t. init_timestamp C (params hs) p = Inr t \<and> tai64n_after t (last_handshake_timestamp hs) \<and>
         last_handshake_timestamp hs' = t)"
proof -
  obtain h1 ck1 k1 where d1: "init_derive C (static_public (params hs)) (hi_unencrypted_ephemeral p)
      (x25519_dh C (static_private (params hs)) (hi_unencrypted_ephemeral p)) = (h1, ck1, k1)"
    by (metis prod_cases3)
  obtain ck2 k2 where d2: "static_derive C ck1 (static_shared (params hs)) = (ck2, k2)" by fastforce
  show ?thesis
    unfolding hs'_def res_def receive_handshake_initialization_def init_timestamp_def
    by (simp add: Let_def d1 d2 format_handshake_response_keeps split: sum.split)
qed

interpretation initiations: replay_filter "init_step C" "\<lambda>_ _. True"
  "\<lambda>(r, p, dst). init_timestamp C P p" "\<lambda>hs. params hs = P"
  "\<lambda>hs k. \<not> (\<exists>t. k = Inr t \<and> tai64n_after t (last_handshake_timestamp hs))" for C P
proof
  fix hs :: handshake and i :: "rng \<times> handshake_init \<times> bytes"
  assume inv: "params hs = P"
  obtain r p dst where i: "i = (r, p, dst)" by (cases i)
  have step: "fst (init_step C hs i) = fst (receive_handshake_initialization C r hs p dst)"
      "snd (init_step C hs i) = is_ok (snd (receive_handshake_initialization C r hs p dst))"
    by (simp_all add: init_step_def i case_prod_unfold Let_def)
  note c = receive_handshake_initialization_cases [of C r hs p dst, folded step, unfolded inv]
  show "params (fst (init_step C hs i)) = P" using c inv by auto
  show "snd (init_step C hs i) \<Longrightarrow>
      \<not> \<not> (\<exists>t. (case i of (r, p, dst) \<Rightarrow> init_timestamp C P p) = Inr t \<and>
               tai64n_after t (last_handshake_timestamp hs))"
    using c i by auto
  show "snd (init_step C hs i) \<Longrightarrow>
      \<not> (\<exists>t. (case i of (r, p, dst) \<Rightarrow> init_timestamp C P p) = Inr t \<and>
             tai64n_after t (last_handshake_timestamp (fst (init_step C hs i))))"
    using c i tai64n_after_irrefl by auto
  show "\<not> (\<exists>t. k = Inr t \<and> tai64n_after t (last_handshake_timestamp hs)) \<Longrightarrow>
      \<not> (\<exists>t. k = Inr t \<and> tai64n_after t (last_handshake_timestamp (fst (init_step C hs i))))" for k
    using c tai64n_after_trans by metis
qed

section \<open>Properties\<close>


text \<open>The session index of a peer cycles through its low byte and never leaves the peer's
  block: allocating an index keeps the upper 24 bits and adds one to the low byte modulo 256.\<close>

lemma inc_index_stays_in_block:
  "snd (inc_index hs) = next_index (fst (inc_index hs)) \<and>
   unat (snd (inc_index hs)) div 256 = unat (next_index hs) div 256 \<and>
   unat (snd (inc_index hs)) mod 256 = Suc (unat (next_index hs)) mod 256"
  using inc_index_block [of hs] by (simp add: inc_index_def Let_def)

end
