(* ===== verification/Noise_Tunnel.thy ===== *)
theory Noise_Tunnel
  imports Noise_Handshake
begin

text \<open>
  The tunnel between two peers: datagram parsing, mac1 verification, the ring of sessions
  and its rotation (noise.rs, verifier.rs), the interface the node uses (crypto.rs) and the
  type-erased wrapper that enforces the handshake order (fp-crypto/src/raw_crypto.rs).

  An operation returns the new state with its result; those that mark a received counter
  return an option, \<open>None\<close> standing for a loop that never ends, and are shown to return.
\<close>

section \<open>Datagrams\<close>

definition DATA_MIN_SZ :: nat where "DATA_MIN_SZ = 33"
definition N_SESSIONS :: nat where "N_SESSIONS = 8"

datatype packet =
    PkHandshakeInit handshake_init
  | PkHandshakeResponse handshake_response
  | PkPacketData packet_data

definition parse_incoming_packet :: "bytes \<Rightarrow> crypto_error + packet" where
  "parse_incoming_packet src =
     (if length src < 4 then Inl InvalidPacket
      else let packet_type = (from_le_bytes (slice 0 4 src) :: u32) in
        if packet_type = HANDSHAKE_INIT \<and> length src = HANDSHAKE_INIT_SZ then
          Inr (PkHandshakeInit \<lparr>hi_sender_idx = from_le_bytes (slice 4 8 src),
                 hi_unencrypted_ephemeral = slice 8 40 src,
                 hi_encrypted_static = slice 40 88 src,
                 hi_encrypted_timestamp = slice 88 116 src\<rparr>)
        else if packet_type = HANDSHAKE_RESP \<and> length src = HANDSHAKE_RESP_SZ then
          Inr (PkHandshakeResponse \<lparr>hr_sender_idx = from_le_bytes (slice 4 8 src),
                 hr_receiver_idx = from_le_bytes (slice 8 12 src),
                 hr_unencrypted_ephemeral = slice 12 44 src,
                 hr_encrypted_nothing = slice 44 60 src\<rparr>)
        else if packet_type = DATA \<and> DATA_MIN_SZ \<le> length src then
          Inr (PkPacketData \<lparr>pd_receiver_idx = from_le_bytes (slice 4 8 src),
                 pd_counter = from_le_bytes (slice 8 16 src),
                 encrypted_encapsulated_packet = drop 16 src\<rparr>)
        else Inl InvalidPacket)"

record verifier =
  mac1_key :: bytes

definition verifier_new :: "crypto \<Rightarrow> bytes \<Rightarrow> verifier" where
  "verifier_new C public_key = \<lparr>mac1_key = b2s_hash C LABEL_MAC1 public_key\<rparr>"

definition is_handshake :: "packet \<Rightarrow> bool" where
  "is_handshake p = (case p of PkPacketData _ \<Rightarrow> False | _ \<Rightarrow> True)"

definition verify_packet :: "crypto \<Rightarrow> verifier \<Rightarrow> bytes \<Rightarrow> crypto_error + packet" where
  "verify_packet C vf src =
     rbind (parse_incoming_packet src) (\<lambda>packet.
       if is_handshake packet then
         let msg = take (length src - 32) src;
             mac1 = take 16 (drop (length src - 32) src);
             computed_mac1 = b2s_keyed_mac_16 C (mac1_key vf) msg
         in if verify_slices_are_equal C (take 16 computed_mac1) mac1 then Inr packet
            else Inl InvalidMac
       else Inr packet)"

section \<open>The tunnel\<close>

definition MAX_QUEUE_DEPTH :: nat where "MAX_QUEUE_DEPTH = 256"

datatype noise_result =
    Done
  | WriteToNetwork bytes
  | WriteToTunnel bytes ip_addr

record noise =
  handshake :: handshake
  sessions :: "session option list"
  current :: nat
  next_session :: "nat option"
  packet_queue :: "bytes list"
  noise_verifier :: verifier

definition noise_new ::
    "crypto \<Rightarrow> bytes \<Rightarrow> bytes \<Rightarrow> bytes option \<Rightarrow> u32 \<Rightarrow> verifier option \<Rightarrow> time_stamper \<Rightarrow> noise" where
  "noise_new C own_private peer_public psk index vf st =
     (let own_public = x25519_public C own_private
      in \<lparr>handshake = handshake_new C own_private own_public peer_public (push_bit 8 index) psk st,
          sessions = replicate N_SESSIONS None, current = 0, next_session = None,
          packet_queue = [],
          noise_verifier = (case vf of None \<Rightarrow> verifier_new C own_public | Some v \<Rightarrow> v)\<rparr>)"

definition queue_packet :: "noise \<Rightarrow> bytes \<Rightarrow> noise" where
  "queue_packet n packet =
     (if length (packet_queue n) < MAX_QUEUE_DEPTH
      then n\<lparr>packet_queue := packet_queue n @ [packet]\<rparr> else n)"

definition noise_format_handshake_initiation ::
    "crypto \<Rightarrow> rng \<Rightarrow> (nat \<Rightarrow> instant) \<Rightarrow> noise \<Rightarrow> bytes \<Rightarrow> noise \<times> (crypto_error + noise_result)" where
  "noise_format_handshake_initiation C r now n dst =
     (let (hs, res) = format_handshake_initiation C r now (handshake n) dst
      in (n\<lparr>handshake := hs\<rparr>, rbind res (\<lambda>packet. Inr (WriteToNetwork packet))))"

definition encapsulate ::
    "crypto \<Rightarrow> rng \<Rightarrow> (nat \<Rightarrow> instant) \<Rightarrow> noise \<Rightarrow> bytes \<Rightarrow> bytes \<Rightarrow> noise \<times> (crypto_error + noise_result)" where
  "encapsulate C r now n src dst =
     (case sessions n ! (current n mod N_SESSIONS) of
        Some session \<Rightarrow>
          let (s, res) = format_packet_data C r session src (length dst)
          in (n\<lparr>sessions := (sessions n)[current n mod N_SESSIONS := Some s]\<rparr>,
              rbind res (\<lambda>packet. Inr (WriteToNetwork packet)))
      | None \<Rightarrow> noise_format_handshake_initiation C r now (queue_packet n src) dst)"

definition validate_decapsulated_packet :: "bytes \<Rightarrow> crypto_error + noise_result" where
  "validate_decapsulated_packet packet =
     (if length packet = 0 then Inr Done
      else
        let cut = (\<lambda>computed_len src_ip. if length packet < computed_len then Inl InvalidPacket
                     else Inr (WriteToTunnel (take computed_len packet) src_ip))
        in if drop_bit 4 (packet ! 0) = 4 \<and> 20 \<le> length packet then
             cut (unat (from_be_bytes (slice 2 4 packet) :: u16)) (ipv4_from (slice 12 16 packet))
           else if drop_bit 4 (packet ! 0) = 6 \<and> 40 \<le> length packet then
             cut (unat (from_be_bytes (slice 4 6 packet) :: u16) + 40) (ipv6_from (slice 8 24 packet))
           else Inl InvalidPacket)"

definition handle_handshake_init ::
    "crypto \<Rightarrow> rng \<Rightarrow> noise \<Rightarrow> handshake_init \<Rightarrow> bytes \<Rightarrow> noise \<times> (crypto_error + noise_result)" where
  "handle_handshake_init C r n p dst =
     (let (hs, res) = receive_handshake_initialization C r (handshake n) p dst;
          n = n\<lparr>handshake := hs\<rparr>
      in case res of
           Inl e \<Rightarrow> (n, Inl e)
         | Inr (packet, session) \<Rightarrow>
             let index = local_index session
             in (n\<lparr>sessions := (sessions n)[index mod N_SESSIONS := Some session],
                   next_session := Some index\<rparr>, Inr (WriteToNetwork packet)))"

definition noise_handle_handshake_response ::
    "crypto \<Rightarrow> instant \<Rightarrow> noise \<Rightarrow> handshake_response \<Rightarrow> noise \<times> (crypto_error + noise_result)" where
  "noise_handle_handshake_response C now n p =
     (let (hs, res) = receive_handshake_response C now (handshake n) p;
          n = n\<lparr>handshake := hs\<rparr>
      in case res of
           Inl e \<Rightarrow> (n, Inl e)
         | Inr session \<Rightarrow>
             let l_idx = local_index session;
                 n = n\<lparr>sessions := (sessions n)[l_idx mod N_SESSIONS := Some session]\<rparr>;
                 distance = (word_of_nat l_idx :: byte) - word_of_nat (current n);
                 current_live = (case sessions n ! (current n mod N_SESSIONS) of
                                   None \<Rightarrow> False | Some s \<Rightarrow> local_index s = current n)
             in (if \<not> current_live \<or> (distance \<noteq> 0 \<and> distance < 128)
                 then n\<lparr>current := l_idx, next_session := None\<rparr> else n, Inr Done))"

definition handle_data ::
    "crypto \<Rightarrow> noise \<Rightarrow> packet_data \<Rightarrow> bytes \<Rightarrow> (noise \<times> (crypto_error + noise_result)) option" where
  "handle_data C n packet dst =
     (let r_idx = unat (pd_receiver_idx packet); idx = r_idx mod N_SESSIONS
      in case sessions n ! idx of
           None \<Rightarrow> Some (n, Inl NoCurrentSession)
         | Some session \<Rightarrow>
             Option.bind (receive_packet_data C session packet (length dst)) (\<lambda>(s, res).
               let n = n\<lparr>sessions := (sessions n)[idx := Some s]\<rparr>
               in case res of
                    Inl e \<Rightarrow> Some (n, Inl e)
                  | Inr decapsulated \<Rightarrow>
                      let n = (if next_session n = Some r_idx
                               then n\<lparr>current := r_idx, next_session := None\<rparr> else n)
                      in Some (n, validate_decapsulated_packet decapsulated)))"

definition handle_verified_packet ::
    "crypto \<Rightarrow> rng \<Rightarrow> instant \<Rightarrow> noise \<Rightarrow> packet \<Rightarrow> bytes
       \<Rightarrow> (noise \<times> (crypto_error + noise_result)) option" where
  "handle_verified_packet C r now n packet dst =
     (case packet of
        PkHandshakeInit p \<Rightarrow> Some (handle_handshake_init C r n p dst)
      | PkHandshakeResponse p \<Rightarrow> Some (noise_handle_handshake_response C now n p)
      | PkPacketData p \<Rightarrow> handle_data C n p dst)"

definition decapsulate ::
    "crypto \<Rightarrow> rng \<Rightarrow> instant \<Rightarrow> noise \<Rightarrow> bytes \<Rightarrow> bytes
       \<Rightarrow> (noise \<times> (crypto_error + noise_result)) option" where
  "decapsulate C r now n datagram dst =
     (case verify_packet C (noise_verifier n) datagram of
        Inl e \<Rightarrow> Some (n, Inl e)
      | Inr packet \<Rightarrow> handle_verified_packet C r now n packet dst)"

section \<open>Formatting and parsing agree\<close>

lemma append_mac1_layout:
  assumes "length a = k" "length (slice k (k + 32) dst) = 32"
  shows "append_mac1 C hs (a @ slice k (k + 32) dst) =
    a @ b2s_keyed_mac_16 C (sending_mac1_key (params hs)) a @ drop 16 (slice k (k + 32) dst)"
  using assms by (simp add: append_mac1_def Let_def)

lemma parse_init_message:
  assumes C: "crypto_ok C" and l: "length e = 32" "length es = 48" "length ets = 28" "148 \<le> length dst"
    and key: "mac1_key vf = sending_mac1_key (params hs)"
  shows "verify_packet C vf (init_message C hs idx e es ets dst) =
     Inr (PkHandshakeInit \<lparr>hi_sender_idx = idx, hi_unencrypted_ephemeral = e,
            hi_encrypted_static = es, hi_encrypted_timestamp = ets\<rparr>)"
proof -
  let ?a = "to_le_bytes 4 HANDSHAKE_INIT @ to_le_bytes 4 idx @ e @ es @ ets"
  let ?mac = "b2s_keyed_mac_16 C (sending_mac1_key (params hs)) ?a"
  have m: "init_message C hs idx e es ets dst = ?a @ ?mac @ drop 16 (slice 116 148 dst)"
    using append_mac1_layout [of ?a 116 dst C hs] l by (simp add: init_message_def)
  have mac: "length ?mac = 16" using C by (simp add: crypto_ok_lengths)
  have dl: "length (drop 16 (slice 116 148 dst)) = 16" using l by simp
  have p: "parse_incoming_packet (init_message C hs idx e es ets dst) =
      Inr (PkHandshakeInit \<lparr>hi_sender_idx = idx, hi_unencrypted_ephemeral = e,
                hi_encrypted_static = es, hi_encrypted_timestamp = ets\<rparr>)"
    unfolding m using l mac dl
    by (simp add: parse_incoming_packet_def HANDSHAKE_INIT_SZ_def HANDSHAKE_INIT_def slice_def Let_def)
  show ?thesis
    using l mac dl C key unfolding verify_packet_def p
    by (auto simp: m is_handshake_def Let_def crypto_ok_eq)
qed

lemma parse_resp_message:
  assumes C: "crypto_ok C" and l: "length e = 32" "length en = 16" "92 \<le> length dst"
    and key: "mac1_key vf = sending_mac1_key (params hs)"
  shows "verify_packet C vf (resp_message C hs idx peer e en dst) =
     Inr (PkHandshakeResponse \<lparr>hr_sender_idx = idx, hr_receiver_idx = peer,
            hr_unencrypted_ephemeral = e, hr_encrypted_nothing = en\<rparr>)"
proof -
  let ?a = "to_le_bytes 4 HANDSHAKE_RESP @ to_le_bytes 4 idx @ to_le_bytes 4 peer @ e @ en"
  let ?mac = "b2s_keyed_mac_16 C (sending_mac1_key (params hs)) ?a"
  have m: "resp_message C hs idx peer e en dst = ?a @ ?mac @ drop 16 (slice 60 92 dst)"
    using append_mac1_layout [of ?a 60 dst C hs] l by (simp add: resp_message_def)
  have mac: "length ?mac = 16" using C by (simp add: crypto_ok_lengths)
  have dl: "length (drop 16 (slice 60 92 dst)) = 16" using l by simp
  have p: "parse_incoming_packet (resp_message C hs idx peer e en dst) =
      Inr (PkHandshakeResponse \<lparr>hr_sender_idx = idx, hr_receiver_idx = peer,
            hr_unencrypted_ephemeral = e, hr_encrypted_nothing = en\<rparr>)"
    unfolding m using l mac dl
    by (simp add: parse_incoming_packet_def HANDSHAKE_RESP_SZ_def HANDSHAKE_RESP_def HANDSHAKE_INIT_def
        slice_def Let_def)
  show ?thesis
    using l mac dl C key unfolding verify_packet_def p
    by (auto simp: m is_handshake_def Let_def crypto_ok_eq)
qed

lemma parse_data_message:
  assumes "17 \<le> length ct"
  shows "verify_packet C vf (to_le_bytes 4 DATA @ to_le_bytes 4 idx @ to_le_bytes 8 ctr @ ct) =
     Inr (PkPacketData \<lparr>pd_receiver_idx = idx, pd_counter = ctr, encrypted_encapsulated_packet = ct\<rparr>)"
  using assms
  by (simp add: verify_packet_def parse_incoming_packet_def is_handshake_def DATA_def DATA_MIN_SZ_def
      HANDSHAKE_RESP_def HANDSHAKE_INIT_def slice_def Let_def)

lemma verify_packet_parses: "verify_packet C vf m = Inr p \<Longrightarrow> parse_incoming_packet m = Inr p"
  by (auto simp: verify_packet_def rbind_Inr_conv Let_def split: if_splits)

section \<open>The handshake between two tunnels\<close>

text \<open>The parameters of two ends that know each other's public keys.\<close>

definition params_for :: "crypto \<Rightarrow> noise_params \<Rightarrow> noise_params \<Rightarrow> bool" where
  "params_for C p q \<longleftrightarrow>
     static_public p = x25519_public C (static_private p) \<and>
     peer_static_public p = static_public q \<and>
     static_shared p = x25519_dh C (static_private p) (peer_static_public p) \<and>
     sending_mac1_key p = b2s_hash C LABEL_MAC1 (peer_static_public p) \<and>
     preshared_key p = preshared_key q"

definition paired :: "crypto \<Rightarrow> noise \<Rightarrow> noise \<Rightarrow> bool" where
  "paired C m n \<longleftrightarrow>
     params_for C (params (handshake m)) (params (handshake n)) \<and>
     params_for C (params (handshake n)) (params (handshake m)) \<and>
     mac1_key (noise_verifier m) = b2s_hash C LABEL_MAC1 (static_public (params (handshake m))) \<and>
     mac1_key (noise_verifier n) = b2s_hash C LABEL_MAC1 (static_public (params (handshake n))) \<and>
     length (sessions m) = N_SESSIONS \<and> length (sessions n) = N_SESSIONS"

lemma params_for_mac1:
  "params_for C p q \<Longrightarrow> sending_mac1_key p = b2s_hash C LABEL_MAC1 (static_public q)"
  by (simp add: params_for_def)

text \<open>Two sessions that can talk to each other, as the handshake creates them.\<close>

definition mirrored :: "session \<Rightarrow> session \<Rightarrow> bool" where
  "mirrored s t \<longleftrightarrow> sender s = receiver t \<and> receiver s = sender t \<and>
     sending_index s = receiving_index t \<and> receiving_index s = sending_index t \<and>
     length (sender s) = 32 \<and> length (receiver s) = 32"

definition unused_session :: "session \<Rightarrow> bool" where
  "unused_session s \<longleftrightarrow> sending_key_counter s = 0 \<and> receiving_key_counter s = default_validator"

lemma session_new_ok:
  "session_new C li pi rk sk = Inr s \<Longrightarrow>
     receiving_index s = li \<and> sending_index s = pi \<and> receiver s = rk \<and> sender s = sk \<and> unused_session s"
  by (auto simp: session_new_def unused_session_def split: if_splits)

text \<open>The core of the key agreement, on the handshake states of both ends.\<close>

lemma handshake_agreement:
  assumes C: "crypto_ok C"
    and pab: "params_for C (params ha) (params hb)" and pba: "params_for C (params hb) (params ha)"
    and ra: "ra 0 32 = Some ea" and rb: "rb 0 32 = Some eb"
    and da: "148 \<le> length dsta" and db: "92 \<le> length dstb"
    and ts: "stamp (stamper ha) (now 0) = Inr ts" "tai64n_parse ts = Inr t"
      "tai64n_after t (last_handshake_timestamp hb)"
  obtains ha1 es ets hb1 en sb sa where
    "format_handshake_initiation C ra now ha dsta =
       (ha1, Inr (init_message C ha (snd (inc_index ha)) (x25519_public C ea) es ets dsta))"
    "length es = 48" "length ets = 28"
    "receive_handshake_initialization C rb hb
       \<lparr>hi_sender_idx = snd (inc_index ha), hi_unencrypted_ephemeral = x25519_public C ea,
        hi_encrypted_static = es, hi_encrypted_timestamp = ets\<rparr> dstb =
       (hb1, Inr (resp_message C hb (snd (inc_index hb)) (snd (inc_index ha)) (x25519_public C eb) en dstb, sb))"
    "length en = 16"
    "receive_handshake_response C later ha1
       \<lparr>hr_sender_idx = snd (inc_index hb), hr_receiver_idx = snd (inc_index ha),
        hr_unencrypted_ephemeral = x25519_public C eb, hr_encrypted_nothing = en\<rparr> =
       (ha1\<lparr>last_rtt := Some (word_of_nat (as_millis (duration_since later (now 1)))), state := HsNone\<rparr>, Inr sa)"
    "mirrored sa sb" "unused_session sa" "unused_session sb"
    "receiving_index sa = snd (inc_index ha)" "receiving_index sb = snd (inc_index hb)"
    "params ha1 = params ha" "params hb1 = params hb"
proof -
  let ?A = "params ha" and ?B = "params hb"
  let ?e = "x25519_public C ea" and ?f = "x25519_public C eb"
  note dh = crypto_ok_dh [OF C]
  obtain h1 ck1 k1 where d1: "init_derive C (peer_static_public ?A) ?e
      (x25519_dh C ea (peer_static_public ?A)) = (h1, ck1, k1)" by (metis prod_cases3)
  obtain ck2 k2 where d2: "static_derive C ck1 (static_shared ?A) = (ck2, k2)" by fastforce
  have lp: "length (static_public ?A) = 32" using pab C by (simp add: params_for_def crypto_ok_lengths)
  obtain es ets where i: "format_handshake_initiation C ra now ha dsta =
       ((fst (inc_index ha))\<lparr>previous := state ha,
          state := InitSent \<lparr>is_local_index = snd (inc_index ha),
             is_hash = b2s_hash C (b2s_hash C h1 es) ets, is_chaining_key = ck2,
             is_ephemeral_private = ea, is_time_sent = now 1\<rparr>\<rparr>,
        Inr (init_message C ha (snd (inc_index ha)) ?e es ets dsta))"
      and o1: "aead_chacha20_open C KEY_LEN k1 0 es h1 = Inr (static_public ?A)"
      and o2: "aead_chacha20_open C TIMESTAMP_LEN k2 0 ets (b2s_hash C h1 es) = Inr ts"
      and le: "length es = 48" "length ets = 28"
    using format_handshake_initiation_ok [where r = ra and now = now, OF C ra da lp ts(1) d1 d2] .
  let ?h3 = "b2s_hash C (b2s_hash C h1 es) ets"
  let ?p = "\<lparr>hi_sender_idx = snd (inc_index ha), hi_unencrypted_ephemeral = ?e,
        hi_encrypted_static = es, hi_encrypted_timestamp = ets\<rparr>"
  let ?hb = "hb\<lparr>last_handshake_timestamp := t, previous := state hb,
      state := InitReceived ?h3 ck2 ?e (snd (inc_index ha))\<rparr>"
  have d1': "init_derive C (static_public ?B) ?e (x25519_dh C (static_private ?B) ?e) = (h1, ck1, k1)"
    using d1 pab pba dh [of ea "static_private ?B"] by (simp add: params_for_def)
  have d2': "static_derive C ck1 (static_shared ?B) = (ck2, k2)"
    using d2 pab pba dh [of "static_private ?A" "static_private ?B"] by (simp add: params_for_def)
  have rec: "receive_handshake_initialization C rb hb ?p dstb = format_handshake_response C rb ?hb dstb"
    using receive_handshake_initialization_ok [OF C, of hb ?p h1 ck1 k1 ck2 k2 ts t rb dstb]
      d1' d2' o1 o2 ts(2,3) pba by (simp add: params_for_def)
  obtain h4 ck3 k3 where d3: "resp_derive C ?h3 ck2 ?f (x25519_dh C eb ?e)
      (x25519_dh C eb (peer_static_public ?B)) (preshared_key ?B) = (h4, ck3, k3)" by (metis prod_cases3)
  obtain t2 t3 where tk: "transport_keys C ck3 = (t2, t3)" by fastforce
  obtain hb1 li where inc: "inc_index (?hb\<lparr>state := HsNone\<rparr>) = (hb1, li)" by fastforce
  have li: "li = snd (inc_index hb)" and hb1: "params hb1 = ?B"
    using inc inc_index_params(1) [of "?hb\<lparr>state := HsNone\<rparr>"]
    by (auto simp: inc_index_def Let_def)
  have st: "state ?hb = InitReceived ?h3 ck2 ?e (snd (inc_index ha))" by simp
  have d3b: "resp_derive C ?h3 ck2 ?f (x25519_dh C eb ?e)
      (x25519_dh C eb (peer_static_public (params ?hb))) (preshared_key (params ?hb)) = (h4, ck3, k3)"
    using d3 by simp
  obtain en sb where resp: "format_handshake_response C rb ?hb dstb =
       (hb1, Inr (resp_message C ?hb li (snd (inc_index ha)) ?f en dstb, sb))"
      and sb: "session_new C li (snd (inc_index ha)) t2 t3 = Inr sb"
      and o3: "aead_chacha20_open C 0 k3 0 en h4 = Inr []" and ln: "length en = 16"
    using format_handshake_response_ok [where r = rb and hs = ?hb, OF C rb db st d3b tk inc] .
  have kl: "length t2 = 32" "length t3 = 32" using derive_lengths(4) [OF C tk] by simp_all
  obtain sa where sa: "session_new C (snd (inc_index ha)) li t3 t2 = Inr sa"
    using kl C by (simp add: session_new_def crypto_ok_key)
  let ?q = "\<lparr>hr_sender_idx = li, hr_receiver_idx = snd (inc_index ha),
        hr_unencrypted_ephemeral = ?f, hr_encrypted_nothing = en\<rparr>"
  let ?ha1 = "(fst (inc_index ha))\<lparr>previous := state ha,
          state := InitSent \<lparr>is_local_index = snd (inc_index ha), is_hash = ?h3,
             is_chaining_key = ck2, is_ephemeral_private = ea, is_time_sent = now 1\<rparr>\<rparr>"
  have d3': "resp_derive C ?h3 ck2 ?f (x25519_dh C ea ?f)
      (x25519_dh C (static_private ?A) ?f) (preshared_key ?A) = (h4, ck3, k3)"
    using d3 pab pba dh [of eb ea] dh [of eb "static_private ?A"] by (simp add: params_for_def)
  have fin: "receive_handshake_response C later ?ha1 ?q =
      (?ha1\<lparr>last_rtt := Some (word_of_nat (as_millis (duration_since later (now 1)))), state := HsNone\<rparr>, Inr sa)"
    using receive_handshake_response_ok [of ?ha1 _ ?q C h4 ck3 k3 t2 t3 "[]" later] d3' tk o3 sa by simp
  have rm: "resp_message C ?hb li (snd (inc_index ha)) ?f en dstb =
      resp_message C hb li (snd (inc_index ha)) ?f en dstb"
    by (simp add: resp_message_def append_mac1_def)
  show thesis
  proof (rule that [of ?ha1 es ets hb1 en sb sa, OF i le _ ln fin [unfolded li]])
    show "mirrored sa sb"
      using session_new_ok [OF sa] session_new_ok [OF sb] kl by (simp add: mirrored_def)
  qed (use rec resp li rm session_new_ok [OF sa] session_new_ok [OF sb] hb1 in simp_all)
qed

section \<open>Tunnels\<close>

lemma mod_N_SESSIONS [simp]: "k mod N_SESSIONS < N_SESSIONS"
  by (simp add: N_SESSIONS_def)

lemma tunnel_handshake:
  assumes C: "crypto_ok C" and pair: "paired C na nb"
    and fresh: "sessions na = replicate N_SESSIONS None"
    and ra: "ra 0 32 = Some ea" and rb: "rb 0 32 = Some eb"
    and d: "148 \<le> length dsta" "92 \<le> length dstb"
    and ts: "stamp (stamper (handshake na)) (now 0) = Inr ts" "tai64n_parse ts = Inr t"
      "tai64n_after t (last_handshake_timestamp (handshake nb))"
  obtains na1 m1 nb1 m2 na2 sa sb where
    "noise_format_handshake_initiation C ra now na dsta = (na1, Inr (WriteToNetwork m1))"
    "decapsulate C rb tb nb m1 dstb = Some (nb1, Inr (WriteToNetwork m2))"
    "decapsulate C rc later na1 m2 dstc = Some (na2, Inr Done)"
    "mirrored sa sb" "unused_session sa" "unused_session sb"
    "sessions na2 ! (local_index sa mod N_SESSIONS) = Some sa" "current na2 = local_index sa"
    "sessions nb1 ! (local_index sb mod N_SESSIONS) = Some sb"
    "next_session nb1 = Some (local_index sb)"
    "length (sessions na2) = N_SESSIONS" "length (sessions nb1) = N_SESSIONS"
    "\<exists>q. parse_incoming_packet m2 = Inr (PkHandshakeResponse q)"
proof -
  let ?ha = "handshake na" and ?hb = "handshake nb"
  have pab: "params_for C (params ?ha) (params ?hb)" and pba: "params_for C (params ?hb) (params ?ha)"
    and va: "mac1_key (noise_verifier na) = sending_mac1_key (params ?hb)"
    and vb: "mac1_key (noise_verifier nb) = sending_mac1_key (params ?ha)"
    and len: "length (sessions na) = N_SESSIONS" "length (sessions nb) = N_SESSIONS"
    using pair params_for_mac1 by (auto simp: paired_def)
  obtain ha1 es ets hb1 en sb sa where
    i: "format_handshake_initiation C ra now ?ha dsta =
       (ha1, Inr (init_message C ?ha (snd (inc_index ?ha)) (x25519_public C ea) es ets dsta))"
       "length es = 48" "length ets = 28"
    and r: "receive_handshake_initialization C rb ?hb
       \<lparr>hi_sender_idx = snd (inc_index ?ha), hi_unencrypted_ephemeral = x25519_public C ea,
        hi_encrypted_static = es, hi_encrypted_timestamp = ets\<rparr> dstb =
       (hb1, Inr (resp_message C ?hb (snd (inc_index ?hb)) (snd (inc_index ?ha)) (x25519_public C eb) en dstb, sb))"
       "length en = 16"
    and f: "receive_handshake_response C later ha1
       \<lparr>hr_sender_idx = snd (inc_index ?hb), hr_receiver_idx = snd (inc_index ?ha),
        hr_unencrypted_ephemeral = x25519_public C eb, hr_encrypted_nothing = en\<rparr> =
       (ha1\<lparr>last_rtt := Some (word_of_nat (as_millis (duration_since later (now 1)))), state := HsNone\<rparr>, Inr sa)"
    and m: "mirrored sa sb" "unused_session sa" "unused_session sb"
    by (rule handshake_agreement [where ra = ra and rb = rb and now = now and later = later,
          OF C pab pba ra rb d ts])
  have l32: "length (x25519_public C x) = 32" for x using C by (simp add: crypto_ok_lengths)
  let ?m1 = "init_message C ?ha (snd (inc_index ?ha)) (x25519_public C ea) es ets dsta"
  let ?m2 = "resp_message C ?hb (snd (inc_index ?hb)) (snd (inc_index ?ha)) (x25519_public C eb) en dstb"
  let ?na1 = "na\<lparr>handshake := ha1\<rparr>"
  let ?ha2 = "ha1\<lparr>last_rtt := Some (word_of_nat (as_millis (duration_since later (now 1)))), state := HsNone\<rparr>"
  let ?na2 = "na\<lparr>handshake := ?ha2, sessions := (sessions na)[local_index sa mod N_SESSIONS := Some sa]\<rparr>"
  obtain na2 where na2: "noise_handle_handshake_response C later ?na1
       \<lparr>hr_sender_idx = snd (inc_index ?hb), hr_receiver_idx = snd (inc_index ?ha),
        hr_unencrypted_ephemeral = x25519_public C eb, hr_encrypted_nothing = en\<rparr> = (na2, Inr Done)"
      "sessions na2 = (sessions na)[local_index sa mod N_SESSIONS := Some sa]"
      "current na2 = local_index sa"
    using f fresh by (auto simp: noise_handle_handshake_response_def Let_def nth_list_update)
  show thesis
  proof (rule that [of ?na1 ?m1 "nb\<lparr>handshake := hb1,
        sessions := (sessions nb)[local_index sb mod N_SESSIONS := Some sb],
        next_session := Some (local_index sb)\<rparr>" ?m2 na2 sa sb, OF _ _ _ m])
    show "decapsulate C rc later ?na1 ?m2 dstc = Some (na2, Inr Done)"
      using parse_resp_message [OF C l32 r(2) d(2), of "noise_verifier na" ?hb] va na2(1)
      by (simp add: decapsulate_def handle_verified_packet_def)
    show "\<exists>q. parse_incoming_packet ?m2 = Inr (PkHandshakeResponse q)"
      using verify_packet_parses [OF parse_resp_message [OF C l32 r(2) d(2) va]] by blast
  qed (use i r(1) parse_init_message [OF C l32 i(2,3) d(1) vb] na2 len in
      \<open>simp_all add: noise_format_handshake_initiation_def decapsulate_def handle_verified_packet_def
         handle_handshake_init_def Let_def\<close>)
qed

text \<open>A payload sent over one end's current session arrives at the other end.\<close>

lemma tunnel_data:
  assumes C: "crypto_ok C" and r: "rng_ok r"
    and s: "sessions m ! (current m mod N_SESSIONS) = Some s" "sending_key_counter s < MAX_NONCE"
    and t: "sessions n ! (local_index t mod N_SESSIONS) = Some t" "mirrored s t"
    and w: "win_rel (receiving_key_counter t) w" "unat (sending_key_counter s) \<notin> snd w"
      "fst w \<le> unat (sending_key_counter s) + 1024"
    and d: "length src + DATA_OVERHEAD_SZ \<le> length dst" "length src + DATA_OVERHEAD_SZ \<le> length dst2"
  obtains pkt v where
    "encapsulate C r now m src dst =
       (m\<lparr>sessions := (sessions m)[current m mod N_SESSIONS :=
            Some (s\<lparr>sending_key_counter := sending_key_counter s + 1\<rparr>)]\<rparr>, Inr (WriteToNetwork pkt))"
    "decapsulate C r' later n pkt dst2 =
       Some ((let n = n\<lparr>sessions := (sessions n)[local_index t mod N_SESSIONS :=
                    Some (t\<lparr>receiving_key_counter := v\<rparr>)]\<rparr>
              in if next_session n = Some (local_index t)
                 then n\<lparr>current := local_index t, next_session := None\<rparr> else n),
             validate_decapsulated_packet src)"
proof -
  let ?c = "sending_key_counter s"
  have k: "length (sender s) = 32" using t(2) by (auto simp: mirrored_def)
  have top: "unat ?c + 1024 < 2 ^ 64"
    using s(2) by (simp add: MAX_NONCE_def word_less_nat_alt)
  obtain ct pad b where f: "format_packet_data C r s src (length dst) =
       (s\<lparr>sending_key_counter := ?c + 1\<rparr>,
        Inr (to_le_bytes 4 DATA @ to_le_bytes 4 (sending_index s) @ to_le_bytes 8 ?c @ ct))"
      and o: "chacha_open C (sender s) (counter_nonce ?c) [] ct = Some (b # pad @ src)"
      "length pad = unat b" "unat b \<le> 15" and l: "length ct = length src + 17 + length pad"
    by (rule format_packet_data_ok [OF C r k d(1) s(2)])
  let ?pkt = "to_le_bytes 4 DATA @ to_le_bytes 4 (sending_index s) @ to_le_bytes 8 ?c @ ct"
  let ?p = "\<lparr>pd_receiver_idx = sending_index s, pd_counter = ?c, encrypted_encapsulated_packet = ct\<rparr>"
  have idx: "sending_index s = receiving_index t" "receiver t = sender s"
    using t(2) by (simp_all add: mirrored_def)
  obtain v where v: "receive_packet_data C t ?p (length dst2) =
      Some (t\<lparr>receiving_key_counter := v\<rparr>, Inr src)"
    by (rule receive_packet_data_ok [where p = ?p and s = t and n = "length dst2" and C = C, OF w(1)])
      (use top w(2,3) idx o l d(2) in \<open>simp_all add: DATA_OVERHEAD_SZ_def\<close>)
  have vp: "verify_packet C (noise_verifier n) ?pkt = Inr (PkPacketData ?p)"
    by (rule parse_data_message) (use l in simp)
  show thesis
    by (rule that [of ?pkt v])
      (use s t f v vp idx in \<open>simp_all add: encapsulate_def decapsulate_def handle_verified_packet_def
         handle_data_def local_index_def Let_def\<close>)
qed

text \<open>One packet each way between two ends with mirrored sessions: the first confirms the session of the
  responder, which then sends on it.\<close>

lemma tunnel_exchange:
  assumes C: "crypto_ok C" and r: "rng_ok ra" "rng_ok rb"
    and m: "mirrored sa sb" "unused_session sa" "unused_session sb"
    and sa: "sessions na ! (local_index sa mod N_SESSIONS) = Some sa" "current na = local_index sa"
    and sb: "sessions nb ! (local_index sb mod N_SESSIONS) = Some sb" "next_session nb = Some (local_index sb)"
    and len: "length (sessions na) = N_SESSIONS" "length (sessions nb) = N_SESSIONS"
    and d: "length src1 + DATA_OVERHEAD_SZ \<le> length dst" "length src2 + DATA_OVERHEAD_SZ \<le> length dst"
  obtains na' p1 nb' nb'' p2 na'' where
    "encapsulate C ra now na src1 dst = (na', Inr (WriteToNetwork p1))"
    "decapsulate C rb later nb p1 dst = Some (nb', validate_decapsulated_packet src1)"
    "encapsulate C rb now nb' src2 dst = (nb'', Inr (WriteToNetwork p2))"
    "decapsulate C ra later' na' p2 dst = Some (na'', validate_decapsulated_packet src2)"
proof -
  have z: "sending_key_counter sa = 0" "sending_key_counter sb = 0"
      "receiving_key_counter sa = default_validator" "receiving_key_counter sb = default_validator"
    using m(2,3) by (simp_all add: unused_session_def)
  have mn: "(0 :: u64) < MAX_NONCE" by (simp add: MAX_NONCE_def)
  let ?sa = "sa\<lparr>sending_key_counter := 1\<rparr>"
  let ?na = "na\<lparr>sessions := (sessions na)[local_index sa mod N_SESSIONS := Some ?sa]\<rparr>"
  obtain p1 v1 where A: "encapsulate C ra now na src1 dst = (?na, Inr (WriteToNetwork p1))"
      "decapsulate C rb later nb p1 dst =
       Some (nb\<lparr>sessions := (sessions nb)[local_index sb mod N_SESSIONS :=
               Some (sb\<lparr>receiving_key_counter := v1\<rparr>)], current := local_index sb,
               next_session := None\<rparr>, validate_decapsulated_packet src1)"
    using tunnel_data [where m = na and n = nb and w = "(0, {})" and s = sa and src = src1
        and dst = dst and now = now and ?r' = rb and later = later, OF C r(1) _ _ sb(1) m(1)]
      sa sb(2) z mn default_win_rel d(1) by (auto simp: Let_def)
  let ?sb = "sb\<lparr>receiving_key_counter := v1\<rparr>"
  let ?nb = "nb\<lparr>sessions := (sessions nb)[local_index sb mod N_SESSIONS := Some ?sb],
      current := local_index sb, next_session := None\<rparr>"
  have m': "mirrored ?sb ?sa" using m(1) by (auto simp: mirrored_def)
  have li: "local_index ?sa = local_index sa" by (simp add: local_index_def)
  obtain nb3 p2 na4 where "encapsulate C rb now ?nb src2 dst = (nb3, Inr (WriteToNetwork p2))"
      "decapsulate C ra later' ?na p2 dst = Some (na4, validate_decapsulated_packet src2)"
    by (rule tunnel_data [where m = ?nb and n = ?na and s = ?sb and t = ?sa and w = "(0, {})"
          and dst = dst and ?dst2.0 = dst and src = src2 and now = now and ?r' = ra and later = later',
          OF C r(2) _ _ _ m'])
      (use len z mn li default_win_rel d(2) in simp_all)
  with A that show thesis by blast
qed

section \<open>Well-formed tunnels\<close>

definition session_ok :: "session \<Rightarrow> bool" where
  "session_ok s \<longleftrightarrow> length (bitmap (receiving_key_counter s)) = 16"

definition sessions_ok :: "session option list \<Rightarrow> bool" where
  "sessions_ok ss \<longleftrightarrow> length ss = N_SESSIONS \<and> (\<forall>s. Some s \<in> set ss \<longrightarrow> session_ok s)"

definition noise_ok :: "noise \<Rightarrow> bool" where
  "noise_ok n \<longleftrightarrow> sessions_ok (sessions n)"

lemma sessions_ok_update: "sessions_ok ss \<Longrightarrow> session_ok s \<Longrightarrow> sessions_ok (ss[i := Some s])"
  using set_update_subset_insert [of ss i "Some s"] by (auto simp: sessions_ok_def)

lemma session_new_session_ok: "session_new C a b c d = Inr s \<Longrightarrow> session_ok s"
  using default_win_rel by (auto simp: session_new_def session_ok_def win_rel_def split: if_splits)

lemma received_init_session_ok:
  "receive_handshake_initialization C r hs p dst = (hs', Inr (m, s)) \<Longrightarrow> session_ok s"
  by (auto simp: receive_handshake_initialization_def format_handshake_response_def Let_def
      rbind_Inr_conv session_new_session_ok
      split: prod.splits sum.splits if_splits handshake_state.splits option.splits)

lemma received_response_session_ok:
  "receive_handshake_response C now hs p = (hs', Inr s) \<Longrightarrow> session_ok s"
  by (auto simp: receive_handshake_response_def Let_def session_new_session_ok
      split: prod.splits sum.splits option.splits)

lemma handle_handshake_init_ok: "noise_ok n \<Longrightarrow> noise_ok (fst (handle_handshake_init C r n p dst))"
  by (auto simp: handle_handshake_init_def noise_ok_def Let_def sessions_ok_update
      received_init_session_ok split: prod.splits sum.splits)

lemma noise_handle_handshake_response_ok:
  "noise_ok n \<Longrightarrow> noise_ok (fst (noise_handle_handshake_response C now n p))"
  by (auto simp: noise_handle_handshake_response_def noise_ok_def Let_def sessions_ok_update
      received_response_session_ok split: prod.splits sum.splits)

lemma handle_data_ok:
  assumes "noise_ok n"
  shows "\<exists>n' res. handle_data C n p dst = Some (n', res) \<and> noise_ok n'"
proof (cases "sessions n ! (unat (pd_receiver_idx p) mod N_SESSIONS)")
  case None
  then show ?thesis using assms by (simp add: handle_data_def Let_def)
next
  case (Some s)
  then have "Some s \<in> set (sessions n)"
    using assms by (metis mod_N_SESSIONS noise_ok_def nth_mem sessions_ok_def)
  then have "length (bitmap (receiving_key_counter s)) = 16"
    using assms by (simp add: noise_ok_def sessions_ok_def session_ok_def)
  from receive_packet_data_total [OF this] obtain s' res where
    r: "receive_packet_data C s p (length dst) = Some (s', res)"
       "length (bitmap (receiving_key_counter s')) = 16" by blast
  have "sessions_ok ((sessions n)[unat (pd_receiver_idx p) mod N_SESSIONS := Some s'])"
    using r(2) assms by (intro sessions_ok_update) (simp_all add: session_ok_def noise_ok_def)
  then show ?thesis using Some r(1) by (simp add: handle_data_def noise_ok_def Let_def split: sum.split)
qed

lemma handle_verified_packet_ok:
  "noise_ok n \<Longrightarrow> \<exists>n' res. handle_verified_packet C r now n p dst = Some (n', res) \<and> noise_ok n'"
  using handle_data_ok handle_handshake_init_ok [of n C r] noise_handle_handshake_response_ok [of n C now]
  by (cases p) (auto simp: handle_verified_packet_def, (metis prod.collapse)+)

section \<open>Properties\<close>

text \<open>Concrete inputs: two ends with the toy primitives and a clock that has run 5 seconds.\<close>

definition toy_clock :: "nat \<Rightarrow> instant" where
  "toy_clock k = \<lparr>os_time = Some (5 + int k, 0), fallback = 0\<rparr>"

definition toy_stamper :: time_stamper where
  "toy_stamper = \<lparr>duration_at_start = Some 1000, instant_at_start = \<lparr>os_time = Some (0, 0), fallback = 0\<rparr>\<rparr>"

text \<open>An IPv4 header of 20 bytes without payload.\<close>

definition toy_packet :: bytes where
  "toy_packet = [69, 0, 0, 20] @ replicate 8 0 @ [10, 0, 0, 1] @ [10, 0, 0, 2]"

lemma toy_stamp:
  "stamp toy_stamper (toy_clock 0) =
     Inr (to_be_bytes 8 (word_of_nat (5 + TAI64_BASE) :: u64) @ to_be_bytes 4 (1000 :: u32))"
  by (simp add: stamp_def toy_stamper_def toy_clock_def duration_since_def checked_duration_since_def
      duration_new_def duration_checked_add_def as_secs_def subsec_nanos_def TAI64_BASE_def)

lemma toy_packet_valid:
  "validate_decapsulated_packet toy_packet = Inr (WriteToTunnel toy_packet (IpV4 0x0A000001))"
proof -
  have "length toy_packet = 20" "toy_packet ! 0 = 69" "slice 2 4 toy_packet = [0, 20]"
      "slice 12 16 toy_packet = [10, 0, 0, 1]"
    by (simp_all add: toy_packet_def slice_def)
  moreover have "(from_be_bytes [0, 20] :: u16) = 20" "ipv4_from [10, 0, 0, 1] = IpV4 0x0A000001"
    by (simp_all add: from_be_bytes_def ipv4_from_def)
  moreover have "drop_bit 4 (69 :: byte) = 4" by simp
  ultimately show ?thesis by (simp add: validate_decapsulated_packet_def Let_def)
qed

text \<open>
  C1. The tunnel works end to end. Two fresh tunnels that were configured with each other's
  public keys and the same preshared key complete the handshake in two datagrams; then any
  IP packet either end encapsulates comes out unchanged at the other end: first from the
  initiator to the responder, which confirms the responder's session, then back.
\<close>

theorem tunnel_end_to_end:
  assumes C: "crypto_ok C" and r: "rng_ok ra" "rng_ok rb"
    and na: "na = noise_new C a (x25519_public C b) psk ia None sta"
    and nb: "nb = noise_new C b (x25519_public C a) psk ib None stb"
    and ts: "stamp sta (now 0) = Inr ts" "tai64n_parse ts = Inr t" "tai64n_after t tai64n_zero"
    and d: "148 \<le> length dst" "length src1 + DATA_OVERHEAD_SZ \<le> length dst"
      "length src2 + DATA_OVERHEAD_SZ \<le> length dst"
    and v: "validate_decapsulated_packet src1 = Inr (WriteToTunnel src1 ip1)"
      "validate_decapsulated_packet src2 = Inr (WriteToTunnel src2 ip2)"
  shows "\<exists>na1 m1 nb1 m2 na2 na3 p1 nb2 nb3 p2 na4.
    noise_format_handshake_initiation C ra now na dst = (na1, Inr (WriteToNetwork m1)) \<and>
    decapsulate C rb (now 2) nb m1 dst = Some (nb1, Inr (WriteToNetwork m2)) \<and>
    decapsulate C ra (now 3) na1 m2 dst = Some (na2, Inr Done) \<and>
    encapsulate C ra now na2 src1 dst = (na3, Inr (WriteToNetwork p1)) \<and>
    decapsulate C rb (now 4) nb1 p1 dst = Some (nb2, Inr (WriteToTunnel src1 ip1)) \<and>
    encapsulate C rb now nb2 src2 dst = (nb3, Inr (WriteToNetwork p2)) \<and>
    decapsulate C ra (now 5) na3 p2 dst = Some (na4, Inr (WriteToTunnel src2 ip2))"
proof -
  obtain ea eb where e: "ra 0 32 = Some ea" "rb 0 32 = Some eb" using r by (metis rng_ok_def)
  have pair: "paired C na nb"
    unfolding paired_def params_for_def na nb
    by (simp add: noise_new_def handshake_new_def noise_params_new_def verifier_new_def Let_def)
  have fresh: "sessions na = replicate N_SESSIONS None" "stamper (handshake na) = sta"
      "last_handshake_timestamp (handshake nb) = tai64n_zero"
    by (simp_all add: na nb noise_new_def handshake_new_def Let_def)
  have dd: "92 \<le> length dst" using d(1) by simp
  obtain na1 m1 nb1 m2 na2 sa sb where
    h: "noise_format_handshake_initiation C ra now na dst = (na1, Inr (WriteToNetwork m1))"
       "decapsulate C rb (now 2) nb m1 dst = Some (nb1, Inr (WriteToNetwork m2))"
       "decapsulate C ra (now 3) na1 m2 dst = Some (na2, Inr Done)"
    and m: "mirrored sa sb" "unused_session sa" "unused_session sb"
    and sa: "sessions na2 ! (local_index sa mod N_SESSIONS) = Some sa" "current na2 = local_index sa"
    and sb: "sessions nb1 ! (local_index sb mod N_SESSIONS) = Some sb"
       "next_session nb1 = Some (local_index sb)"
    and len: "length (sessions na2) = N_SESSIONS" "length (sessions nb1) = N_SESSIONS"
    and "\<exists>q. parse_incoming_packet m2 = Inr (PkHandshakeResponse q)"
    by (rule tunnel_handshake [where now = now and ra = ra and rb = rb and tb = "now 2" and rc = ra
          and later = "now 3" and dstc = dst, OF C pair fresh(1) e d(1) dd ts(1) [folded fresh(2)] ts(2)
          ts(3) [folded fresh(3)]])
  obtain na3 p1 nb2 nb3 p2 na4 where "encapsulate C ra now na2 src1 dst = (na3, Inr (WriteToNetwork p1))"
      "decapsulate C rb (now 4) nb1 p1 dst = Some (nb2, validate_decapsulated_packet src1)"
      "encapsulate C rb now nb2 src2 dst = (nb3, Inr (WriteToNetwork p2))"
      "decapsulate C ra (now 5) na3 p2 dst = Some (na4, validate_decapsulated_packet src2)"
    by (rule tunnel_exchange [OF C r m sa sb len d(2,3)])
  with h v show ?thesis by auto
qed

theorem tunnel_end_to_end_witness:
  "let C = toy_crypto; a = replicate 32 11; b = replicate 32 22; dst = replicate 200 0;
       na = noise_new C a (x25519_public C b) None 1 None toy_stamper;
       nb = noise_new C b (x25519_public C a) None 2 None toy_stamper
   in \<exists>na1 m1 nb1 m2 na2 na3 p1 nb2.
        noise_format_handshake_initiation C toy_rng toy_clock na dst = (na1, Inr (WriteToNetwork m1)) \<and>
        decapsulate C toy_rng (toy_clock 2) nb m1 dst = Some (nb1, Inr (WriteToNetwork m2)) \<and>
        decapsulate C toy_rng (toy_clock 3) na1 m2 dst = Some (na2, Inr Done) \<and>
        encapsulate C toy_rng toy_clock na2 toy_packet dst = (na3, Inr (WriteToNetwork p1)) \<and>
        decapsulate C toy_rng (toy_clock 4) nb1 p1 dst =
          Some (nb2, Inr (WriteToTunnel toy_packet (IpV4 0x0A000001)))"
proof -
  have l: "148 \<le> length (replicate 200 (0 :: byte))"
      "length toy_packet + DATA_OVERHEAD_SZ \<le> length (replicate 200 (0 :: byte))"
    by (simp_all add: toy_packet_def DATA_OVERHEAD_SZ_def)
  have after: "tai64n_after \<lparr>secs = word_of_nat (5 + TAI64_BASE), nano = 1000\<rparr> tai64n_zero"
    by (simp add: tai64n_after_def tai64n_zero_def TAI64_BASE_def)
  show ?thesis
    unfolding Let_def
    using tunnel_end_to_end [where ia = 1 and ib = 2 and psk = None and a = "replicate 32 11"
        and b = "replicate 32 22" and now = toy_clock, OF toy_crypto_ok toy_rng_ok toy_rng_ok
        refl refl toy_stamp tai64n_parse_bytes after l l(2) toy_packet_valid toy_packet_valid]
    by blast
qed

text \<open>
  C32. Receiving a datagram always returns and keeps the tunnel well formed: whatever bytes
  arrive, \<open>decapsulate\<close> ends with a result, and the ring still has eight slots whose
  sessions have windows of sixteen words.
\<close>

theorem decapsulate_returns:
  assumes "noise_ok n"
  shows "\<exists>n' res. decapsulate C r now n datagram dst = Some (n', res) \<and> noise_ok n'"
  using handle_verified_packet_ok [OF assms] assms by (auto simp: decapsulate_def split: sum.split)

theorem decapsulate_returns_witness:
  "\<exists>n' res. decapsulate toy_crypto toy_rng (toy_clock 0)
     (noise_new toy_crypto [1] [2] None 1 None toy_stamper) [4, 0, 0, 0] [] = Some (n', res) \<and> noise_ok n'"
  by (rule decapsulate_returns) (simp add: noise_ok_def sessions_ok_def noise_new_def Let_def)

text \<open>
  C33. A handshake datagram whose mac1 does not match the receiver's key is refused before any
  state changes and before any public-key operation.
\<close>

theorem bad_mac1_no_effect:
  assumes "crypto_ok C" "parse_incoming_packet m = Inr p" "is_handshake p"
    "slice (length m - 32) (length m - 16) m \<noteq>
       b2s_keyed_mac_16 C (mac1_key (noise_verifier n)) (take (length m - 32) m)"
  shows "decapsulate C r now n m dst = Some (n, Inl InvalidMac)"
proof -
  have "32 \<le> length m"
    using assms(2,3) by (auto simp: parse_incoming_packet_def is_handshake_def Let_def
        HANDSHAKE_INIT_SZ_def HANDSHAKE_RESP_SZ_def split: if_splits)
  then have "slice (length m - 32) (length m - 16) m = take 16 (drop (length m - 32) m)"
    by (simp add: slice_def)
  then show ?thesis
    using assms by (auto simp: decapsulate_def verify_packet_def Let_def crypto_ok_eq crypto_ok_lengths)
qed

definition toy_bad_init :: bytes where
  "toy_bad_init = [1, 0, 0, 0] @ replicate 144 0"

theorem bad_mac1_no_effect_witness:
  "let n = noise_new toy_crypto [1] [2] None 1 None toy_stamper
   in decapsulate toy_crypto toy_rng (toy_clock 0) n toy_bad_init [] = Some (n, Inl InvalidMac)"
proof -
  let ?n = "noise_new toy_crypto [1] [2] None 1 None toy_stamper"
  obtain p where p: "parse_incoming_packet toy_bad_init = Inr (PkHandshakeInit p)"
    by (simp add: parse_incoming_packet_def toy_bad_init_def slice_def from_le_bytes_def
        HANDSHAKE_INIT_def HANDSHAKE_INIT_SZ_def)
  have h: "is_handshake (PkHandshakeInit p)" by (simp add: is_handshake_def)
  have k: "mac1_key (noise_verifier ?n) = replicate 32 (sum_list LABEL_MAC1 + 2)"
    by (simp add: noise_new_def verifier_new_def b2s_hash_def toy_crypto_def Let_def
        sum_list_replicate)
  have "b2s_keyed_mac_16 toy_crypto (mac1_key (noise_verifier ?n)) (take 116 toy_bad_init) \<noteq> replicate 16 0"
    unfolding k by (simp add: b2s_keyed_mac_16_def toy_crypto_def toy_bad_init_def sum_list_replicate
        LABEL_MAC1_def)
  moreover have "slice 116 132 toy_bad_init = replicate 16 0" "length toy_bad_init = 148"
    by (simp_all add: toy_bad_init_def slice_def)
  ultimately show ?thesis
    using bad_mac1_no_effect [OF toy_crypto_ok p h] by (simp add: Let_def)
qed

text \<open>A data packet confirms the pending session: it names it, the session is in the ring, and its AEAD
  accepts the packet, which is delivered.\<close>

definition confirms :: "crypto \<Rightarrow> noise \<Rightarrow> bytes \<Rightarrow> nat \<Rightarrow> nat \<Rightarrow> bool" where
  "confirms C n m len i \<longleftrightarrow>
     (\<exists>p s s' payload. parse_incoming_packet m = Inr (PkPacketData p) \<and> next_session n = Some i \<and>
        unat (pd_receiver_idx p) = i \<and> sessions n ! (i mod N_SESSIONS) = Some s \<and> local_index s = i \<and>
        chacha_open C (receiver s) (counter_nonce (pd_counter p)) [] (encrypted_encapsulated_packet p) \<noteq> None \<and>
        receive_packet_data C s p len = Some (s', Inr payload))"

text \<open>A handshake response establishes a session: it is the authentic answer to an initiation of this end.\<close>

definition establishes :: "crypto \<Rightarrow> instant \<Rightarrow> noise \<Rightarrow> bytes \<Rightarrow> session \<Rightarrow> bool" where
  "establishes C now n m s \<longleftrightarrow>
     (\<exists>p. parse_incoming_packet m = Inr (PkHandshakeResponse p) \<and>
        snd (receive_handshake_response C now (handshake n) p) = Inr s)"

text \<open>The current session is in its slot of the ring; a response whose session takes the slot of the
  current one overwrites it.\<close>

definition current_live :: "noise \<Rightarrow> session \<Rightarrow> bool" where
  "current_live n s \<longleftrightarrow>
     (\<exists>c. (sessions n)[local_index s mod N_SESSIONS := Some s] ! (current n mod N_SESSIONS) = Some c \<and> local_index c = current n)"

lemma received_index:
  assumes "receive_packet_data C s p len = Some (s', Inr x)"
  shows "unat (pd_receiver_idx p) = local_index s"
    and "chacha_open C (receiver s) (counter_nonce (pd_counter p)) [] (encrypted_encapsulated_packet p) \<noteq> None"
  using assms by (auto simp: receive_packet_data_def local_index_def split: if_splits sum.splits option.splits)

lemma handle_data_confirms:
  assumes "parse_incoming_packet m = Inr (PkPacketData p)" "handle_data C n p dst = Some (n', res)" "current n' \<noteq> current n"
  shows "confirms C n m (length dst) (current n')"
proof -
  let ?i = "unat (pd_receiver_idx p)"
  obtain s s' x where s: "sessions n ! (?i mod N_SESSIONS) = Some s" "receive_packet_data C s p (length dst) = Some (s', Inr x)"
      "next_session n = Some ?i" "current n' = ?i"
    using assms(2,3)
    by (auto simp: handle_data_def Let_def split: option.splits prod.splits sum.splits if_splits Option.bind_splits)
  with assms(1) received_index [OF s(2)] show ?thesis unfolding confirms_def by fastforce
qed

lemma response_establishes:
  assumes "parse_incoming_packet m = Inr (PkHandshakeResponse p)" "noise_handle_handshake_response C now n p = (n', res)"
    "current n' \<noteq> current n"
  shows "\<exists>s. establishes C now n m s \<and> current n' = local_index s \<and>
    (let d = (word_of_nat (local_index s) :: byte) - word_of_nat (current n) in 0 < d \<and> d < 128 \<or> \<not> current_live n s)"
proof -
  obtain hs s where r: "receive_handshake_response C now (handshake n) p = (hs, Inr s)"
    using assms(2,3) by (auto simp: noise_handle_handshake_response_def Let_def split: prod.splits sum.splits)
  with assms have "current n' = local_index s \<and>
    (let d = (word_of_nat (local_index s) :: byte) - word_of_nat (current n) in 0 < d \<and> d < 128 \<or> \<not> current_live n s)"
    by (auto simp: noise_handle_handshake_response_def current_live_def Let_def word_gt_0 split: if_splits option.splits)
  with r assms(1) show ?thesis by (auto simp: establishes_def)
qed

text \<open>
  C7. The sending session never rolls back. Receiving a datagram changes the session used for
  sending only in three cases: to the pending responder session, which is in the ring and whose
  AEAD accepted the datagram as a data packet for it; or to the session of an authentic handshake
  response that is ahead of the current one in the cyclic eight-bit order; or to the session of an
  authentic handshake response when the current session is no longer in the ring.
\<close>

theorem sending_never_rolls_back:
  assumes "decapsulate C r now n m dst = Some (n', res)" "current n' \<noteq> current n"
  shows "confirms C n m (length dst) (current n') \<or>
    (\<exists>s. establishes C now n m s \<and> current n' = local_index s \<and>
      (let d = (word_of_nat (local_index s) :: byte) - word_of_nat (current n) in 0 < d \<and> d < 128 \<or> \<not> current_live n s))"
proof -
  obtain p where p: "verify_packet C (noise_verifier n) m = Inr p"
      "handle_verified_packet C r now n p dst = Some (n', res)"
    using assms by (auto simp: decapsulate_def split: sum.splits)
  have parsed: "parse_incoming_packet m = Inr p" by (rule verify_packet_parses [OF p(1)])
  show ?thesis
  proof (cases p)
    case (PkHandshakeInit q)
    then show ?thesis using p assms(2)
      by (auto simp: handle_verified_packet_def handle_handshake_init_def Let_def split: prod.splits sum.splits)
  next
    case (PkHandshakeResponse q)
    with p(2) response_establishes [OF parsed [unfolded PkHandshakeResponse] _ assms(2)] show ?thesis
      by (simp add: handle_verified_packet_def)
  next
    case (PkPacketData q)
    with p(2) handle_data_confirms [OF parsed [unfolded PkPacketData] _ assms(2)] show ?thesis
      by (simp add: handle_verified_packet_def)
  qed
qed

definition toy_tunnel :: noise where
  "toy_tunnel = noise_new toy_crypto [1] [2] None 1 None toy_stamper"

definition toy_peer_session :: session where
  "toy_peer_session = \<lparr>receiving_index = 9, sending_index = 7, receiver = replicate 32 2,
     sender = replicate 32 1, sending_key_counter = 0, receiving_key_counter = default_validator\<rparr>"

theorem sending_never_rolls_back_witness:
  "let n = toy_tunnel\<lparr>sessions := [None, Some toy_peer_session, None, None, None, None, None, None],
             next_session := Some 9\<rparr>
   in \<exists>m n' res. decapsulate toy_crypto toy_rng (toy_clock 0) n m (replicate 99 0) = Some (n', res) \<and>
        current n' \<noteq> current n \<and> confirms toy_crypto n m 99 (current n')"
proof -
  let ?n = "toy_tunnel\<lparr>sessions := [None, Some toy_peer_session, None, None, None, None, None, None],
             next_session := Some 9\<rparr>"
  let ?m = "toy_tunnel\<lparr>sessions := [Some toy_session]\<rparr>"
  have mir: "mirrored toy_session toy_peer_session"
    by (simp add: mirrored_def toy_session_def toy_peer_session_def)
  have zero: "current toy_tunnel = 0" by (simp add: toy_tunnel_def noise_new_def Let_def)
  have li: "local_index toy_peer_session = 9" by (simp add: local_index_def toy_peer_session_def)
  obtain pkt n' res where d: "decapsulate toy_crypto toy_rng (toy_clock 0) ?n pkt (replicate 99 0) =
      Some (n', res)" "current n' = 9"
    by (rule tunnel_data [where m = ?m and n = ?n and w = "(0, {})" and src = toy_packet
          and dst = "replicate 99 0" and ?dst2.0 = "replicate 99 0" and ?r' = toy_rng
          and later = "toy_clock 0" and s = toy_session,
          OF toy_crypto_ok toy_rng_ok _ _ _ mir])
      (use zero li default_win_rel in \<open>simp_all add: N_SESSIONS_def toy_session_def toy_peer_session_def
         MAX_NONCE_def toy_packet_def DATA_OVERHEAD_SZ_def\<close>)
  have c: "current n' \<noteq> current ?n" using d(2) zero by simp
  have "\<not> establishes toy_crypto (toy_clock 0) ?n pkt s" for s
    by (auto simp: establishes_def toy_tunnel_def noise_new_def handshake_new_def receive_handshake_response_def
        awaited_def Let_def split: prod.splits option.splits sum.splits)
  then have "confirms toy_crypto ?n pkt 99 (current n')"
    using sending_never_rolls_back [OF d(1) c] by simp
  then show ?thesis unfolding Let_def using d(1) c by blast
qed

text \<open>
  C35. What leaves the tunnel is bounded by the packet's own header: a packet handed to the
  interface is the prefix of the decrypted bytes that the IPv4 total length or the IPv6
  payload length announces, with the source address of the header; anything shorter than
  announced, or of another version, is an error, and an empty payload is a keepalive.
\<close>

theorem validated_packet_is_header_prefix:
  assumes "validate_decapsulated_packet b = Inr (WriteToTunnel out ip)"
  shows "(\<exists>rest. b = out @ rest) \<and>
    (drop_bit 4 (hd b) = 4 \<and> length out = unat (from_be_bytes (slice 2 4 b) :: u16) \<and>
       ip_octets ip = slice 12 16 b \<or>
     drop_bit 4 (hd b) = 6 \<and> length out = 40 + unat (from_be_bytes (slice 4 6 b) :: u16) \<and>
       ip_octets ip = slice 8 24 b)"
proof -
  have "b \<noteq> []" using assms by (auto simp: validate_decapsulated_packet_def)
  moreover have "to_be_bytes 4 (from_be_bytes (slice 12 16 b) :: u32) = slice 12 16 b" if "20 \<le> length b"
    using that by (intro to_from_be_bytes) simp_all
  moreover have "to_be_bytes 16 (from_be_bytes (slice 8 24 b) :: u128) = slice 8 24 b" if "40 \<le> length b"
    using that by (intro to_from_be_bytes) simp_all
  ultimately show ?thesis
    using assms append_take_drop_id
    by (auto simp: validate_decapsulated_packet_def Let_def ipv4_from_def ipv6_from_def hd_conv_nth
        split: if_splits) (metis append_take_drop_id)+
qed

theorem validated_packet_is_header_prefix_witness:
  "length toy_packet = unat (from_be_bytes (slice 2 4 toy_packet) :: u16)"
  using validated_packet_is_header_prefix [OF toy_packet_valid] by (simp add: toy_packet_def)

end
