(* ===== verification/Noise_Cryptor.thy ===== *)
theory Noise_Cryptor
  imports Noise_Tunnel
begin

text \<open>
  The interface of the crypto layer: the \<^verbatim>\<open>Cryptor\<close> implementation of the Noise tunnel
  (fp-crypto-noise/src/crypto.rs), with the process-wide counter that numbers the peers, and
  the type-erased \<^verbatim>\<open>RawCryptor\<close> (fp-crypto/src/raw_crypto.rs), which holds no tunnel until a
  handshake has been started or answered. A \<open>Cryptor\<close> is its tunnel; a \<open>RawCryptor\<close> is an
  optional one. Operations that read the global counter take it and return it.
\<close>

section \<open>Cryptor\<close>

definition next_session_base :: "u32 \<Rightarrow> u32 \<times> u32" where
  "next_session_base peer_index = (peer_index + 1, push_bit 8 (peer_index AND 0x00ffffff))"

definition cr_init_handshake ::
    "crypto \<Rightarrow> rng \<Rightarrow> (nat \<Rightarrow> instant) \<Rightarrow> time_stamper \<Rightarrow> u32 \<Rightarrow> bytes \<Rightarrow> bytes
       \<Rightarrow> u32 \<times> (crypto_error + noise \<times> bytes)" where
  "cr_init_handshake C r now st peer_index own_prikey node_pubkey =
     (let public_key = x25519_public C own_prikey;
          rate_limiter = verifier_new C public_key;
          (peer_index, base) = next_session_base peer_index;
          n = noise_new C own_prikey node_pubkey None base (Some rate_limiter) st;
          (hs, res) = format_handshake_initiation C r now (handshake n) (replicate 148 0)
      in (peer_index, rbind res (\<lambda>packet. Inr (n\<lparr>handshake := hs\<rparr>, packet))))"

definition cr_handle_handshake ::
    "crypto \<Rightarrow> rng \<Rightarrow> instant \<Rightarrow> time_stamper \<Rightarrow> u32 \<Rightarrow> bytes \<Rightarrow> bytes \<Rightarrow> bytes
       \<Rightarrow> (u32 \<times> (crypto_error + noise \<times> bytes option)) option" where
  "cr_handle_handshake C r now st peer_index own_prikey own_pubkey packet =
     (let verifier = verifier_new C own_pubkey
      in case verify_packet C verifier packet of
           Inl _ \<Rightarrow> Some (peer_index, Inl InvalidMac)
         | Inr packet \<Rightarrow>
           (case packet of
              PkHandshakeInit p \<Rightarrow>
                (case parse_handshake_anon C own_prikey own_pubkey p of
                   Inl e \<Rightarrow> Some (peer_index, Inl e)
                 | Inr pkey \<Rightarrow>
                   let (peer_index, base) = next_session_base peer_index;
                       n = noise_new C own_prikey pkey None base (Some verifier) st
                   in Option.bind (handle_verified_packet C r now n packet (replicate 148 0)) (\<lambda>(n, res).
                        Some (peer_index, rbind res (\<lambda>x. Inr (n,
                          case x of WriteToNetwork packet \<Rightarrow> Some packet | _ \<Rightarrow> None)))))
            | _ \<Rightarrow> Some (peer_index, Inl InvalidPacket)))"

definition cr_handle_handshake_response ::
    "crypto \<Rightarrow> instant \<Rightarrow> noise \<Rightarrow> bytes \<Rightarrow> noise \<times> (crypto_error + unit)" where
  "cr_handle_handshake_response C now n packet =
     (case parse_incoming_packet packet of
        Inl e \<Rightarrow> (n, Inl e)
      | Inr (PkHandshakeResponse p) \<Rightarrow>
          (let (n, res) = noise_handle_handshake_response C now n p in (n, rbind res (\<lambda>_. Inr ())))
      | Inr _ \<Rightarrow> (n, Inl UnexpectedPacket))"

definition cr_on_send ::
    "crypto \<Rightarrow> rng \<Rightarrow> (nat \<Rightarrow> instant) \<Rightarrow> noise \<Rightarrow> bytes \<Rightarrow> bytes \<Rightarrow> noise \<times> (crypto_error + bytes)" where
  "cr_on_send C r now n packet dst =
     (let (n, res) = encapsulate C r now n packet dst
      in (n, rbind res (\<lambda>x. case x of WriteToNetwork pkt \<Rightarrow> Inr pkt | _ \<Rightarrow> Inl UnexpectedPacket)))"

definition cr_on_recv ::
    "crypto \<Rightarrow> rng \<Rightarrow> instant \<Rightarrow> noise \<Rightarrow> bytes \<Rightarrow> bytes \<Rightarrow> (noise \<times> (crypto_error + bytes)) option" where
  "cr_on_recv C r now n packet dst =
     (case verify_packet C (noise_verifier n) packet of
        Inl _ \<Rightarrow> Some (n, Inl UnexpectedPacket)
      | Inr parsed \<Rightarrow>
          Option.bind (handle_verified_packet C r now n parsed dst) (\<lambda>(n, res).
            Some (n, rbind res (\<lambda>x. case x of
              WriteToTunnel packet _ \<Rightarrow> Inr packet
            | Done \<Rightarrow> Inr []
            | _ \<Rightarrow> Inl UnexpectedPacket))))"

definition cr_get_peer_public :: "noise \<Rightarrow> crypto_error + bytes" where
  "cr_get_peer_public n = Inr (peer_static_public (params (handshake n)))"

definition cr_rekey_init ::
    "crypto \<Rightarrow> rng \<Rightarrow> (nat \<Rightarrow> instant) \<Rightarrow> noise \<Rightarrow> bytes \<Rightarrow> noise \<times> (crypto_error + bytes)" where
  "cr_rekey_init C r now n dst =
     (let (hs, res) = format_handshake_initiation C r now (handshake n) dst
      in (n\<lparr>handshake := hs\<rparr>, res))"

definition cr_rekey_respond ::
    "crypto \<Rightarrow> rng \<Rightarrow> instant \<Rightarrow> noise \<Rightarrow> bytes \<Rightarrow> bytes
       \<Rightarrow> (noise \<times> (crypto_error + bytes option)) option" where
  "cr_rekey_respond C r now n packet dst =
     (case verify_packet C (noise_verifier n) packet of
        Inl _ \<Rightarrow> Some (n, Inl UnexpectedPacket)
      | Inr parsed \<Rightarrow>
          Option.bind (handle_verified_packet C r now n parsed dst) (\<lambda>(n, res).
            Some (n, rbind res (\<lambda>x. Inr (case x of WriteToNetwork resp \<Rightarrow> Some resp | _ \<Rightarrow> None)))))"

definition peek_init_pubkey :: "crypto \<Rightarrow> bytes \<Rightarrow> bytes \<Rightarrow> bytes \<Rightarrow> bytes option" where
  "peek_init_pubkey C own_priv own_pub packet =
     (case verify_packet C (verifier_new C own_pub) packet of
        Inr (PkHandshakeInit p) \<Rightarrow> res_ok (parse_handshake_anon C own_priv own_pub p)
      | _ \<Rightarrow> None)"

section \<open>RawCryptor\<close>

definition raw_init_handshake ::
    "crypto \<Rightarrow> rng \<Rightarrow> (nat \<Rightarrow> instant) \<Rightarrow> time_stamper \<Rightarrow> u32 \<Rightarrow> noise option \<Rightarrow> bytes \<Rightarrow> bytes
       \<Rightarrow> u32 \<times> noise option \<times> (crypto_error + bytes)" where
  "raw_init_handshake C r now st peer_index data own_prikey node_pubkey =
     (if data \<noteq> None then (peer_index, data, Inl AlreadyHandshake)
      else let (peer_index, res) = cr_init_handshake C r now st peer_index own_prikey node_pubkey
           in case res of
                Inl e \<Rightarrow> (peer_index, data, Inl e)
              | Inr (this, hs) \<Rightarrow> (peer_index, Some this, Inr hs))"

definition raw_handle_handshake ::
    "crypto \<Rightarrow> rng \<Rightarrow> instant \<Rightarrow> time_stamper \<Rightarrow> u32 \<Rightarrow> noise option \<Rightarrow> bytes \<Rightarrow> bytes \<Rightarrow> bytes
       \<Rightarrow> (u32 \<times> noise option \<times> (crypto_error + bytes option)) option" where
  "raw_handle_handshake C r now st peer_index data own_prikey own_pubkey packet =
     (if data \<noteq> None then Some (peer_index, data, Inl AlreadyHandshake)
      else Option.bind (cr_handle_handshake C r now st peer_index own_prikey own_pubkey packet)
             (\<lambda>(peer_index, res). Some (case res of
                Inl e \<Rightarrow> (peer_index, data, Inl e)
              | Inr (this, hs) \<Rightarrow> (peer_index, Some this, Inr hs))))"

definition raw_handle_handshake_response ::
    "crypto \<Rightarrow> instant \<Rightarrow> noise option \<Rightarrow> bytes \<Rightarrow> noise option \<times> (crypto_error + unit)" where
  "raw_handle_handshake_response C now data packet =
     (case data of
        None \<Rightarrow> (None, Inl MustHandshakeFirst)
      | Some this \<Rightarrow> let (this, res) = cr_handle_handshake_response C now this packet in (Some this, res))"

definition raw_on_send ::
    "crypto \<Rightarrow> rng \<Rightarrow> (nat \<Rightarrow> instant) \<Rightarrow> noise option \<Rightarrow> bytes \<Rightarrow> bytes \<Rightarrow> noise option \<times> (crypto_error + bytes)" where
  "raw_on_send C r now data packet dst =
     (case data of
        None \<Rightarrow> (None, Inl MustHandshakeFirst)
      | Some this \<Rightarrow> let (this, res) = cr_on_send C r now this packet dst in (Some this, res))"

definition raw_on_recv ::
    "crypto \<Rightarrow> rng \<Rightarrow> instant \<Rightarrow> noise option \<Rightarrow> bytes \<Rightarrow> bytes
       \<Rightarrow> (noise option \<times> (crypto_error + bytes)) option" where
  "raw_on_recv C r now data packet dst =
     (case data of
        None \<Rightarrow> Some (None, Inl MustHandshakeFirst)
      | Some this \<Rightarrow> Option.bind (cr_on_recv C r now this packet dst) (\<lambda>(this, res). Some (Some this, res)))"

definition raw_get_peer_public :: "noise option \<Rightarrow> crypto_error + bytes" where
  "raw_get_peer_public data = rbind (ok_or MustHandshakeFirst data) cr_get_peer_public"

definition raw_rekey_init ::
    "crypto \<Rightarrow> rng \<Rightarrow> (nat \<Rightarrow> instant) \<Rightarrow> noise option \<Rightarrow> bytes \<Rightarrow> noise option \<times> (crypto_error + bytes)" where
  "raw_rekey_init C r now data dst =
     (case data of
        None \<Rightarrow> (None, Inl MustHandshakeFirst)
      | Some this \<Rightarrow> let (this, res) = cr_rekey_init C r now this dst in (Some this, res))"

definition raw_rekey_respond ::
    "crypto \<Rightarrow> rng \<Rightarrow> instant \<Rightarrow> noise option \<Rightarrow> bytes \<Rightarrow> bytes
       \<Rightarrow> (noise option \<times> (crypto_error + bytes option)) option" where
  "raw_rekey_respond C r now data packet dst =
     (case data of
        None \<Rightarrow> Some (None, Inl MustHandshakeFirst)
      | Some this \<Rightarrow>
          Option.bind (cr_rekey_respond C r now this packet dst) (\<lambda>(this, res). Some (Some this, res)))"

section \<open>Session indices of different peers\<close>

text \<open>The index the handshake of the peer numbered \<open>p\<close> starts from.\<close>

definition start_index :: "crypto \<Rightarrow> u32 \<Rightarrow> u32" where
  "start_index C p = next_index (handshake
     (noise_new C [] [] None (snd (next_session_base p)) None \<lparr>duration_at_start = None,
        instant_at_start = \<lparr>os_time = None, fallback = 0\<rparr>\<rparr>))"

lemma start_index_eq: "start_index C p = push_bit 16 p"
proof -
  have "(0x00ffffff :: u32) = mask 24" by (simp add: mask_eq_exp_minus_1)
  then have "start_index C p = push_bit 8 (push_bit 8 (p AND mask 24))"
    by (simp add: start_index_def noise_new_def handshake_new_def next_session_base_def Let_def)
  also have "\<dots> = push_bit 16 p"
    by (rule bit_word_eqI) (auto simp: bit_push_bit_iff bit_and_iff bit_mask_iff)
  finally show ?thesis .
qed

lemma start_index_nat: "unat (start_index C p) = (unat p mod 2 ^ 16) * 2 ^ 16"
  by (simp add: start_index_eq push_bit_eq_mult unat_word_ariths mult_mod_right mult.commute)

section \<open>The handshake through the interface\<close>

lemma received_init_names_peer:
  assumes "crypto_ok C" "receive_handshake_initialization C r hs p dst = (hs', Inr x)"
  shows "parse_handshake_anon C (static_private (params hs)) (static_public (params hs)) p =
    Inr (peer_static_public (params hs))"
  using assms
  by (auto simp: receive_handshake_initialization_def parse_handshake_anon_def Let_def crypto_ok_eq
      split: prod.splits sum.splits if_splits)

lemma decapsulate_answer:
  assumes "decapsulate C r now n m dst = Some (n', Inr (WriteToNetwork m'))"
  obtains p where "verify_packet C (noise_verifier n) m = Inr (PkHandshakeInit p)"
    "handle_handshake_init C r n p dst = (n', Inr (WriteToNetwork m'))"
proof -
  obtain p where p: "verify_packet C (noise_verifier n) m = Inr p"
      "handle_verified_packet C r now n p dst = Some (n', Inr (WriteToNetwork m'))"
    using assms by (auto simp: decapsulate_def split: sum.splits)
  have "\<exists>q. p = PkHandshakeInit q"
    using p(2)
    by (cases p) (auto simp: handle_verified_packet_def noise_handle_handshake_response_def handle_data_def
        validate_decapsulated_packet_def Let_def
        split: prod.splits sum.splits option.splits if_splits Option.bind_splits)
  with p that show thesis by (auto simp: handle_verified_packet_def)
qed

lemma decapsulate_response:
  assumes "decapsulate C r now n m dst = Some (n', res)"
    "parse_incoming_packet m = Inr (PkHandshakeResponse q)" "is_ok res"
  shows "noise_handle_handshake_response C now n q = (n', res)"
  using assms
  by (auto simp: decapsulate_def verify_packet_def handle_verified_packet_def rbind_Inr_conv Let_def
      split: sum.splits if_splits)

section \<open>Properties\<close>

text \<open>
  C2. The interface works end to end: an initiator that knows the responder's public key
  starts a handshake; the responder learns the initiator's public key from the initiation
  (also by peeking without processing it), answers it, and the initiator installs the
  session; then a packet given to \<open>on_send\<close> at the initiator is what \<open>on_recv\<close> returns at the
  responder, and a packet the responder sends after it is what the initiator receives.
\<close>

theorem cryptor_end_to_end:
  assumes C: "crypto_ok C" and r: "rng_ok ra" "rng_ok rb"
    and ts: "stamp sta (now 0) = Inr ts" "tai64n_parse ts = Inr t" "tai64n_after t tai64n_zero"
    and d: "length src + DATA_OVERHEAD_SZ \<le> length dst" "length src2 + DATA_OVERHEAD_SZ \<le> length dst"
    and v: "validate_decapsulated_packet src = Inr (WriteToTunnel src ip)"
      "validate_decapsulated_packet src2 = Inr (WriteToTunnel src2 ip2)"
  shows "\<exists>na m1 nb m2 na2 na3 pkt nb2 nb3 pkt2 na4.
    cr_init_handshake C ra now sta ia a (x25519_public C b) = (ia + 1, Inr (na, m1)) \<and>
    peek_init_pubkey C b (x25519_public C b) m1 = Some (x25519_public C a) \<and>
    cr_handle_handshake C rb (now 2) stb ib b (x25519_public C b) m1 = Some (ib + 1, Inr (nb, Some m2)) \<and>
    cr_get_peer_public nb = Inr (x25519_public C a) \<and>
    cr_handle_handshake_response C (now 3) na m2 = (na2, Inr ()) \<and>
    cr_on_send C ra now na2 src dst = (na3, Inr pkt) \<and>
    cr_on_recv C rb (now 4) nb pkt dst = Some (nb2, Inr src) \<and>
    cr_on_send C rb now nb2 src2 dst = (nb3, Inr pkt2) \<and>
    cr_on_recv C ra (now 5) na3 pkt2 dst = Some (na4, Inr src2)"
proof -
  obtain ea eb where e: "ra 0 32 = Some ea" "rb 0 32 = Some eb" using r by (metis rng_ok_def)
  let ?va = "verifier_new C (x25519_public C a)" and ?vb = "verifier_new C (x25519_public C b)"
  define na0 where "na0 = noise_new C a (x25519_public C b) None (snd (next_session_base ia)) (Some ?va) sta"
  define nb0 where "nb0 = noise_new C b (x25519_public C a) None (snd (next_session_base ib)) (Some ?vb) stb"
  have pair: "paired C na0 nb0"
    unfolding paired_def params_for_def na0_def nb0_def
    by (simp add: noise_new_def handshake_new_def noise_params_new_def verifier_new_def Let_def)
  have fresh: "sessions na0 = replicate N_SESSIONS None" "stamper (handshake na0) = sta"
      "last_handshake_timestamp (handshake nb0) = tai64n_zero" "noise_verifier nb0 = ?vb"
      "params (handshake nb0) = noise_params_new C b (x25519_public C b) (x25519_public C a) None"
    by (simp_all add: na0_def nb0_def noise_new_def handshake_new_def Let_def)
  let ?buf = "replicate 148 (0 :: byte)"
  have l: "148 \<le> length ?buf" "92 \<le> length ?buf" by simp_all
  obtain na1 m1 nb1 m2 na2 sa sb where
    h: "noise_format_handshake_initiation C ra now na0 ?buf = (na1, Inr (WriteToNetwork m1))"
       "decapsulate C rb (now 2) nb0 m1 ?buf = Some (nb1, Inr (WriteToNetwork m2))"
       "decapsulate C ra (now 3) na1 m2 dst = Some (na2, Inr Done)"
    and m: "mirrored sa sb" "unused_session sa" "unused_session sb"
    and sa: "sessions na2 ! (local_index sa mod N_SESSIONS) = Some sa" "current na2 = local_index sa"
    and sb: "sessions nb1 ! (local_index sb mod N_SESSIONS) = Some sb"
       "next_session nb1 = Some (local_index sb)"
    and len: "length (sessions na2) = N_SESSIONS" "length (sessions nb1) = N_SESSIONS"
    and q: "\<exists>q. parse_incoming_packet m2 = Inr (PkHandshakeResponse q)"
    by (rule tunnel_handshake [where now = now and ra = ra and rb = rb and tb = "now 2" and rc = ra
          and later = "now 3" and dstc = dst, OF C pair fresh(1) e l ts(1) [folded fresh(2)] ts(2)
          ts(3) [folded fresh(3)]])
  obtain p where p: "verify_packet C ?vb m1 = Inr (PkHandshakeInit p)"
      "handle_handshake_init C rb nb0 p ?buf = (nb1, Inr (WriteToNetwork m2))"
    using decapsulate_answer [OF h(2)] fresh(4) by metis
  obtain hb res where rec: "receive_handshake_initialization C rb (handshake nb0) p ?buf = (hb, Inr res)"
      "handshake nb1 = hb"
    using p(2) by (auto simp: handle_handshake_init_def Let_def split: prod.splits sum.splits)
  have anon: "parse_handshake_anon C b (x25519_public C b) p = Inr (x25519_public C a)"
    using received_init_names_peer [OF C rec(1)] fresh(5) by (simp add: noise_params_new_def)
  have init: "cr_init_handshake C ra now sta ia a (x25519_public C b) = (ia + 1, Inr (na1, m1))"
    using h(1) unfolding na0_def
    by (auto simp: cr_init_handshake_def noise_format_handshake_initiation_def next_session_base_def Let_def
        rbind_Inr_conv split: prod.splits)
  have resp: "cr_handle_handshake C rb (now 2) stb ib b (x25519_public C b) m1 =
      Some (ib + 1, Inr (nb1, Some m2))"
    using p anon unfolding nb0_def
    by (simp add: cr_handle_handshake_def next_session_base_def handle_verified_packet_def Let_def)
  have peer: "cr_get_peer_public nb1 = Inr (x25519_public C a)"
    using receive_handshake_initialization_cases [of C rb "handshake nb0" p ?buf] rec fresh(5)
    by (auto simp: cr_get_peer_public_def noise_params_new_def)
  have fin: "cr_handle_handshake_response C (now 3) na1 m2 = (na2, Inr ())"
    using decapsulate_response [OF h(3)] q by (auto simp: cr_handle_handshake_response_def)
  obtain na3 pkt nb2 nb3 pkt2 na4 where "encapsulate C ra now na2 src dst = (na3, Inr (WriteToNetwork pkt))"
      "decapsulate C rb (now 4) nb1 pkt dst = Some (nb2, validate_decapsulated_packet src)"
      "encapsulate C rb now nb2 src2 dst = (nb3, Inr (WriteToNetwork pkt2))"
      "decapsulate C ra (now 5) na3 pkt2 dst = Some (na4, validate_decapsulated_packet src2)"
    by (rule tunnel_exchange [OF C r m sa sb len d])
  then have data: "cr_on_send C ra now na2 src dst = (na3, Inr pkt)"
      "cr_on_recv C rb (now 4) nb1 pkt dst = Some (nb2, Inr src)"
      "cr_on_send C rb now nb2 src2 dst = (nb3, Inr pkt2)"
      "cr_on_recv C ra (now 5) na3 pkt2 dst = Some (na4, Inr src2)"
    using v by (auto simp: cr_on_send_def cr_on_recv_def decapsulate_def split: sum.splits)
  show ?thesis
    using init resp peer fin data p(1) anon by (auto simp: peek_init_pubkey_def)
qed

theorem cryptor_end_to_end_witness:
  "\<exists>na m1 nb m2 na2 na3 pkt nb2 nb3 pkt2 na4.
    cr_init_handshake toy_crypto toy_rng toy_clock toy_stamper 1 [11] (x25519_public toy_crypto [22]) =
      (2, Inr (na, m1)) \<and>
    cr_handle_handshake toy_crypto toy_rng (toy_clock 2) toy_stamper 1 [22] (x25519_public toy_crypto [22]) m1 =
      Some (2, Inr (nb, Some m2)) \<and>
    cr_handle_handshake_response toy_crypto (toy_clock 3) na m2 = (na2, Inr ()) \<and>
    cr_on_send toy_crypto toy_rng toy_clock na2 toy_packet (replicate 99 0) = (na3, Inr pkt) \<and>
    cr_on_recv toy_crypto toy_rng (toy_clock 4) nb pkt (replicate 99 0) = Some (nb2, Inr toy_packet) \<and>
    cr_on_send toy_crypto toy_rng toy_clock nb2 toy_packet (replicate 99 0) = (nb3, Inr pkt2) \<and>
    cr_on_recv toy_crypto toy_rng (toy_clock 5) na3 pkt2 (replicate 99 0) = Some (na4, Inr toy_packet)"
proof -
  have l: "length toy_packet + DATA_OVERHEAD_SZ \<le> length (replicate 99 (0 :: byte))"
    by (simp add: toy_packet_def DATA_OVERHEAD_SZ_def)
  have after: "tai64n_after \<lparr>secs = word_of_nat (5 + TAI64_BASE), nano = 1000\<rparr> tai64n_zero"
    by (simp add: tai64n_after_def tai64n_zero_def TAI64_BASE_def)
  show ?thesis
    using cryptor_end_to_end [where ia = 1 and ib = 1 and a = "[11]" and b = "[22]" and now = toy_clock
        and stb = toy_stamper, OF toy_crypto_ok toy_rng_ok toy_rng_ok toy_stamp tai64n_parse_bytes after l l
        toy_packet_valid toy_packet_valid]
    by (simp add: one_add_one) blast
qed

text \<open>
  C36. Session indices of different peers: every index the handshakes of two peers ever
  allocate starts from the block of the peer's number, and two peers share a block exactly
  when their numbers agree modulo \<open>2^16\<close>. The number is shifted by eight bits twice, so of
  its 24 bits only 16 separate peers.
\<close>

theorem peer_blocks_coincide_iff:
  "unat (start_index C p) div 256 = unat (start_index C q) div 256 \<longleftrightarrow>
     unat p mod 2 ^ 16 = unat q mod 2 ^ 16"
proof -
  have "unat (start_index C x) div 256 = (unat x mod 2 ^ 16) * 2 ^ 8" for x :: u32
    unfolding start_index_nat by simp
  then show ?thesis by simp
qed

text \<open>A \<open>RawCryptor\<close> enforces the handshake order: before a handshake every transport
  operation fails with \<open>MustHandshakeFirst\<close> and creates nothing; once it holds a tunnel a
  second handshake is refused with \<open>AlreadyHandshake\<close> and the tunnel, the answer and the peer
  counter are untouched.\<close>

lemma raw_cryptor_order:
  "raw_handle_handshake_response C t None m = (None, Inl MustHandshakeFirst) \<and>
   raw_on_send C r now None m dst = (None, Inl MustHandshakeFirst) \<and>
   raw_on_recv C r t None m dst = Some (None, Inl MustHandshakeFirst) \<and>
   raw_get_peer_public None = Inl MustHandshakeFirst \<and>
   raw_rekey_init C r now None dst = (None, Inl MustHandshakeFirst) \<and>
   raw_rekey_respond C r t None m dst = Some (None, Inl MustHandshakeFirst) \<and>
   raw_init_handshake C r now st k (Some n) priv pub = (k, Some n, Inl AlreadyHandshake) \<and>
   raw_handle_handshake C r t st k (Some n) priv pub m = Some (k, Some n, Inl AlreadyHandshake) \<and>
   (is_ok (snd (snd (raw_init_handshake C r now st k None priv pub))) \<longleftrightarrow>
      fst (snd (raw_init_handshake C r now st k None priv pub)) \<noteq> None)"
  by (simp add: raw_handle_handshake_response_def raw_on_send_def raw_on_recv_def raw_get_peer_public_def
      raw_rekey_init_def raw_rekey_respond_def raw_init_handshake_def raw_handle_handshake_def
      split: prod.split sum.split)

end
