(* ===== verification/Wire_Codec.thy ===== *)
theory Wire_Codec
  imports Fp_Prelude
begin

text \<open>
  The contract of a self-delimiting codec and its client, a reader that reassembles messages
  from the chunks a byte stream happens to deliver. The provider promises that what it
  encodes is what it decodes, whatever follows, that a strict prefix of an encoding asks
  for more bytes, and that decoding consumes some of the bytes it was given. The client
  then recovers every message for every way the stream is cut into chunks.

  The reader is \<^verbatim>\<open>FrameReader\<close> of relay-server/src/server.rs. What a read of the stream gives
  is an event: a chunk of bytes (an empty one is the end of the stream) or a failure.
\<close>

section \<open>The reader\<close>

datatype read_event = Chunk bytes | ReadFailed

datatype 'e read_error = InvalidData 'e | UnexpectedEof | ReadIo

text \<open>
  The next message of the stream: decode what is buffered; when more bytes are needed, read
  once and try again. The result comes with the buffer and the events left.
\<close>

fun next_frame :: "(bytes \<Rightarrow> 'e + 'm \<times> nat) \<Rightarrow> ('e \<Rightarrow> bool) \<Rightarrow> bytes \<Rightarrow> read_event list
    \<Rightarrow> ('e read_error + 'm option) \<times> bytes \<times> read_event list" where
  "next_frame dec is_short buf evs =
     (case dec buf of
        Inr (frame, n) \<Rightarrow> (Inr (Some frame), drop n buf, evs)
      | Inl e \<Rightarrow>
          if is_short e then
            (case evs of
               [] \<Rightarrow> (if buf = [] then Inr None else Inl UnexpectedEof, buf, [])
             | ReadFailed # evs \<Rightarrow> (Inl ReadIo, buf, evs)
             | Chunk tmp # evs \<Rightarrow>
                 if tmp = [] then (if buf = [] then Inr None else Inl UnexpectedEof, buf, evs)
                 else next_frame dec is_short (buf @ tmp) evs)
          else (Inl (InvalidData e), buf, evs))"

declare next_frame.simps [simp del]

text \<open>The results of calling the reader \<open>k\<close> times.\<close>

fun read_frames :: "(bytes \<Rightarrow> 'e + 'm \<times> nat) \<Rightarrow> ('e \<Rightarrow> bool) \<Rightarrow> nat \<Rightarrow> bytes \<Rightarrow> read_event list
    \<Rightarrow> ('e read_error + 'm option) list" where
  "read_frames dec is_short 0 buf evs = []"
| "read_frames dec is_short (Suc k) buf evs =
     (let (r, buf, evs) = next_frame dec is_short buf evs in r # read_frames dec is_short k buf evs)"

section \<open>Type-length-value frames\<close>

text \<open>The header of a frame \<^verbatim>\<open>[type:u8][len:u32 BE][body]\<close> as a decoder reads it, also when only the
  first \<open>n\<close> bytes have arrived.\<close>

lemma tlv_header:
  assumes "length body < 2 ^ 32" "5 \<le> n"
  shows "take n (ty # to_be_bytes 4 (word_of_nat (length body) :: u32) @ body @ rest) ! 0 = ty"
    and "unat (from_be_bytes (slice 1 5 (take n
           (ty # to_be_bytes 4 (word_of_nat (length body) :: u32) @ body @ rest))) :: u32) = length body"
proof -
  let ?b = "ty # to_be_bytes 4 (word_of_nat (length body) :: u32) @ body @ rest"
  show "take n ?b ! 0 = ty" using assms(2) by simp
  have "slice 1 5 ?b = to_be_bytes 4 (word_of_nat (length body) :: u32)" by (simp add: slice_def)
  then show "unat (from_be_bytes (slice 1 5 (take n ?b)) :: u32) = length body"
    unfolding slice_take [OF assms(2)] using unat_be_u32_length [OF assms(1)] by simp
qed

lemma tlv_frame:
  assumes "length body < 2 ^ 32" "b = ty # to_be_bytes 4 (word_of_nat (length body) :: u32) @ body @ rest"
  shows "b ! 0 = ty" "unat (from_be_bytes (slice 1 5 b) :: u32) = length body"
    "slice 5 (5 + length body) b = body" "length b = 5 + length body + length rest"
  using tlv_header [OF assms(1), of "length b" ty rest, folded assms(2)] assms(2)
  by (simp_all add: slice_def)

section \<open>The contract\<close>

locale wire_codec =
  fixes enc :: "'m \<Rightarrow> bytes"
    and dec :: "bytes \<Rightarrow> 'e + 'm \<times> nat"
    and wf :: "'m \<Rightarrow> bool"
    and is_short :: "'e \<Rightarrow> bool"
  assumes dec_enc: "wf m \<Longrightarrow> dec (enc m @ rest) = Inr (m, length (enc m))"
    and prefix_short: "wf m \<Longrightarrow> enc m = p @ q \<Longrightarrow> q \<noteq> [] \<Longrightarrow> \<exists>e. dec p = Inl e \<and> is_short e"
    and nil_short: "\<exists>e. dec [] = Inl e \<and> is_short e"
    and consumed: "dec b = Inr (m, n) \<Longrightarrow> 0 < n \<and> n \<le> length b"
begin

lemma next_frame_complete:
  assumes "wf m" "buf @ concat cs = enc m @ rest" "[] \<notin> set cs"
  shows "\<exists>buf' cs'. next_frame dec is_short buf (map Chunk cs) = (Inr (Some m), buf', map Chunk cs') \<and>
           buf' @ concat cs' = rest \<and> [] \<notin> set cs'"
  using assms(2,3)
proof (induction cs arbitrary: buf)
  case Nil
  then have "dec buf = Inr (m, length (enc m))" using dec_enc [OF assms(1)] by simp
  with Nil show ?case by (intro exI [of _ rest] exI [of _ "[]"]) (simp add: next_frame.simps)
next
  case (Cons c cs)
  show ?case
  proof (cases "length buf < length (enc m)")
    case True
    have "buf = take (length buf) (enc m)"
      using Cons.prems(1) True by (metis append_eq_append_conv_if append_eq_conv_conj less_imp_le)
    then obtain q where q: "enc m = buf @ q" "q \<noteq> []"
      using True by (metis append_take_drop_id drop_eq_Nil not_le)
    obtain e where "dec buf = Inl e" "is_short e" using prefix_short [OF assms(1) q] by blast
    moreover have "c \<noteq> []" using Cons.prems(2) by auto
    ultimately show ?thesis
      using Cons.IH [of "buf @ c"] Cons.prems by (simp add: next_frame.simps)
  next
    case False
    then have b: "buf = enc m @ drop (length (enc m)) buf"
      using Cons.prems(1)
      by (metis append_eq_append_conv_if append_take_drop_id not_less)
    then have "dec buf = Inr (m, length (enc m))" using dec_enc [OF assms(1)] by metis
    moreover have "drop (length (enc m)) buf @ concat (c # cs) = rest"
      using Cons.prems(1) b by (metis append.assoc same_append_eq)
    ultimately show ?thesis
      using Cons.prems(2)
      by (intro exI [of _ "drop (length (enc m)) buf"] exI [of _ "c # cs"]) (simp add: next_frame.simps)
  qed
qed

lemma next_frame_eof: "next_frame dec is_short [] [] = (Inr None, [], [])"
  using nil_short by (auto simp: next_frame.simps)

text \<open>However the stream is cut into chunks, the reader gives the messages in order and then
  the end of the stream.\<close>

lemma chunking_invariant:
  assumes "\<forall>m \<in> set ms. wf m" "buf @ concat cs = concat (map enc ms)" "[] \<notin> set cs"
  shows "read_frames dec is_short (Suc (length ms)) buf (map Chunk cs) = map (\<lambda>m. Inr (Some m)) ms @ [Inr None]"
  using assms
proof (induction ms arbitrary: buf cs)
  case Nil
  then have "buf = []" "cs = []" by (auto simp: concat_eq_Nil_conv) (metis list.set_intros(1) neq_Nil_conv)
  then show ?case using next_frame_eof by simp
next
  case (Cons m ms)
  then obtain buf' cs' where "next_frame dec is_short buf (map Chunk cs) = (Inr (Some m), buf', map Chunk cs')"
      "buf' @ concat cs' = concat (map enc ms)" "[] \<notin> set cs'"
    using next_frame_complete [of m buf cs "concat (map enc ms)"] by auto
  then show ?case using Cons.IH [of buf' cs'] Cons.prems(1) by (simp add: Let_def)
qed

text \<open>Two well-formed messages with the same encoding are the same.\<close>

lemma enc_inj: "wf m \<Longrightarrow> wf m' \<Longrightarrow> enc m = enc m' \<Longrightarrow> m = m'"
  using dec_enc [of m "[]"] dec_enc [of m' "[]"] by simp

text \<open>A codec is prefix-free, so a stream of messages has one reading.\<close>

lemma enc_prefix_free: "wf m \<Longrightarrow> wf m' \<Longrightarrow> enc m @ r = enc m' @ r' \<Longrightarrow> m = m' \<and> r = r'"
  using dec_enc [of m r] dec_enc [of m' r'] by auto

end

end
