(* ===== verification/Relay_Proto.thy ===== *)
theory Relay_Proto
  imports Wire_Codec
begin

text \<open>
  The relay wire protocol (relay-server/src/proto.rs): frames
  \<^verbatim>\<open>[type:u8][len:u32 BE][body:len]\<close>, their encoder and decoder, and the interpretation of the
  codec contract for them, from which the behaviour of the relay's frame reader follows.
\<close>

section \<open>Model\<close>

type_synonym public_key = bytes

definition MAX_PACKET_SIZE :: nat where "MAX_PACKET_SIZE = 64 * 1024"
definition RELAY_KEY_LEN :: nat where "RELAY_KEY_LEN = 32"
definition HEADER_LEN :: nat where "HEADER_LEN = 1 + 4"

definition T_CLIENT_INFO :: byte where "T_CLIENT_INFO = 1"
definition T_SERVER_INFO :: byte where "T_SERVER_INFO = 2"
definition T_SEND_PACKET :: byte where "T_SEND_PACKET = 3"
definition T_RECV_PACKET :: byte where "T_RECV_PACKET = 4"
definition T_PING :: byte where "T_PING = 5"
definition T_PONG :: byte where "T_PONG = 6"
definition T_PEER_GONE :: byte where "T_PEER_GONE = 7"
definition T_HEALTH :: byte where "T_HEALTH = 8"
definition T_RESTARTING :: byte where "T_RESTARTING = 9"

lemmas frame_types = T_CLIENT_INFO_def T_SERVER_INFO_def T_SEND_PACKET_def T_RECV_PACKET_def
  T_PING_def T_PONG_def T_PEER_GONE_def T_HEALTH_def T_RESTARTING_def

datatype frame =
    ClientInfo public_key u32
  | ServerInfo u32
  | SendPacket public_key bytes
  | RecvPacket public_key bytes
  | Ping bytes
  | Pong bytes
  | PeerGone public_key
  | Health
  | Restarting

datatype proto_error =
    ShortBuffer nat nat
  | UnknownType byte
  | BadLength nat
  | TooLarge nat

definition type_byte :: "frame \<Rightarrow> byte" where
  "type_byte f = (case f of
      ClientInfo _ _ \<Rightarrow> T_CLIENT_INFO
    | ServerInfo _ \<Rightarrow> T_SERVER_INFO
    | SendPacket _ _ \<Rightarrow> T_SEND_PACKET
    | RecvPacket _ _ \<Rightarrow> T_RECV_PACKET
    | Ping _ \<Rightarrow> T_PING
    | Pong _ \<Rightarrow> T_PONG
    | PeerGone _ \<Rightarrow> T_PEER_GONE
    | Health \<Rightarrow> T_HEALTH
    | Restarting \<Rightarrow> T_RESTARTING)"

definition frame_body :: "frame \<Rightarrow> bytes" where
  "frame_body f = (case f of
      ClientInfo pubkey protocol_version \<Rightarrow> pubkey @ to_be_bytes 4 protocol_version
    | ServerInfo protocol_version \<Rightarrow> to_be_bytes 4 protocol_version
    | SendPacket dst payload \<Rightarrow> dst @ payload
    | RecvPacket src payload \<Rightarrow> src @ payload
    | Ping data \<Rightarrow> data
    | Pong data \<Rightarrow> data
    | PeerGone pubkey \<Rightarrow> pubkey
    | Health \<Rightarrow> []
    | Restarting \<Rightarrow> [])"

definition frame_encode :: "frame \<Rightarrow> bytes" where
  "frame_encode f =
     (let body = frame_body f
      in type_byte f # to_be_bytes 4 (word_of_nat (length body) :: u32) @ body)"

definition frame_key :: "bytes \<Rightarrow> proto_error + public_key" where
  "frame_key b = ok_or (BadLength (length b)) (get_slice 0 RELAY_KEY_LEN b)"

definition be_u32 :: "bytes \<Rightarrow> proto_error + u32" where
  "be_u32 b = rbind (ok_or (BadLength (length b)) (get_slice 0 4 b)) (\<lambda>s. Inr (from_be_bytes s))"

text \<open>The frame of a type byte and a body.\<close>

definition decode_body :: "byte \<Rightarrow> bytes \<Rightarrow> proto_error + frame" where
  "decode_body ty body =
     (if ty = T_CLIENT_INFO then
        (if length body \<noteq> RELAY_KEY_LEN + 4 then Inl (BadLength (length body))
         else rbind (frame_key body) (\<lambda>pubkey. rbind (be_u32 (drop RELAY_KEY_LEN body)) (\<lambda>version.
                Inr (ClientInfo pubkey version))))
      else if ty = T_SERVER_INFO then
        (if length body \<noteq> 4 then Inl (BadLength (length body))
         else rbind (be_u32 body) (\<lambda>version. Inr (ServerInfo version)))
      else if ty = T_SEND_PACKET \<or> ty = T_RECV_PACKET then
        (if length body < RELAY_KEY_LEN then Inl (BadLength (length body))
         else let payload = drop RELAY_KEY_LEN body
              in if MAX_PACKET_SIZE < length payload then Inl (TooLarge (length payload))
                 else rbind (frame_key body) (\<lambda>k.
                        Inr (if ty = T_SEND_PACKET then SendPacket k payload else RecvPacket k payload)))
      else if ty = T_PING \<or> ty = T_PONG then
        (if length body \<noteq> 8 then Inl (BadLength (length body))
         else Inr (if ty = T_PING then Ping body else Pong body))
      else if ty = T_PEER_GONE then
        (if length body \<noteq> RELAY_KEY_LEN then Inl (BadLength (length body))
         else rbind (frame_key body) (\<lambda>pubkey. Inr (PeerGone pubkey)))
      else if ty = T_HEALTH then Inr Health
      else if ty = T_RESTARTING then Inr Restarting
      else Inl (UnknownType ty))"

definition frame_decode :: "bytes \<Rightarrow> proto_error + frame \<times> nat" where
  "frame_decode buf =
     (if length buf < HEADER_LEN then Inl (ShortBuffer HEADER_LEN (length buf))
      else
        let ty = buf ! 0;
            len = unat (from_be_bytes (slice 1 5 buf) :: u32)
        in if MAX_PACKET_SIZE + RELAY_KEY_LEN < len then Inl (TooLarge len)
           else let total = HEADER_LEN + len
                in if length buf < total then Inl (ShortBuffer total (length buf))
                   else rbind (decode_body ty (slice HEADER_LEN total buf)) (\<lambda>frame. Inr (frame, total)))"

definition is_short_buffer :: "proto_error \<Rightarrow> bool" where
  "is_short_buffer e = (case e of ShortBuffer _ _ \<Rightarrow> True | _ \<Rightarrow> False)"

text \<open>The frames Rust can build: fixed-size arrays have their size, payloads are within the limit.\<close>

definition frame_wf :: "frame \<Rightarrow> bool" where
  "frame_wf f = (case f of
      ClientInfo pubkey _ \<Rightarrow> length pubkey = 32
    | ServerInfo _ \<Rightarrow> True
    | SendPacket dst payload \<Rightarrow> length dst = 32 \<and> length payload \<le> MAX_PACKET_SIZE
    | RecvPacket src payload \<Rightarrow> length src = 32 \<and> length payload \<le> MAX_PACKET_SIZE
    | Ping data \<Rightarrow> length data = 8
    | Pong data \<Rightarrow> length data = 8
    | PeerGone pubkey \<Rightarrow> length pubkey = 32
    | Health \<Rightarrow> True
    | Restarting \<Rightarrow> True)"

section \<open>Encoding and decoding\<close>

lemmas proto_sizes = MAX_PACKET_SIZE_def RELAY_KEY_LEN_def HEADER_LEN_def

lemma length_to_be_4 [simp]: "length (frame_encode f) = 5 + length (frame_body f)"
  by (simp add: frame_encode_def Let_def)

lemma body_bound: "frame_wf f \<Longrightarrow> length (frame_body f) \<le> 32 + MAX_PACKET_SIZE"
  by (auto simp: frame_wf_def frame_body_def proto_sizes split: frame.splits)

lemma decode_body_body: "frame_wf f \<Longrightarrow> decode_body (type_byte f) (frame_body f) = Inr f"
  by (cases f) (simp_all add: decode_body_def type_byte_def frame_body_def frame_wf_def frame_types
      frame_key_def be_u32_def get_slice_def slice_def proto_sizes)

lemma body_bound_u32: "frame_wf f \<Longrightarrow> length (frame_body f) < 2 ^ 32"
  using body_bound [of f] by (simp add: proto_sizes)

lemma decode_encode:
  assumes "frame_wf f"
  shows "frame_decode (frame_encode f @ rest) = Inr (f, length (frame_encode f))"
  using tlv_frame [OF body_bound_u32 [OF assms] refl, of "type_byte f" rest]
    body_bound [OF assms] decode_body_body [OF assms]
  by (simp add: frame_decode_def frame_encode_def Let_def proto_sizes)

lemma decode_strict_prefix:
  assumes "frame_wf f" "frame_encode f = p @ q" "q \<noteq> []"
  shows "\<exists>need. frame_decode p = Inl (ShortBuffer need (length p))"
proof (cases "length p < 5")
  case False
  have p: "p = take (length p) (type_byte f # to_be_bytes 4 (word_of_nat (length (frame_body f)) :: u32) @ frame_body f @ [])"
    using assms(2) by (simp add: frame_encode_def Let_def)
  note h = tlv_header [OF body_bound_u32 [OF assms(1)], of "length p" "type_byte f" "[]", folded p]
  have "length p < length (frame_encode f)" using assms(2,3) by simp
  then show ?thesis
    using False h body_bound [OF assms(1)] by (simp add: frame_decode_def Let_def proto_sizes)
qed (simp add: frame_decode_def HEADER_LEN_def)

interpretation relay: wire_codec frame_encode frame_decode frame_wf is_short_buffer
proof
  show "frame_wf m \<Longrightarrow> frame_decode (frame_encode m @ rest) = Inr (m, length (frame_encode m))" for m rest
    by (rule decode_encode)
  show "\<exists>e. frame_decode p = Inl e \<and> is_short_buffer e"
    if "frame_wf m" "frame_encode m = p @ q" "q \<noteq> []" for m p q
    using decode_strict_prefix [OF that] by (auto simp: is_short_buffer_def)
  show "\<exists>e. frame_decode [] = Inl e \<and> is_short_buffer e"
    by (simp add: frame_decode_def HEADER_LEN_def is_short_buffer_def)
  show "frame_decode b = Inr (m, n) \<Longrightarrow> 0 < n \<and> n \<le> length b" for b m n
    by (auto simp: frame_decode_def Let_def HEADER_LEN_def rbind_Inr_conv split: if_splits)
qed

section \<open>Decoding is strict\<close>

lemma decode_body_inverse:
  assumes "decode_body ty body = Inr f" "f \<noteq> Health" "f \<noteq> Restarting"
  shows "frame_wf f" "type_byte f = ty" "frame_body f = body"
proof -
  have be: "to_be_bytes 4 (from_be_bytes b :: u32) = b" if "length b = 4" for b
    using that by (intro to_from_be_bytes) simp_all
  show "frame_wf f" "type_byte f = ty" "frame_body f = body"
    using assms
    by (auto simp: be decode_body_def frame_wf_def type_byte_def frame_body_def frame_types frame_key_def
        be_u32_def get_slice_def slice_def proto_sizes rbind_Inr_conv Let_def split: if_splits)
qed

section \<open>Properties\<close>

text \<open>
  C25. Relay frames survive the wire: decoding the bytes of any well-formed frame, whatever
  follows them in the buffer, gives the frame back and consumes exactly its bytes.
\<close>

theorem relay_frame_roundtrip:
  assumes "frame_wf f"
  shows "frame_decode (frame_encode f @ rest) = Inr (f, length (frame_encode f))"
  by (rule relay.dec_enc [OF assms])

theorem relay_frame_roundtrip_witness:
  "frame_decode (frame_encode (SendPacket (replicate 32 7) [9, 8, 7]) @ [1, 2]) =
     Inr (SendPacket (replicate 32 7) [9, 8, 7], 40)"
  by (subst relay_frame_roundtrip) (simp_all add: frame_wf_def MAX_PACKET_SIZE_def frame_body_def)

text \<open>
  C26. The relay's frame reader does not depend on how the network cuts the stream: for every
  sequence of well-formed frames and every division of their bytes into non-empty chunks,
  it returns the frames in order and then the clean end of the stream.
\<close>

theorem frame_reader_chunking:
  assumes "\<forall>f \<in> set fs. frame_wf f" "concat cs = concat (map frame_encode fs)" "[] \<notin> set cs"
  shows "read_frames frame_decode is_short_buffer (Suc (length fs)) [] (map Chunk cs) =
    map (\<lambda>f. Inr (Some f)) fs @ [Inr None]"
  by (rule relay.chunking_invariant) (use assms in simp_all)

theorem frame_reader_chunking_witness:
  "read_frames frame_decode is_short_buffer 3 [] (map Chunk [[8, 0], [0, 0], [0, 9, 0, 0], [0, 0]]) =
     [Inr (Some Health), Inr (Some Restarting), Inr None]"
  using frame_reader_chunking [of "[Health, Restarting]" "[[8, 0], [0, 0], [0, 9, 0, 0], [0, 0]]"]
  by (simp add: frame_wf_def frame_encode_def frame_body_def type_byte_def frame_types to_be_bytes_def
      le_enc_numeral numeral_3_eq_3 Let_def)

text \<open>
  The decoder accepts nothing but encodings: a frame it returns is well formed and the
  bytes it consumed are that frame's encoding. The two frames without a body are the
  exception, since their body is not checked.
\<close>

lemma relay_decode_strict:
  assumes "frame_decode b = Inr (f, n)" "f \<noteq> Health" "f \<noteq> Restarting"
  shows "frame_wf f \<and> take n b = frame_encode f"
proof -
  define len where "len = unat (from_be_bytes (slice 1 5 b) :: u32)"
  have d: "5 \<le> length b" "n = 5 + len" "5 + len \<le> length b"
      "decode_body (b ! 0) (slice 5 (5 + len) b) = Inr f"
    using assms(1) unfolding len_def
    by (auto simp: frame_decode_def Let_def HEADER_LEN_def rbind_Inr_conv split: if_splits)
  note f = decode_body_inverse [OF d(4) assms(2,3)]
  have "slice 1 5 b = to_be_bytes 4 (from_be_bytes (slice 1 5 b) :: u32)"
    using d(1) by (intro to_from_be_bytes [symmetric]) simp_all
  moreover have "(word_of_nat (length (frame_body f)) :: u32) = from_be_bytes (slice 1 5 b)"
    using f(3) d(3) by (simp add: len_def)
  ultimately have enc: "frame_encode f = b ! 0 # slice 1 5 b @ slice 5 (5 + len) b"
    using f(2,3) by (simp add: frame_encode_def Let_def)
  obtain x xs where b: "b = x # xs" using d(1) by (cases b) auto
  have "n = Suc (4 + len)" using d(2) by simp
  then have "take n b = x # take 4 xs @ take len (drop 4 xs)"
    unfolding b by (simp only: take_Suc_Cons take_add)
  moreover have "slice 1 5 b = take 4 xs" "slice 5 (5 + len) b = take len (drop 4 xs)" "b ! 0 = x"
    by (simp_all add: b slice_def)
  ultimately show ?thesis using f(1) enc by simp
qed

end
