(* ===== verification/Float64.thy ===== *)
theory Float64
  imports Fp_Prelude "HOL-Library.Log_Nat"
begin

text \<open>
  The \<^verbatim>\<open>f64\<close> arithmetic the rate limiter uses. A finite number is the rational it stands for; each
  operation is the exact one followed by rounding to 53 significant bits, to the nearest number and to
  the even one of two equally near. Numbers below the normal range and above the largest one do not
  occur: what is rounded is zero or lies between \<open>10^-9\<close> and \<open>2^97\<close>.
\<close>

section \<open>Rounding\<close>

definition round_half_even :: "rat \<Rightarrow> int" where
  "round_half_even x =
     (let f = floor x; d = x - of_int f
      in if d < 1 / 2 then f else if 1 / 2 < d then f + 1 else if even f then f else f + 1)"

text \<open>The binary exponent: \<open>2 powi e \<le> q\<close> and \<open>q < 2 powi (e + 1)\<close>.\<close>

definition exponent :: "rat \<Rightarrow> int" where
  "exponent q =
     (let (a, b) = quotient_of q; e = bitlen a - bitlen b
      in if 2 powi e \<le> q then e else e - 1)"

definition ulp :: "rat \<Rightarrow> rat" where
  "ulp q = 2 powi (exponent q - 52)"

definition f64 :: "rat \<Rightarrow> rat" where
  "f64 q = (if q = 0 then 0
            else if 0 < q then of_int (round_half_even (q / ulp q)) * ulp q
            else - (of_int (round_half_even (- q / ulp (- q))) * ulp (- q)))"

text \<open>\<^verbatim>\<open>Duration::as_secs_f64\<close> of a duration in nanoseconds.\<close>

definition as_secs_f64 :: "nat \<Rightarrow> rat" where
  "as_secs_f64 nanos =
     f64 (f64 (of_nat (nanos div 1000000000)) + f64 (f64 (of_nat (nanos mod 1000000000)) / 1000000000))"

section \<open>The error of rounding\<close>

lemma round_half_even_error: "\<bar>of_int (round_half_even x) - x\<bar> \<le> 1 / 2"
proof -
  have "of_int (floor x) \<le> x" "x < of_int (floor x) + 1" by linarith+
  then show ?thesis unfolding round_half_even_def Let_def abs_if by (simp split: if_split; linarith)
qed

lemma round_half_even_nonneg: "0 \<le> x \<Longrightarrow> 0 \<le> round_half_even x"
  by (auto simp: round_half_even_def Let_def)

lemma bitlen_bounds_rat:
  assumes "0 < a"
  shows "2 powi (bitlen a - 1) \<le> (of_int a :: rat)" "(of_int a :: rat) < 2 powi bitlen a"
proof -
  have b: "2 ^ nat (bitlen a - 1) \<le> a \<and> a < 2 ^ nat (bitlen a)" by (rule bitlen_bounds [OF assms])
  have pos: "1 \<le> bitlen a" using bitlen_ge_iff_power [of 1 a] assms by simp
  have "(2 :: rat) powi (bitlen a - 1) = of_int (2 ^ nat (bitlen a - 1))" "(2 :: rat) powi bitlen a = of_int (2 ^ nat (bitlen a))"
    using pos by (simp_all add: power_int_def)
  then show "2 powi (bitlen a - 1) \<le> (of_int a :: rat)" "(of_int a :: rat) < 2 powi bitlen a"
    using b by (metis of_int_le_iff, metis of_int_less_iff)
qed

lemma exponent_le:
  assumes "0 < q"
  shows "2 powi exponent q \<le> q"
proof -
  obtain a b where ab: "quotient_of q = (a, b)" by force
  have b: "0 < b" using quotient_of_denom_pos [OF ab] .
  have q: "q = of_int a / of_int b" using quotient_of_div [OF ab] .
  then have a: "0 < a" using assms b by (simp add: zero_less_divide_iff)
  have "2 powi (bitlen a - bitlen b - 1) = (2 powi (bitlen a - 1) :: rat) / 2 powi bitlen b"
    by (simp add: power_int_diff [symmetric] algebra_simps)
  also have "\<dots> \<le> of_int a / of_int b"
    by (rule frac_le) (use a b bitlen_bounds_rat [OF a] bitlen_bounds_rat [OF b] in auto)
  finally have "2 powi (bitlen a - bitlen b - 1) \<le> q" unfolding q .
  then show ?thesis by (simp add: exponent_def ab Let_def)
qed

lemma f64_error:
  assumes "0 \<le> q"
  shows "0 \<le> f64 q" "f64 q \<le> q * (1 + 1 / 2 ^ 53)"
proof -
  have u: "0 < ulp q" by (simp add: ulp_def)
  show "0 \<le> f64 q"
    using assms round_half_even_nonneg [of "q / ulp q"] u by (auto simp: f64_def)
  show "f64 q \<le> q * (1 + 1 / 2 ^ 53)"
  proof (cases "q = 0")
    case False
    with assms have q: "0 < q" by simp
    have "2 ^ 52 * ulp q = 2 powi exponent q"
      by (simp add: ulp_def power_int_diff)
    then have le: "ulp q / 2 \<le> q / 2 ^ 53" using exponent_le [OF q] by simp
    have "of_int (round_half_even (q / ulp q)) \<le> q / ulp q + 1 / 2"
      using round_half_even_error [of "q / ulp q"] by linarith
    then have "of_int (round_half_even (q / ulp q)) * ulp q \<le> (q / ulp q + 1 / 2) * ulp q"
      using u by (intro mult_right_mono) auto
    also have "\<dots> = q + ulp q / 2" using u by (simp add: field_simps)
    finally show ?thesis using q le by (simp add: f64_def algebra_simps)
  qed (simp add: f64_def)
qed

lemma f64_le: "0 \<le> q \<Longrightarrow> q \<le> y \<Longrightarrow> f64 q \<le> y * (1 + 1 / 2 ^ 53)"
  using f64_error(2) [of q] by (auto intro: order_trans mult_right_mono)

lemma f64_zero [simp]: "f64 0 = 0" by (simp add: f64_def)

lemma as_secs_f64_zero [simp]: "as_secs_f64 0 = 0" by (simp add: as_secs_f64_def)

lemma as_secs_f64_bounds:
  shows "0 \<le> as_secs_f64 n" "as_secs_f64 n \<le> of_nat n / 1000000000 * (1 + 1 / 2 ^ 53) ^ 3"
proof -
  let ?e = "1 + 1 / 2 ^ 53 :: rat"
  define s m :: rat where "s = of_nat (n div 1000000000)" and "m = of_nat (n mod 1000000000)"
  have nonneg: "0 \<le> s" "0 \<le> m" by (simp_all add: s_def m_def)
  have split: "of_nat n / 1000000000 = s + m / 1000000000"
  proof -
    have "of_nat n = (of_nat (1000000000 * (n div 1000000000) + n mod 1000000000) :: rat)" by simp
    then show ?thesis unfolding s_def m_def of_nat_add of_nat_mult by simp
  qed
  have part: "f64 (f64 m / 1000000000) \<le> m / 1000000000 * ?e * ?e"
    by (rule f64_le) (use f64_error [OF nonneg(2)] in auto)
  have "f64 s \<le> s * ?e * ?e"
    using f64_error(2) [OF nonneg(1)] nonneg(1) by (rule_tac order_trans [of _ "s * ?e"]) (auto intro: mult_left_mono)
  with part have sum: "f64 s + f64 (f64 m / 1000000000) \<le> (s + m / 1000000000) * ?e * ?e"
    by (simp only: distrib_right add_mono)
  have pos: "0 \<le> f64 s + f64 (f64 m / 1000000000)"
    using f64_error(1) nonneg by simp
  show "0 \<le> as_secs_f64 n" unfolding as_secs_f64_def s_def [symmetric] m_def [symmetric] by (rule f64_error(1) [OF pos])
  show "as_secs_f64 n \<le> of_nat n / 1000000000 * ?e ^ 3"
    unfolding as_secs_f64_def s_def [symmetric] m_def [symmetric] split
    using f64_le [OF pos sum] by (simp only: power3_eq_cube mult.assoc)
qed

end
