(* ===== verification/Relay_Hub.thy ===== *)
theory Relay_Hub
  imports Relay_Proto Float64
begin

text \<open>
  The relay server (relay-server/src/hub.rs, ratelimit.rs, server.rs): the registry of
  connected clients with their bounded outbound queues, the per-client token bucket, and
  the connection handler as a step relation over the state all connections share.

  A channel is identified by a number; its sender end is that number and its receiver end is
  open until the connection task that drains it ends. A link session is a number too; the
  set of active sessions shrinks when a lease or a registration is dropped. Token counts and
  seconds are 64-bit floats, rounded after every operation as the source's are, and an instant
  is a number of nanoseconds.
\<close>

section \<open>Channels\<close>

record channel =
  ch_queue :: "frame list"
  ch_cap :: nat
  rx_open :: bool

datatype try_send_result = Sent | Full | Closed

definition try_send :: "channel \<Rightarrow> frame \<Rightarrow> channel \<times> try_send_result" where
  "try_send ch f =
     (if \<not> rx_open ch then (ch, Closed)
      else if ch_cap ch \<le> length (ch_queue ch) then (ch, Full)
      else (ch\<lparr>ch_queue := ch_queue ch @ [f]\<rparr>, Sent))"

section \<open>Hub\<close>

definition DEFAULT_QUEUE_CAP :: nat where "DEFAULT_QUEUE_CAP = 512"

datatype routed = Delivered | Dropped public_key | RoutedPeerGone public_key | Ignored

record connection =
  conn_tx :: nat
  conn_auth :: "nat option"

text \<open>The hub together with the channels and link sessions it refers to.\<close>

record hub =
  peers :: "public_key \<rightharpoonup> connection"
  queue_cap :: nat
  channels :: "nat \<Rightarrow> channel"
  next_channel :: nat
  active_sessions :: "nat set"

definition hub_with_capacity :: "nat \<Rightarrow> hub" where
  "hub_with_capacity n =
     \<lparr>peers = Map.empty, queue_cap = max n 1,
      channels = (\<lambda>_. \<lparr>ch_queue = [], ch_cap = 0, rx_open = False\<rparr>), next_channel = 0,
      active_sessions = {}\<rparr>"

text \<open>Dropping a registered connection invalidates its link session.\<close>

definition drop_connection :: "connection option \<Rightarrow> nat set \<Rightarrow> nat set" where
  "drop_connection c active =
     (case c of Some conn \<Rightarrow> (case conn_auth conn of Some s \<Rightarrow> active - {s} | None \<Rightarrow> active)
      | None \<Rightarrow> active)"

definition connect_authenticated :: "hub \<Rightarrow> public_key \<Rightarrow> nat option \<Rightarrow> hub \<times> nat" where
  "connect_authenticated h pubkey auth =
     (let tx = next_channel h
      in (h\<lparr>next_channel := tx + 1,
            channels := (channels h)(tx := \<lparr>ch_queue = [], ch_cap = queue_cap h, rx_open = True\<rparr>),
            peers := (peers h)(pubkey \<mapsto> \<lparr>conn_tx = tx, conn_auth = auth\<rparr>),
            active_sessions := drop_connection (peers h pubkey) (active_sessions h)\<rparr>, tx))"

definition hub_connect :: "hub \<Rightarrow> public_key \<Rightarrow> hub \<times> nat" where
  "hub_connect h pubkey = connect_authenticated h pubkey None"

definition hub_disconnect :: "hub \<Rightarrow> public_key \<Rightarrow> hub" where
  "hub_disconnect h pubkey =
     h\<lparr>peers := (peers h)(pubkey := None),
       active_sessions := drop_connection (peers h pubkey) (active_sessions h)\<rparr>"

definition disconnect_session :: "hub \<Rightarrow> public_key \<Rightarrow> nat \<Rightarrow> hub" where
  "disconnect_session h pubkey tx =
     (case peers h pubkey of
        Some cur \<Rightarrow> if conn_tx cur = tx then hub_disconnect h pubkey else h
      | None \<Rightarrow> h)"

definition hub_connected :: "hub \<Rightarrow> public_key \<Rightarrow> bool" where
  "hub_connected h pubkey = (peers h pubkey \<noteq> None)"

definition hub_try_send :: "hub \<Rightarrow> nat \<Rightarrow> frame \<Rightarrow> hub \<times> try_send_result" where
  "hub_try_send h tx f =
     (let (ch, r) = try_send (channels h tx) f in (h\<lparr>channels := (channels h)(tx := ch)\<rparr>, r))"

definition route_session :: "hub \<Rightarrow> public_key \<Rightarrow> nat option \<Rightarrow> frame \<Rightarrow> hub \<times> routed" where
  "route_session h src session frame =
     (case frame of
        SendPacket dst payload \<Rightarrow>
          if (case session of
                None \<Rightarrow> False
              | Some tx \<Rightarrow> (case peers h src of None \<Rightarrow> True | Some c \<Rightarrow> conn_tx c \<noteq> tx))
          then (h, Ignored)
          else (case peers h dst of
                  Some conn \<Rightarrow>
                    (case hub_try_send h (conn_tx conn) (RecvPacket src payload) of
                       (h, Sent) \<Rightarrow> (h, Delivered)
                     | (h, Full) \<Rightarrow> (h, Dropped dst)
                     | (h, Closed) \<Rightarrow> (h, RoutedPeerGone dst))
                | None \<Rightarrow> (h, RoutedPeerGone dst))
      | _ \<Rightarrow> (h, Ignored))"

definition hub_route :: "hub \<Rightarrow> public_key \<Rightarrow> frame \<Rightarrow> hub \<times> routed" where
  "hub_route h src frame = route_session h src None frame"

section \<open>Token bucket\<close>

record token_bucket =
  tb_capacity :: rat
  tb_rate_per_sec :: rat
  tb_tokens :: rat
  tb_last :: nat

text \<open>A 32-bit number is a float without rounding.\<close>

definition token_bucket_new :: "u32 \<Rightarrow> u32 \<Rightarrow> nat \<Rightarrow> token_bucket" where
  "token_bucket_new rate burst now =
     \<lparr>tb_capacity = of_nat (unat (max burst 1)), tb_rate_per_sec = of_nat (unat (max rate 1)),
      tb_tokens = of_nat (unat (max burst 1)), tb_last = now\<rparr>"

definition allow :: "token_bucket \<Rightarrow> nat \<Rightarrow> token_bucket \<times> bool" where
  "allow b now =
     (let elapsed = as_secs_f64 (now - tb_last b);
          b = (if 0 < elapsed
               then b\<lparr>tb_tokens := min (f64 (tb_tokens b + f64 (elapsed * tb_rate_per_sec b))) (tb_capacity b),
                      tb_last := now\<rparr>
               else b)
      in if 1 \<le> tb_tokens b then (b\<lparr>tb_tokens := f64 (tb_tokens b - 1)\<rparr>, True) else (b, False))"

section \<open>Connections\<close>

definition RELAY_PROTOCOL_VERSION :: u32 where "RELAY_PROTOCOL_VERSION = 2"

record relay_config =
  cfg_protocol_version :: u32
  cfg_queue_cap :: nat
  cfg_rate_per_sec :: u32
  cfg_burst :: u32

definition default_config :: relay_config where
  "default_config = \<lparr>cfg_protocol_version = RELAY_PROTOCOL_VERSION, cfg_queue_cap = DEFAULT_QUEUE_CAP,
     cfg_rate_per_sec = 200000, cfg_burst = 400000\<rparr>"

text \<open>The default authorization, \<^verbatim>\<open>AllowAll\<close>.\<close>

definition allow_all :: "u32 \<Rightarrow> public_key \<Rightarrow> u32 \<Rightarrow> bool" where
  "allow_all min_version pubkey protocol_version = (min_version \<le> protocol_version)"

text \<open>
  What the first frame of a connection leads to: an error unless it is \<^verbatim>\<open>ClientInfo\<close>, a silent
  close (\<open>Inr None\<close>) when the version, the proven identity or the authorization does not fit,
  otherwise the key to register.
\<close>

definition client_handshake ::
    "(public_key \<Rightarrow> u32 \<Rightarrow> bool) \<Rightarrow> public_key \<Rightarrow> frame option \<Rightarrow> unit + public_key option" where
  "client_handshake authorize identity_peer first =
     (case first of
        Some (ClientInfo pubkey protocol_version) \<Rightarrow>
          if protocol_version \<noteq> RELAY_PROTOCOL_VERSION \<or> identity_peer \<noteq> pubkey \<or>
             \<not> authorize pubkey protocol_version
          then Inr None else Inr (Some pubkey)
      | _ \<Rightarrow> Inl ())"

text \<open>
  The same for a bonded connection, whose transport hands over the first packet whole and may
  hold no link session at all or a revoked one. Bytes after the frame are ignored.
\<close>

definition bonded_handshake ::
    "(public_key \<Rightarrow> u32 \<Rightarrow> bool) \<Rightarrow> nat set \<Rightarrow> (nat \<Rightarrow> public_key) \<Rightarrow> nat option \<Rightarrow> bytes
       \<Rightarrow> unit + (nat \<times> public_key) option" where
  "bonded_handshake authorize active peer_of link_session packet =
     (case link_session of
        Some sid \<Rightarrow>
          if sid \<notin> active then Inl ()
          else (case frame_decode packet of
                  Inr (first, _) \<Rightarrow>
                    rbind (client_handshake authorize (peer_of sid) (Some first))
                      (\<lambda>key. Inr (map_option (Pair sid) key))
                | Inl _ \<Rightarrow> Inl ())
      | None \<Rightarrow> Inl ())"

definition handle_inbound ::
    "hub \<Rightarrow> public_key \<Rightarrow> frame \<Rightarrow> nat \<Rightarrow> token_bucket \<Rightarrow> nat \<Rightarrow> hub \<times> token_bucket" where
  "handle_inbound h from frame self_tx bucket now =
     (case frame of
        SendPacket _ _ \<Rightarrow>
          let (bucket, ok) = allow bucket now
          in if \<not> ok then (h, bucket)
             else (case route_session h from (Some self_tx) frame of
                     (h, RoutedPeerGone dst) \<Rightarrow> (fst (hub_try_send h self_tx (PeerGone dst)), bucket)
                   | (h, _) \<Rightarrow> (h, bucket))
      | Ping data \<Rightarrow> (fst (hub_try_send h self_tx (Pong data)), bucket)
      | _ \<Rightarrow> (h, bucket))"

text \<open>
  A connection that passed the handshake: its key, its channel, the link session its lease
  holds, its bucket and what has been written to its stream.
\<close>

record client =
  cl_key :: public_key
  cl_tx :: nat
  cl_session :: nat
  cl_bucket :: token_bucket
  cl_written :: "frame list"

record relay_server =
  srv_hub :: hub
  srv_clients :: "nat \<rightharpoonup> client"

text \<open>
  The steps of the server. The link layer authenticates a session \<open>sid\<close> for the key
  \<open>peer_of sid\<close>; a connection arrives with such a session of its own; the pump of a registered connection handles an inbound frame or
  writes an outbound one; and a connection ends, for whatever reason, by unregistering
  itself, dropping its receiver and its lease.
\<close>

inductive relay_step ::
    "relay_config \<Rightarrow> (public_key \<Rightarrow> u32 \<Rightarrow> bool) \<Rightarrow> (nat \<Rightarrow> public_key) \<Rightarrow> relay_server \<Rightarrow> relay_server
       \<Rightarrow> bool"
  for cfg authorize peer_of where
  accept: "client_handshake authorize (peer_of sid) (Some first) = Inr (Some pubkey) \<Longrightarrow>
     srv_clients s cid = None \<Longrightarrow> sid \<in> active_sessions (srv_hub s) \<Longrightarrow>
     \<forall>c \<in> ran (srv_clients s). cl_session c \<noteq> sid \<Longrightarrow>
     connect_authenticated (srv_hub s) pubkey (Some sid) = (h, tx) \<Longrightarrow>
     relay_step cfg authorize peer_of s
       (s\<lparr>srv_hub := h,
          srv_clients := (srv_clients s)(cid \<mapsto> \<lparr>cl_key = pubkey, cl_tx = tx, cl_session = sid,
            cl_bucket = token_bucket_new (cfg_rate_per_sec cfg) (cfg_burst cfg) now,
            cl_written = [ServerInfo (cfg_protocol_version cfg)]\<rparr>)\<rparr>)"
| accept_bonded: "bonded_handshake authorize (active_sessions (srv_hub s)) peer_of link_session packet =
       Inr (Some (sid, pubkey)) \<Longrightarrow>
     srv_clients s cid = None \<Longrightarrow> \<forall>c \<in> ran (srv_clients s). cl_session c \<noteq> sid \<Longrightarrow>
     connect_authenticated (srv_hub s) pubkey (Some sid) = (h, tx) \<Longrightarrow>
     relay_step cfg authorize peer_of s
       (s\<lparr>srv_hub := h,
          srv_clients := (srv_clients s)(cid \<mapsto> \<lparr>cl_key = pubkey, cl_tx = tx, cl_session = sid,
            cl_bucket = token_bucket_new (cfg_rate_per_sec cfg) (cfg_burst cfg) now,
            cl_written = [ServerInfo (cfg_protocol_version cfg)]\<rparr>)\<rparr>)"
| link: "sid \<notin> active_sessions (srv_hub s) \<Longrightarrow>
     \<forall>c \<in> ran (srv_clients s). cl_session c \<noteq> sid \<Longrightarrow>
     relay_step cfg authorize peer_of s
       (s\<lparr>srv_hub := (srv_hub s)\<lparr>active_sessions := insert sid (active_sessions (srv_hub s))\<rparr>\<rparr>)"
| inbound: "srv_clients s cid = Some c \<Longrightarrow> frame_wf frame \<Longrightarrow>
     handle_inbound (srv_hub s) (cl_key c) frame (cl_tx c) (cl_bucket c) now = (h, b) \<Longrightarrow>
     relay_step cfg authorize peer_of s
       (s\<lparr>srv_hub := h, srv_clients := (srv_clients s)(cid \<mapsto> c\<lparr>cl_bucket := b\<rparr>)\<rparr>)"
| inbound_bonded: "srv_clients s cid = Some c \<Longrightarrow> frame_decode packet = Inr (frame, n) \<Longrightarrow>
     handle_inbound (srv_hub s) (cl_key c) frame (cl_tx c) (cl_bucket c) now = (h, b) \<Longrightarrow>
     relay_step cfg authorize peer_of s
       (s\<lparr>srv_hub := h, srv_clients := (srv_clients s)(cid \<mapsto> c\<lparr>cl_bucket := b\<rparr>)\<rparr>)"
| outbound: "srv_clients s cid = Some c \<Longrightarrow> ch_queue (channels (srv_hub s) (cl_tx c)) = f # q \<Longrightarrow>
     relay_step cfg authorize peer_of s
       (s\<lparr>srv_hub := (srv_hub s)\<lparr>channels := (channels (srv_hub s))(cl_tx c :=
             (channels (srv_hub s) (cl_tx c))\<lparr>ch_queue := q\<rparr>)\<rparr>,
          srv_clients := (srv_clients s)(cid \<mapsto> c\<lparr>cl_written := cl_written c @ [f]\<rparr>)\<rparr>)"
| close: "srv_clients s cid = Some c \<Longrightarrow>
     h = disconnect_session (srv_hub s) (cl_key c) (cl_tx c) \<Longrightarrow>
     relay_step cfg authorize peer_of s
       (s\<lparr>srv_hub := h\<lparr>channels := (channels h)(cl_tx c := (channels h (cl_tx c))\<lparr>rx_open := False\<rparr>),
             active_sessions := active_sessions h - {cl_session c}\<rparr>,
          srv_clients := (srv_clients s)(cid := None)\<rparr>)"

inductive relay_reachable ::
    "relay_config \<Rightarrow> (public_key \<Rightarrow> u32 \<Rightarrow> bool) \<Rightarrow> (nat \<Rightarrow> public_key) \<Rightarrow> relay_server \<Rightarrow> bool"
  for cfg authorize peer_of where
  start: "relay_reachable cfg authorize peer_of
     \<lparr>srv_hub = hub_with_capacity (cfg_queue_cap cfg), srv_clients = Map.empty\<rparr>"
| step: "relay_reachable cfg authorize peer_of s \<Longrightarrow> relay_step cfg authorize peer_of s s' \<Longrightarrow>
     relay_reachable cfg authorize peer_of s'"

inductive_cases relay_stepE: "relay_step cfg authorize peer_of s s'"

lemma bonded_handshakeD:
  assumes "bonded_handshake authorize active peer_of link_session packet = Inr (Some (sid, pubkey))"
  shows "sid \<in> active \<and>
    (\<exists>first. client_handshake authorize (peer_of sid) (Some first) = Inr (Some pubkey))"
  using assms by (auto simp: bonded_handshake_def rbind_def split: option.splits if_splits sum.splits)

section \<open>What an inbound frame can change\<close>

text \<open>\<open>h'\<close> differs from \<open>h\<close> at most by one frame at the end of one queue.\<close>

definition queues_frame :: "hub \<Rightarrow> nat \<Rightarrow> frame \<Rightarrow> hub \<Rightarrow> bool" where
  "queues_frame h tx f h' \<longleftrightarrow>
     rx_open (channels h tx) \<and> length (ch_queue (channels h tx)) < ch_cap (channels h tx) \<and>
     h' = h\<lparr>channels := (channels h)(tx := (channels h tx)\<lparr>ch_queue := ch_queue (channels h tx) @ [f]\<rparr>)\<rparr>"

lemma channel_same [simp]: "h\<lparr>channels := (channels h)(tx := channels h tx)\<rparr> = h"
  by simp

lemma hub_try_send_cases:
  "hub_try_send h tx f = (h, Full) \<or> hub_try_send h tx f = (h, Closed) \<or>
   (\<exists>h'. hub_try_send h tx f = (h', Sent) \<and> queues_frame h tx f h')"
  by (auto simp: hub_try_send_def try_send_def queues_frame_def Let_def not_le)

text \<open>
  Every effect of an inbound frame on the hub: nothing, a reply to the sender itself, or the
  packet relayed to its destination under the sender's own key, which happens only while
  the sender's connection is the registered one.
\<close>

lemma handle_inbound_effect:
  assumes "handle_inbound h from frame self_tx b now = (h', b')"
  shows "h' = h \<or>
    (\<exists>f. queues_frame h self_tx f h' \<and> (\<exists>x. f = Pong x \<or> f = PeerGone x)) \<or>
    (\<exists>dst payload self conn. frame = SendPacket dst payload \<and> peers h from = Some self \<and>
       conn_tx self = self_tx \<and> peers h dst = Some conn \<and>
       queues_frame h (conn_tx conn) (RecvPacket from payload) h')"
proof (cases frame)
  case (SendPacket dst payload)
  show ?thesis
  proof (cases "snd (allow b now) \<and> (\<exists>self. peers h from = Some self \<and> conn_tx self = self_tx)")
    case True
    then obtain b1 self where a: "allow b now = (b1, True)" "peers h from = Some self" "conn_tx self = self_tx"
      by (cases "allow b now") auto
    show ?thesis
    proof (cases "peers h dst")
      case None
      then show ?thesis
        using assms a SendPacket hub_try_send_cases [of h self_tx "PeerGone dst"]
        by (auto simp: handle_inbound_def route_session_def)
    next
      case (Some conn)
      then show ?thesis
        using assms a SendPacket hub_try_send_cases [of h self_tx "PeerGone dst"]
          hub_try_send_cases [of h "conn_tx conn" "RecvPacket from payload"]
        by (auto simp: handle_inbound_def route_session_def)
    qed
  next
    case False
    then show ?thesis
      using assms SendPacket
      by (auto simp: handle_inbound_def route_session_def Let_def split: prod.splits option.splits if_splits)
  qed
next
  case (Ping data)
  then show ?thesis
    using assms hub_try_send_cases [of h self_tx "Pong data"] by (auto simp: handle_inbound_def)
qed (use assms in \<open>auto simp: handle_inbound_def\<close>)

section \<open>The invariant of the server\<close>

definition hub_bounded :: "hub \<Rightarrow> bool" where
  "hub_bounded h \<longleftrightarrow> (\<forall>i. length (ch_queue (channels h i)) \<le> queue_cap h \<and> ch_cap (channels h i) \<le> queue_cap h)"

text \<open>No two connections share a channel or a link session.\<close>

definition distinct_clients :: "(nat \<rightharpoonup> client) \<Rightarrow> bool" where
  "distinct_clients m \<longleftrightarrow> (\<forall>i d j e. m i = Some d \<longrightarrow> m j = Some e \<longrightarrow>
     cl_tx d = cl_tx e \<or> cl_session d = cl_session e \<longrightarrow> i = j)"

lemma distinct_clientsD:
  "distinct_clients m \<Longrightarrow> m i = Some d \<Longrightarrow> m j = Some e \<Longrightarrow>
     cl_tx d = cl_tx e \<or> cl_session d = cl_session e \<Longrightarrow> i = j"
  unfolding distinct_clients_def by blast

lemma distinct_clients_insert:
  assumes m: "distinct_clients m" and c: "\<And>i d. m i = Some d \<Longrightarrow> cl_tx d \<noteq> cl_tx c \<and> cl_session d \<noteq> cl_session c"
  shows "distinct_clients (m(cid \<mapsto> c))"
  unfolding distinct_clients_def
proof (intro allI impI)
  fix i d j e
  assume *: "(m(cid \<mapsto> c)) i = Some d" "(m(cid \<mapsto> c)) j = Some e"
    "cl_tx d = cl_tx e \<or> cl_session d = cl_session e"
  show "i = j"
  proof (cases "i = cid \<or> j = cid")
    case True
    then show ?thesis using * c [of i d] c [of j e] by (auto split: if_splits)
  next
    case False
    then show ?thesis using * distinct_clientsD [OF m] by auto
  qed
qed

lemma distinct_clients_delete: "distinct_clients m \<Longrightarrow> distinct_clients (m(cid := None))"
  unfolding distinct_clients_def by (metis fun_upd_apply option.distinct(1))

lemma distinct_clients_replace:
  assumes m: "distinct_clients m" and c: "m cid = Some c" "cl_tx c' = cl_tx c" "cl_session c' = cl_session c"
  shows "distinct_clients (m(cid \<mapsto> c'))"
proof -
  have "distinct_clients ((m(cid := None))(cid \<mapsto> c'))"
  proof (rule distinct_clients_insert [OF distinct_clients_delete [OF m]])
    fix i d assume "(m(cid := None)) i = Some d"
    then have "m i = Some d" "i \<noteq> cid" by (auto split: if_splits)
    then show "cl_tx d \<noteq> cl_tx c' \<and> cl_session d \<noteq> cl_session c'"
      using distinct_clientsD [OF m, of i d cid c] c by auto
  qed
  then show ?thesis by simp
qed

definition clients_ok :: "relay_server \<Rightarrow> bool" where
  "clients_ok s \<longleftrightarrow> distinct_clients (srv_clients s) \<and>
     (\<forall>cid c. srv_clients s cid = Some c \<longrightarrow> cl_tx c < next_channel (srv_hub s))"

text \<open>A registration belongs to a live connection whose proven key it is.\<close>

definition registration_ok :: "(nat \<Rightarrow> public_key) \<Rightarrow> relay_server \<Rightarrow> bool" where
  "registration_ok peer_of s \<longleftrightarrow>
     (\<forall>pk conn. peers (srv_hub s) pk = Some conn \<longrightarrow>
        (\<exists>cid c. srv_clients s cid = Some c \<and> conn_tx conn = cl_tx c \<and> conn_auth conn = Some (cl_session c) \<and>
           cl_key c = pk \<and> peer_of (cl_session c) = pk \<and> cl_session c \<in> active_sessions (srv_hub s)))"

definition relay_inv :: "(nat \<Rightarrow> public_key) \<Rightarrow> relay_server \<Rightarrow> bool" where
  "relay_inv peer_of s \<longleftrightarrow> hub_bounded (srv_hub s) \<and> clients_ok s \<and> registration_ok peer_of s"

lemma queues_frame_fields:
  assumes "queues_frame h tx f h'"
  shows "peers h' = peers h" "next_channel h' = next_channel h" "active_sessions h' = active_sessions h"
    "hub_bounded h \<Longrightarrow> hub_bounded h'"
  using assms by (auto simp: queues_frame_def hub_bounded_def) (metis Suc_leI order_trans)+

lemma handle_inbound_fields:
  assumes "handle_inbound h from frame self_tx b now = (h', b')"
  shows "peers h' = peers h" "next_channel h' = next_channel h" "active_sessions h' = active_sessions h"
    "hub_bounded h \<Longrightarrow> hub_bounded h'"
  using handle_inbound_effect [OF assms] queues_frame_fields by auto

lemma relay_inv_start:
  "relay_inv peer_of \<lparr>srv_hub = hub_with_capacity n, srv_clients = Map.empty\<rparr>"
  by (simp add: relay_inv_def hub_bounded_def clients_ok_def distinct_clients_def registration_ok_def
      hub_with_capacity_def)

lemma registrationE:
  assumes "registration_ok peer_of s" "peers (srv_hub s) pk = Some conn"
  obtains cid c where "srv_clients s cid = Some c" "conn_tx conn = cl_tx c" "conn_auth conn = Some (cl_session c)"
    "cl_key c = pk" "peer_of (cl_session c) = pk" "cl_session c \<in> active_sessions (srv_hub s)"
  using assms unfolding registration_ok_def by blast

lemma accept_inv:
  assumes inv: "relay_inv peer_of s"
    and new: "client_handshake authorize (peer_of sid) (Some first) = Inr (Some pubkey)"
      "srv_clients s cid = None" "sid \<in> active_sessions (srv_hub s)"
      "\<forall>c \<in> ran (srv_clients s). cl_session c \<noteq> sid"
    and con: "connect_authenticated (srv_hub s) pubkey (Some sid) = (h, tx)"
    and c: "cl_key c = pubkey" "cl_tx c = tx" "cl_session c = sid"
  shows "relay_inv peer_of (s\<lparr>srv_hub := h, srv_clients := (srv_clients s)(cid \<mapsto> c)\<rparr>)"
proof -
  have key: "peer_of sid = pubkey"
    using new(1) by (auto simp: client_handshake_def split: frame.splits if_splits)
  have h: "tx = next_channel (srv_hub s)" "next_channel h = Suc tx"
      "peers h = (peers (srv_hub s))(pubkey \<mapsto> \<lparr>conn_tx = tx, conn_auth = Some sid\<rparr>)"
      "active_sessions h = drop_connection (peers (srv_hub s) pubkey) (active_sessions (srv_hub s))"
    using con by (auto simp: connect_authenticated_def Let_def)
  have fresh: "cl_session d \<noteq> sid" if "srv_clients s i = Some d" for i d
    using new(4) that by (auto simp: ran_def)
  have "hub_bounded h"
    using inv con by (auto simp: relay_inv_def hub_bounded_def connect_authenticated_def Let_def)
  moreover have "clients_ok (s\<lparr>srv_hub := h, srv_clients := (srv_clients s)(cid \<mapsto> c)\<rparr>)"
  proof -
    have old: "distinct_clients (srv_clients s)"
        "\<And>i d. srv_clients s i = Some d \<Longrightarrow> cl_tx d < tx"
      using inv h(1) by (simp_all add: relay_inv_def clients_ok_def)
    have "distinct_clients ((srv_clients s)(cid \<mapsto> c))"
    proof (rule distinct_clients_insert [OF old(1)])
      fix i d assume "srv_clients s i = Some d"
      then show "cl_tx d \<noteq> cl_tx c \<and> cl_session d \<noteq> cl_session c"
        using old(2) [of i d] fresh [of i d] c by simp
    qed
    then show ?thesis using old(2) h(2) c(2) by (simp add: clients_ok_def less_SucI)
  qed
  moreover have "registration_ok peer_of (s\<lparr>srv_hub := h, srv_clients := (srv_clients s)(cid \<mapsto> c)\<rparr>)"
    unfolding registration_ok_def
  proof (intro allI impI)
    fix pk conn
    assume reg: "peers (srv_hub (s\<lparr>srv_hub := h, srv_clients := (srv_clients s)(cid \<mapsto> c)\<rparr>)) pk = Some conn"
    have act: "x \<in> active_sessions h"
      if "x \<in> active_sessions (srv_hub s)" "peer_of x \<noteq> pubkey \<or> x = sid" for x
    proof (cases "peers (srv_hub s) pubkey")
      case (Some old)
      then obtain i d where d: "srv_clients s i = Some d" "conn_auth old = Some (cl_session d)"
          "peer_of (cl_session d) = pubkey"
        using inv by (elim registrationE [rotated]) (auto simp: relay_inv_def)
      then have "cl_session d \<noteq> x" using that(2) fresh [OF d(1)] by auto
      then show ?thesis using Some d(2) that(1) h(4) by (simp add: drop_connection_def)
    qed (use that h(4) in \<open>simp add: drop_connection_def\<close>)
    show "\<exists>i d. srv_clients (s\<lparr>srv_hub := h, srv_clients := (srv_clients s)(cid \<mapsto> c)\<rparr>) i = Some d \<and>
        conn_tx conn = cl_tx d \<and> conn_auth conn = Some (cl_session d) \<and> cl_key d = pk \<and>
        peer_of (cl_session d) = pk \<and>
        cl_session d \<in> active_sessions (srv_hub (s\<lparr>srv_hub := h, srv_clients := (srv_clients s)(cid \<mapsto> c)\<rparr>))"
    proof (cases "pk = pubkey")
      case True
      then show ?thesis using reg h(3) c key act [OF new(3)] by (intro exI [of _ cid] exI [of _ c]) auto
    next
      case False
      then have "peers (srv_hub s) pk = Some conn" using reg h(3) by simp
      then obtain i d where d: "srv_clients s i = Some d" "conn_tx conn = cl_tx d"
          "conn_auth conn = Some (cl_session d)" "cl_key d = pk" "peer_of (cl_session d) = pk"
          "cl_session d \<in> active_sessions (srv_hub s)"
        using inv by (elim registrationE [rotated]) (auto simp: relay_inv_def)
      moreover have "i \<noteq> cid" using d(1) new(2) by auto
      ultimately show ?thesis using act [OF d(6)] False by (intro exI [of _ i] exI [of _ d]) auto
    qed
  qed
  ultimately show ?thesis by (simp add: relay_inv_def)
qed

lemma close_inv:
  assumes inv: "relay_inv peer_of s" and c: "srv_clients s cid = Some c"
    and h: "h = disconnect_session (srv_hub s) (cl_key c) (cl_tx c)"
  shows "relay_inv peer_of
    (s\<lparr>srv_hub := h\<lparr>channels := (channels h)(cl_tx c := (channels h (cl_tx c))\<lparr>rx_open := False\<rparr>),
         active_sessions := active_sessions h - {cl_session c}\<rparr>,
       srv_clients := (srv_clients s)(cid := None)\<rparr>)" (is "relay_inv _ ?s'")
proof -
  have f: "channels h = channels (srv_hub s)" "queue_cap h = queue_cap (srv_hub s)"
      "next_channel h = next_channel (srv_hub s)"
    by (simp_all add: h disconnect_session_def hub_disconnect_def split: option.split)
  have peers_h: "peers h pk = Some conn \<Longrightarrow> peers (srv_hub s) pk = Some conn \<and> \<not> (pk = cl_key c \<and> conn_tx conn = cl_tx c)"
    for pk conn
    by (auto simp: h disconnect_session_def hub_disconnect_def split: option.splits if_splits)
  have act: "active_sessions (srv_hub s) - {cl_session c} \<subseteq> active_sessions h"
  proof (cases "\<exists>cur. peers (srv_hub s) (cl_key c) = Some cur \<and> conn_tx cur = cl_tx c")
    case True
    then obtain cur where cur: "peers (srv_hub s) (cl_key c) = Some cur" "conn_tx cur = cl_tx c" by blast
    then obtain i d where d: "srv_clients s i = Some d" "conn_tx cur = cl_tx d" "conn_auth cur = Some (cl_session d)"
      using inv by (elim registrationE [rotated]) (auto simp: relay_inv_def)
    then have "i = cid"
      using inv c cur(2) distinct_clientsD [of "srv_clients s" i d cid c] by (simp add: relay_inv_def clients_ok_def)
    then have "conn_auth cur = Some (cl_session c)" using d c by simp
    then show ?thesis using cur by (auto simp: h disconnect_session_def hub_disconnect_def drop_connection_def)
  qed (auto simp: h disconnect_session_def split: option.splits)
  have "hub_bounded (srv_hub ?s')" using inv f by (auto simp: relay_inv_def hub_bounded_def)
  moreover have "clients_ok ?s'"
    using inv f(3) by (simp add: relay_inv_def clients_ok_def distinct_clients_delete)
  moreover have "registration_ok peer_of ?s'"
    unfolding registration_ok_def
  proof (intro allI impI)
    fix pk conn assume "peers (srv_hub ?s') pk = Some conn"
    then have reg: "peers (srv_hub s) pk = Some conn" "\<not> (pk = cl_key c \<and> conn_tx conn = cl_tx c)"
      using peers_h by auto
    then obtain i d where d: "srv_clients s i = Some d" "conn_tx conn = cl_tx d"
        "conn_auth conn = Some (cl_session d)" "cl_key d = pk" "peer_of (cl_session d) = pk"
        "cl_session d \<in> active_sessions (srv_hub s)"
      using inv by (elim registrationE [rotated]) (auto simp: relay_inv_def)
    have "i \<noteq> cid" using d c reg(2) by auto
    moreover have "cl_session d \<noteq> cl_session c"
      using inv d(1) c \<open>i \<noteq> cid\<close> distinct_clientsD [of "srv_clients s" i d cid c]
      by (auto simp: relay_inv_def clients_ok_def)
    ultimately show "\<exists>i d. srv_clients ?s' i = Some d \<and> conn_tx conn = cl_tx d \<and>
        conn_auth conn = Some (cl_session d) \<and> cl_key d = pk \<and> peer_of (cl_session d) = pk \<and>
        cl_session d \<in> active_sessions (srv_hub ?s')"
      using d act by (intro exI [of _ i] exI [of _ d]) auto
  qed
  ultimately show ?thesis by (simp add: relay_inv_def)
qed

text \<open>Changes that keep every client's key, channel and session keep the invariant.\<close>

lemma client_update_inv:
  assumes inv: "relay_inv peer_of s" and c: "srv_clients s cid = Some c"
    and same: "cl_key c' = cl_key c" "cl_tx c' = cl_tx c" "cl_session c' = cl_session c"
    and h: "peers h = peers (srv_hub s)" "next_channel h = next_channel (srv_hub s)"
      "active_sessions h = active_sessions (srv_hub s)" "hub_bounded h"
  shows "relay_inv peer_of (s\<lparr>srv_hub := h, srv_clients := (srv_clients s)(cid \<mapsto> c')\<rparr>)"
proof -
  have "clients_ok (s\<lparr>srv_hub := h, srv_clients := (srv_clients s)(cid \<mapsto> c')\<rparr>)"
    using inv c same(2,3) h(2) distinct_clients_replace [of "srv_clients s" cid c c']
    by (auto simp: relay_inv_def clients_ok_def)
  moreover have "registration_ok peer_of (s\<lparr>srv_hub := h, srv_clients := (srv_clients s)(cid \<mapsto> c')\<rparr>)"
    unfolding registration_ok_def
  proof (intro allI impI)
    fix pk conn
    assume "peers (srv_hub (s\<lparr>srv_hub := h, srv_clients := (srv_clients s)(cid \<mapsto> c')\<rparr>)) pk = Some conn"
    then have "peers (srv_hub s) pk = Some conn" using h(1) by simp
    then obtain i d where d: "srv_clients s i = Some d" "conn_tx conn = cl_tx d"
        "conn_auth conn = Some (cl_session d)" "cl_key d = pk" "peer_of (cl_session d) = pk"
        "cl_session d \<in> active_sessions (srv_hub s)"
      using inv by (elim registrationE [rotated]) (auto simp: relay_inv_def)
    define e where "e = (if i = cid then c' else d)"
    have "cl_tx e = cl_tx d" "cl_session e = cl_session d" "cl_key e = cl_key d"
        "((srv_clients s)(cid \<mapsto> c')) i = Some e"
      using d(1) c same by (auto simp: e_def)
    then show "\<exists>i d. srv_clients (s\<lparr>srv_hub := h, srv_clients := (srv_clients s)(cid \<mapsto> c')\<rparr>) i = Some d \<and>
        conn_tx conn = cl_tx d \<and> conn_auth conn = Some (cl_session d) \<and> cl_key d = pk \<and>
        peer_of (cl_session d) = pk \<and>
        cl_session d \<in> active_sessions (srv_hub (s\<lparr>srv_hub := h, srv_clients := (srv_clients s)(cid \<mapsto> c')\<rparr>))"
      using d(2-6) h(3) by (intro exI [of _ i] exI [of _ e]) simp
  qed
  ultimately show ?thesis using h(4) by (simp add: relay_inv_def)
qed

lemma relay_step_inv:
  assumes "relay_step cfg authorize peer_of s s'" "relay_inv peer_of s"
  shows "relay_inv peer_of s'"
  using assms
proof cases
  case (accept sid first pubkey cid h tx now)
  show ?thesis unfolding accept(1) by (rule accept_inv [OF assms(2) accept(2-6)]) simp_all
next
  case (accept_bonded link_session packet sid pubkey cid h tx now)
  obtain first where "client_handshake authorize (peer_of sid) (Some first) = Inr (Some pubkey)"
      "sid \<in> active_sessions (srv_hub s)"
    using bonded_handshakeD [OF accept_bonded(2)] by blast
  then show ?thesis unfolding accept_bonded(1)
    by (intro accept_inv [OF assms(2) _ accept_bonded(3) _ accept_bonded(4,5)]) simp_all
next
  case (link sid)
  have "registration_ok peer_of s'"
    unfolding registration_ok_def
  proof (intro allI impI)
    fix pk conn assume "peers (srv_hub s') pk = Some conn"
    then have "peers (srv_hub s) pk = Some conn" using link(1) by simp
    then obtain i d where d: "srv_clients s i = Some d" "conn_tx conn = cl_tx d"
        "conn_auth conn = Some (cl_session d)" "cl_key d = pk" "peer_of (cl_session d) = pk"
        "cl_session d \<in> active_sessions (srv_hub s)"
      using assms(2) by (elim registrationE [rotated]) (auto simp: relay_inv_def)
    then show "\<exists>i d. srv_clients s' i = Some d \<and> conn_tx conn = cl_tx d \<and>
        conn_auth conn = Some (cl_session d) \<and> cl_key d = pk \<and> peer_of (cl_session d) = pk \<and>
        cl_session d \<in> active_sessions (srv_hub s')"
      by (intro exI [of _ i] exI [of _ d]) (simp add: link(1))
  qed
  then show ?thesis using assms(2) by (simp add: link(1) relay_inv_def hub_bounded_def clients_ok_def)
next
  case (inbound cid c frame now h b)
  note f = handle_inbound_fields [OF inbound(4)]
  show ?thesis unfolding inbound(1)
    by (rule client_update_inv [OF assms(2) inbound(2)])
      (use f assms(2) in \<open>simp_all add: relay_inv_def\<close>)
next
  case (inbound_bonded cid c packet frame n now h b)
  note f = handle_inbound_fields [OF inbound_bonded(4)]
  show ?thesis unfolding inbound_bonded(1)
    by (rule client_update_inv [OF assms(2) inbound_bonded(2)])
      (use f assms(2) in \<open>simp_all add: relay_inv_def\<close>)
next
  case (outbound cid c f q)
  have "length q \<le> queue_cap (srv_hub s)"
    using assms(2) outbound(3) unfolding relay_inv_def hub_bounded_def by (metis Suc_leD length_Cons)
  then have "hub_bounded ((srv_hub s)\<lparr>channels := (channels (srv_hub s))(cl_tx c :=
      (channels (srv_hub s) (cl_tx c))\<lparr>ch_queue := q\<rparr>)\<rparr>)"
    using assms(2) by (simp add: relay_inv_def hub_bounded_def)
  then show ?thesis unfolding outbound(1)
    by (intro client_update_inv [OF assms(2) outbound(2)]) simp_all
next
  case (close cid c h)
  show ?thesis unfolding close(1) by (rule close_inv [OF assms(2) close(2,3)])
qed

lemma relay_reachable_inv: "relay_reachable cfg authorize peer_of s \<Longrightarrow> relay_inv peer_of s"
  by (induction rule: relay_reachable.induct) (auto intro: relay_inv_start relay_step_inv)

section \<open>Rate limiting\<close>

definition bucket_ok :: "token_bucket \<Rightarrow> bool" where
  "bucket_ok b \<longleftrightarrow> 0 \<le> tb_tokens b \<and> tb_tokens b \<le> tb_capacity b \<and> tb_capacity b \<le> 2 ^ 32 \<and> 0 < tb_rate_per_sec b"

lemma token_bucket_new_ok: "bucket_ok (token_bucket_new rate burst now)"
proof -
  have "unat (max burst 1) \<le> 2 ^ 32" using unsigned_less [of "max burst 1", where 'a = nat] by simp
  then have "(of_nat (unat (max burst 1)) :: rat) \<le> of_nat (2 ^ 32)" by (simp only: of_nat_le_iff)
  moreover have "0 < unat (max rate 1)" by (auto simp: max_def unat_gt_0)
  ultimately show ?thesis by (simp add: bucket_ok_def token_bucket_new_def del: of_nat_unat)
qed

text \<open>What the two operations on the tokens add by rounding.\<close>

lemma refill_bound:
  assumes "0 \<le> t" "t \<le> cap" "0 < r"
  shows "0 \<le> min (f64 (t + f64 (as_secs_f64 n * r))) cap"
    "min (f64 (t + f64 (as_secs_f64 n * r))) cap \<le> t + of_nat n / 1000000000 * r * (1 + 1 / 2 ^ 53) ^ 4 + cap / 2 ^ 53"
proof -
  let ?e = "1 + 1 / 2 ^ 53 :: rat"
  define x where "x = f64 (as_secs_f64 n * r)"
  have prod: "0 \<le> as_secs_f64 n * r" "as_secs_f64 n * r \<le> of_nat n / 1000000000 * ?e ^ 3 * r"
    using as_secs_f64_bounds [of n] assms(3) by (auto intro: mult_right_mono)
  have x: "0 \<le> x" "x \<le> of_nat n / 1000000000 * r * ?e ^ 4"
    unfolding x_def
    using f64_error(1) [OF prod(1)] f64_le [OF prod] by (simp_all only: power4_eq_xxxx power3_eq_cube mult_ac)
  have y: "0 \<le> t + x" using assms(1) x(1) by simp
  have "f64 (t + x) \<le> t + x + cap / 2 ^ 53" if "t + x \<le> cap"
    using f64_error(2) [OF y] that by (simp add: algebra_simps)
  then have "min (f64 (t + x)) cap \<le> t + x + cap / 2 ^ 53"
    using assms(1,2) by (cases "t + x \<le> cap") (auto simp: min_le_iff_disj)
  then show "min (f64 (t + f64 (as_secs_f64 n * r))) cap \<le> t + of_nat n / 1000000000 * r * ?e ^ 4 + cap / 2 ^ 53"
    using x(2) unfolding x_def by linarith
  show "0 \<le> min (f64 (t + f64 (as_secs_f64 n * r))) cap"
    using f64_error(1) [OF y] assms(1,2) by (simp add: x_def)
qed

lemma spend_bound:
  assumes "1 \<le> t" "t \<le> cap" "cap \<le> 2 ^ 32"
  shows "0 \<le> f64 (t - 1)" "f64 (t - 1) \<le> cap" "f64 (t - 1) + 1 \<le> t + cap / 2 ^ 53"
proof -
  have t: "0 \<le> t - 1" using assms(1) by simp
  have "f64 (t - 1) \<le> (t - 1) + (t - 1) / 2 ^ 53"
    using f64_error(2) [OF t] by (simp only: distrib_left mult_1_right times_divide_eq_right)
  moreover have "(t - 1) / 2 ^ 53 \<le> 1" "(t - 1) / 2 ^ 53 \<le> cap / 2 ^ 53" using assms by simp_all
  ultimately show "f64 (t - 1) \<le> cap" "f64 (t - 1) + 1 \<le> t + cap / 2 ^ 53" using assms(2) by linarith+
qed (use f64_error(1) [of "t - 1"] assms(1) in simp)

lemma allow_ok:
  assumes "bucket_ok b" "tb_last b \<le> now"
  shows "bucket_ok (fst (allow b now))" "tb_last b \<le> tb_last (fst (allow b now))" "tb_last (fst (allow b now)) \<le> now"
    "tb_capacity (fst (allow b now)) = tb_capacity b" "tb_rate_per_sec (fst (allow b now)) = tb_rate_per_sec b"
    "tb_tokens (fst (allow b now)) + (if snd (allow b now) then 1 else 0) \<le>
       tb_tokens b + of_nat (tb_last (fst (allow b now)) - tb_last b) / 1000000000 * tb_rate_per_sec b * (1 + 1 / 2 ^ 53) ^ 4
         + tb_capacity b / 2 ^ 52"
proof -
  define b1 where "b1 = (let elapsed = as_secs_f64 (now - tb_last b) in
    if 0 < elapsed then b\<lparr>tb_tokens := min (f64 (tb_tokens b + f64 (elapsed * tb_rate_per_sec b))) (tb_capacity b), tb_last := now\<rparr> else b)"
  have allow: "allow b now = (if 1 \<le> tb_tokens b1 then (b1\<lparr>tb_tokens := f64 (tb_tokens b1 - 1)\<rparr>, True) else (b1, False))"
    by (simp add: allow_def b1_def Let_def)
  have b: "0 \<le> tb_tokens b" "tb_tokens b \<le> tb_capacity b" "tb_capacity b \<le> 2 ^ 32" "0 < tb_rate_per_sec b"
    using assms(1) by (simp_all add: bucket_ok_def)
  note refill = refill_bound [OF b(1,2,4), of "now - tb_last b"]
  have keep: "tb_capacity b1 = tb_capacity b" "tb_rate_per_sec b1 = tb_rate_per_sec b" "tb_last b \<le> tb_last b1" "tb_last b1 \<le> now"
    using assms(2) by (simp_all add: b1_def Let_def)
  have ok: "bucket_ok b1"
    using refill(1) b by (simp add: b1_def bucket_ok_def Let_def)
  have bound: "tb_tokens b1 \<le> tb_tokens b + of_nat (tb_last b1 - tb_last b) / 1000000000 * tb_rate_per_sec b * (1 + 1 / 2 ^ 53) ^ 4
      + tb_capacity b / 2 ^ 53"
    using refill(2) b(1,2) by (auto simp: b1_def Let_def)
  have cap: "0 \<le> tb_capacity b" using b(1,2) by simp
  have spend: "1 \<le> tb_tokens b1 \<Longrightarrow> 0 \<le> f64 (tb_tokens b1 - 1) \<and> f64 (tb_tokens b1 - 1) \<le> tb_capacity b \<and>
      f64 (tb_tokens b1 - 1) + 1 \<le> tb_tokens b1 + tb_capacity b / 2 ^ 53"
    using spend_bound [of "tb_tokens b1" "tb_capacity b"] ok keep(1) by (simp add: bucket_ok_def)
  show "bucket_ok (fst (allow b now))" using ok spend keep(1) by (simp add: allow bucket_ok_def)
  show "tb_last b \<le> tb_last (fst (allow b now))" "tb_last (fst (allow b now)) \<le> now"
    "tb_capacity (fst (allow b now)) = tb_capacity b" "tb_rate_per_sec (fst (allow b now)) = tb_rate_per_sec b"
    using keep by (simp_all add: allow)
  show "tb_tokens (fst (allow b now)) + (if snd (allow b now) then 1 else 0) \<le>
       tb_tokens b + of_nat (tb_last (fst (allow b now)) - tb_last b) / 1000000000 * tb_rate_per_sec b * (1 + 1 / 2 ^ 53) ^ 4
         + tb_capacity b / 2 ^ 52"
    using bound spend cap by (cases "1 \<le> tb_tokens b1") (auto simp: allow)
qed

lemma sorted_le_last: "sorted xs \<Longrightarrow> x \<in> set xs \<Longrightarrow> x \<le> List.last xs" for x :: nat
  by (induction xs) auto

text \<open>The number of frames a bucket lets through when it is asked at the given times.\<close>

fun allowed_count :: "token_bucket \<Rightarrow> nat list \<Rightarrow> nat" where
  "allowed_count b [] = 0"
| "allowed_count b (now # ts) =
     (let (b', ok) = allow b now in (if ok then 1 else 0) + allowed_count b' ts)"

lemma allowed_count_bound:
  assumes "bucket_ok b" "sorted ts" "\<And>t. t \<in> set ts \<Longrightarrow> tb_last b \<le> t" "tb_last b \<le> fin" "\<And>t. t \<in> set ts \<Longrightarrow> t \<le> fin"
  shows "of_nat (allowed_count b ts) \<le>
    tb_tokens b + of_nat (fin - tb_last b) / 1000000000 * tb_rate_per_sec b * (1 + 1 / 2 ^ 53) ^ 4
      + of_nat (length ts) * tb_capacity b / 2 ^ 52"
  using assms
proof (induction ts arbitrary: b)
  case Nil
  then show ?case by (simp add: bucket_ok_def)
next
  case (Cons now ts)
  have le: "tb_last b \<le> now" and fin: "now \<le> fin" using Cons.prems(3,5) by simp_all
  note a = allow_ok [OF Cons.prems(1) le]
  let ?b = "fst (allow b now)" and ?k = "tb_rate_per_sec b * (1 + 1 / 2 ^ 53) ^ 4"
  have later: "\<And>t. t \<in> set ts \<Longrightarrow> tb_last ?b \<le> t" "tb_last ?b \<le> fin"
    using Cons.prems(2) a(3) fin by (auto intro: order_trans)
  have "of_nat (allowed_count ?b ts) \<le> tb_tokens ?b + of_nat (fin - tb_last ?b) / 1000000000 * ?k
      + of_nat (length ts) * tb_capacity b / 2 ^ 52"
    using Cons.IH [OF a(1) _ later(1) later(2)] Cons.prems(2,5) a(4,5) by (simp add: mult.assoc)
  moreover have "allowed_count b (now # ts) = (if snd (allow b now) then 1 else 0) + allowed_count ?b ts"
    by (simp add: case_prod_unfold Let_def)
  moreover have "(of_nat (fin - tb_last b) :: rat) / 1000000000 * ?k =
      of_nat (tb_last ?b - tb_last b) / 1000000000 * ?k + of_nat (fin - tb_last ?b) / 1000000000 * ?k"
    using a(2) later(2) by (simp add: of_nat_diff algebra_simps diff_divide_distrib)
  moreover have "(of_nat (length (now # ts)) :: rat) * tb_capacity b / 2 ^ 52 =
      tb_capacity b / 2 ^ 52 + of_nat (length ts) * tb_capacity b / 2 ^ 52"
    by (simp add: algebra_simps add_divide_distrib)
  ultimately show ?case using a(6) by (simp only: mult.assoc of_nat_add split: if_splits) (auto split: if_splits)
qed

section \<open>Properties\<close>

text \<open>
  C18. In every reachable state of the relay every outbound queue is within the configured
  depth, and every registered key is the key that the link session of a live connection
  proved, with that session still active: no one is registered under a key they did not
  prove, and a replaced or ended connection leaves no registration behind.
\<close>

theorem relay_registrations_proven:
  assumes "relay_reachable cfg authorize peer_of s"
  shows "(\<forall>i. length (ch_queue (channels (srv_hub s) i)) \<le> queue_cap (srv_hub s)) \<and>
    (\<forall>pk conn. peers (srv_hub s) pk = Some conn \<longrightarrow>
      (\<exists>cid c. srv_clients s cid = Some c \<and> conn_tx conn = cl_tx c \<and> cl_key c = pk \<and>
         peer_of (cl_session c) = pk \<and> cl_session c \<in> active_sessions (srv_hub s)))"
proof -
  have inv: "relay_inv peer_of s" by (rule relay_reachable_inv [OF assms])
  have "\<exists>cid c. srv_clients s cid = Some c \<and> conn_tx conn = cl_tx c \<and> cl_key c = pk \<and>
         peer_of (cl_session c) = pk \<and> cl_session c \<in> active_sessions (srv_hub s)"
    if "peers (srv_hub s) pk = Some conn" for pk conn
    using inv that by (elim registrationE [rotated]) (auto simp: relay_inv_def)
  then show ?thesis using inv by (auto simp: relay_inv_def hub_bounded_def)
qed

theorem relay_registrations_proven_witness:
  "\<exists>s. relay_reachable default_config (allow_all 2) (\<lambda>_. [9]) s \<and> hub_connected (srv_hub s) [9] \<and>
     (\<exists>cid c. srv_clients s cid = Some c \<and> cl_key c = [9] \<and> cl_session c \<in> active_sessions (srv_hub s))"
proof -
  let ?s0 = "\<lparr>srv_hub = hub_with_capacity (cfg_queue_cap default_config), srv_clients = Map.empty\<rparr>"
  let ?s1 = "?s0\<lparr>srv_hub := (srv_hub ?s0)\<lparr>active_sessions := insert 0 (active_sessions (srv_hub ?s0))\<rparr>\<rparr>"
  obtain h tx where h: "connect_authenticated (srv_hub ?s1) [9] (Some 0) = (h, tx)" by fastforce
  have "relay_reachable default_config (allow_all 2) (\<lambda>_. [9]) ?s1"
    by (rule relay_reachable.step [OF relay_reachable.start relay_step.link])
      (simp_all add: hub_with_capacity_def)
  then have reach: "relay_reachable default_config (allow_all 2) (\<lambda>_. [9])
     (?s1\<lparr>srv_hub := h, srv_clients := (srv_clients ?s1)(0 \<mapsto> \<lparr>cl_key = [9], cl_tx = tx, cl_session = 0,
        cl_bucket = token_bucket_new (cfg_rate_per_sec default_config) (cfg_burst default_config) 0,
        cl_written = [ServerInfo (cfg_protocol_version default_config)]\<rparr>)\<rparr>)" (is "relay_reachable _ _ _ ?s2")
    by (rule relay_reachable.step [OF _ relay_step.accept [where first = "ClientInfo [9] 2", OF _ _ _ _ h]])
      (simp_all add: client_handshake_def RELAY_PROTOCOL_VERSION_def allow_all_def)
  obtain conn where conn: "peers (srv_hub ?s2) [9] = Some conn"
    using h by (auto simp: connect_authenticated_def Let_def)
  then have "hub_connected (srv_hub ?s2) [9]" unfolding hub_connected_def by simp
  moreover obtain cid c where "srv_clients ?s2 cid = Some c" "cl_key c = [9]"
      "cl_session c \<in> active_sessions (srv_hub ?s2)"
    using conjunct2 [OF relay_registrations_proven [OF reach]] conn by metis
  ultimately show ?thesis using reach by blast
qed

text \<open>
  C20. A client can only speak for itself: handling a frame of the client with key \<open>from\<close> changes
  nothing, or queues a reply to the client itself, or relays the payload of its
  \<open>SendPacket\<close> to the addressed peer marked as coming from \<open>from\<close>; the latter only while this
  connection is the registered one for \<open>from\<close>, and no other queue, registration or session
  changes.
\<close>

theorem relay_no_spoofing:
  assumes "handle_inbound h from frame self_tx b now = (h', b')"
  shows "h' = h \<or>
    (\<exists>f. queues_frame h self_tx f h' \<and> (\<exists>x. f = Pong x \<or> f = PeerGone x)) \<or>
    (\<exists>dst payload self conn. frame = SendPacket dst payload \<and> peers h from = Some self \<and>
       conn_tx self = self_tx \<and> peers h dst = Some conn \<and>
       queues_frame h (conn_tx conn) (RecvPacket from payload) h')"
  by (rule handle_inbound_effect [OF assms])

definition toy_hub :: hub where
  "toy_hub = fst (hub_connect (fst (hub_connect (hub_with_capacity 4) [1])) [2])"

theorem relay_no_spoofing_witness:
  "\<exists>h' b'. handle_inbound toy_hub [1] (SendPacket [2] [7, 7]) 0 (token_bucket_new 10 3 0) 0 = (h', b') \<and>
     queues_frame toy_hub 1 (RecvPacket [1] [7, 7]) h'"
proof -
  obtain h' b' where e: "handle_inbound toy_hub [1] (SendPacket [2] [7, 7]) 0 (token_bucket_new 10 3 0) 0 = (h', b')"
    by fastforce
  have q: "ch_queue (channels h' 1) = [RecvPacket [1] [7, 7]]"
    using e by (auto simp: handle_inbound_def route_session_def hub_try_send_def try_send_def toy_hub_def
        hub_connect_def connect_authenticated_def hub_with_capacity_def allow_def token_bucket_new_def Let_def)
  have "peers toy_hub [2] = Some \<lparr>conn_tx = 1, conn_auth = None\<rparr>" "ch_queue (channels toy_hub 1) = []"
    by (simp_all add: toy_hub_def hub_connect_def connect_authenticated_def hub_with_capacity_def Let_def)
  then have "queues_frame toy_hub 1 (RecvPacket [1] [7, 7]) h'"
    using relay_no_spoofing [OF e] q by (auto simp: queues_frame_def)
  with e show ?thesis by blast
qed

text \<open>
  C37. The rate limit holds up to rounding: asked at any non-decreasing sequence of times, a fresh
  bucket lets through at most its burst plus its rate times the elapsed seconds, where the float
  arithmetic adds at most a factor \<open>(1 + 2^-53)^4\<close> to the refill and \<open>2^-52\<close> of the burst for each
  time it is asked.
\<close>

theorem rate_limit_bound:
  assumes "sorted (t0 # ts)"
  shows "of_nat (allowed_count (token_bucket_new rate burst t0) ts) \<le>
    (of_nat (unat (max burst 1)) +
       of_nat (List.last (t0 # ts) - t0) / 1000000000 * of_nat (unat (max rate 1)) * (1 + 1 / 2 ^ 53) ^ 4 +
       of_nat (length ts) * of_nat (unat (max burst 1)) / 2 ^ 52 :: rat)"
proof -
  have fin: "t \<le> List.last (t0 # ts)" if "t \<in> set (t0 # ts)" for t
    using assms that by (rule sorted_le_last)
  show ?thesis
    using allowed_count_bound [OF token_bucket_new_ok [of rate burst t0], of ts "List.last (t0 # ts)"] assms fin
    by (simp add: token_bucket_new_def del: of_nat_unat)
qed

theorem rate_limit_bound_witness:
  "of_nat (allowed_count (token_bucket_new 10 3 0) [0, 0, 0, 0]) \<le> (3 + 4 * 3 / 2 ^ 52 :: rat)"
  using rate_limit_bound [of 0 "[0, 0, 0, 0]" 10 3] by simp

end
