(* ===== verification/Address_Pool.thy ===== *)
theory Address_Pool
  imports Fp_Prelude
begin

text \<open>
  What the coordination store relies on in its address allocator: a key keeps the address it
  was given until it is released, and no two keys hold the same one. The client lemmas are
  about a set of assignments, the addresses handed out to the devices in use, that the pool
  has to back.
\<close>

locale address_pool =
  fixes ok :: "'p \<Rightarrow> bool"
    and holds :: "'p \<Rightarrow> 'k \<Rightarrow> 'a option"
    and alloc :: "'p \<Rightarrow> 'k \<Rightarrow> 'e + 'p \<times> 'a"
    and free :: "'p \<Rightarrow> 'k \<Rightarrow> 'p \<times> bool"
  assumes alloc_stable: "holds p k = Some a \<Longrightarrow> alloc p k = Inr (p, a)"
    and alloc_new: "ok p \<Longrightarrow> alloc p k = Inr (p', a) \<Longrightarrow> ok p' \<and> holds p' = (holds p)(k \<mapsto> a)"
    and free_key: "ok p \<Longrightarrow> free p k = (p', b) \<Longrightarrow>
      ok p' \<and> holds p' = (holds p)(k := None) \<and> (b \<longleftrightarrow> holds p k \<noteq> None)"
    and holds_inj: "ok p \<Longrightarrow> holds p k = Some a \<Longrightarrow> holds p k' = Some a \<Longrightarrow> k = k'"
begin

definition backed :: "'p \<Rightarrow> ('k \<times> 'a) set \<Rightarrow> bool" where
  "backed p D \<longleftrightarrow> ok p \<and> (\<forall>(k, a) \<in> D. holds p k = Some a)"

lemma backedD: "backed p D \<Longrightarrow> (k, a) \<in> D \<Longrightarrow> holds p k = Some a"
  by (auto simp: backed_def)

lemma backed_empty: "ok p \<Longrightarrow> backed p {}"
  by (simp add: backed_def)

lemma backed_mono: "backed p D \<Longrightarrow> D' \<subseteq> D \<Longrightarrow> backed p D'"
  by (auto simp: backed_def)

lemma backed_alloc:
  assumes "backed p D" "alloc p k = Inr (p', a)"
  shows "backed p' (insert (k, a) D)"
proof -
  have new: "ok p'" "holds p' = (holds p)(k \<mapsto> a)"
    using alloc_new [OF _ assms(2)] assms(1) by (auto simp: backed_def)
  have "holds p' j = Some b" if "(j, b) \<in> D" for j b
    using backedD [OF assms(1) that] alloc_stable [of p j b] assms(2) new(2) by (cases "j = k") auto
  then show ?thesis using new by (auto simp: backed_def)
qed

lemma backed_free:
  assumes "backed p D" "free p k = (p', b)"
  shows "backed p' {d \<in> D. fst d \<noteq> k}"
  using assms free_key [OF _ assms(2)] by (auto simp: backed_def)

lemma backed_unique: "backed p D \<Longrightarrow> (k, a) \<in> D \<Longrightarrow> (k', a) \<in> D \<Longrightarrow> k = k'"
  by (meson backedD backed_def holds_inj)

text \<open>The addresses that go to different keys in a run of allocations are different.\<close>

lemma alloc_distinct:
  assumes "ok p" "alloc p k = Inr (p', a)" "alloc p' k' = Inr (p'', a')" "k \<noteq> k'"
  shows "a \<noteq> a'"
proof -
  have "backed p'' {(k', a'), (k, a)}"
    using backed_alloc [OF backed_alloc [OF backed_empty [OF assms(1)] assms(2)] assms(3)] by simp
  then show ?thesis using backed_unique [of p'' "{(k', a'), (k, a)}" k a k'] assms(4) by auto
qed

end

end
