(* ===== verification/Hash_Map.thy ===== *)
theory Hash_Map
  imports Fp_Prelude "HOL-Library.Finite_Map" "HOL-Library.List_Lexorder" "HOL-Library.Char_ord"
begin

text \<open>
  \<^verbatim>\<open>std::collections::HashMap\<close>: a finite map. The order in which it is iterated is not specified
  and differs from process to process, so every operation of the sources that iterates a map
  takes the order as an argument, a function from the set of keys to a list of them; all the
  theorems hold for every order that visits each key once.
\<close>

type_synonym 'k iter_order = "'k set \<Rightarrow> 'k list"

definition iter_ok :: "'k iter_order \<Rightarrow> bool" where
  "iter_ok ord \<longleftrightarrow> (\<forall>S. finite S \<longrightarrow> set (ord S) = S \<and> distinct (ord S))"

definition hm_values :: "'k iter_order \<Rightarrow> ('k, 'v) fmap \<Rightarrow> 'v list" where
  "hm_values ord m = map (\<lambda>k. the (fmlookup m k)) (ord (fmdom' m))"

definition hm_keys :: "'k iter_order \<Rightarrow> ('k, 'v) fmap \<Rightarrow> 'k list" where
  "hm_keys ord m = ord (fmdom' m)"

lemma finite_fmdom' [simp]: "finite (fmdom' m)"
  by (simp add: fmdom'_alt_def)

lemma set_hm_values: "iter_ok ord \<Longrightarrow> v \<in> set (hm_values ord m) \<longleftrightarrow> (\<exists>k. fmlookup m k = Some v)"
  unfolding hm_values_def iter_ok_def by (force simp: fmlookup_dom'_iff image_iff)

lemma set_hm_keys: "iter_ok ord \<Longrightarrow> k \<in> set (hm_keys ord m) \<longleftrightarrow> fmlookup m k \<noteq> None"
  by (auto simp: hm_keys_def iter_ok_def fmlookup_dom'_iff)

lemma find_hm_None:
  "iter_ok ord \<Longrightarrow> List.find P (hm_values ord m) = None \<longleftrightarrow> (\<forall>k v. fmlookup m k = Some v \<longrightarrow> \<not> P v)"
  by (auto simp: find_None_iff set_hm_values)

lemma find_hm_Some:
  "iter_ok ord \<Longrightarrow> List.find P (hm_values ord m) = Some v \<Longrightarrow> P v \<and> (\<exists>k. fmlookup m k = Some v)"
  using set_hm_values [of ord v m] by (auto dest!: find_Some_conv_hd)

text \<open>\<^verbatim>\<open>HashMap::retain\<close>.\<close>

definition hm_retain :: "('k \<Rightarrow> 'v \<Rightarrow> bool) \<Rightarrow> ('k, 'v) fmap \<Rightarrow> ('k, 'v) fmap" where
  "hm_retain P m = fmfilter (\<lambda>k. case fmlookup m k of Some v \<Rightarrow> P k v | None \<Rightarrow> False) m"

lemma hm_retain_lookup [simp]:
  "fmlookup (hm_retain P m) k = (case fmlookup m k of Some v \<Rightarrow> if P k v then Some v else None | None \<Rightarrow> None)"
  by (simp add: hm_retain_def split: option.split)

lemma hm_retain_Some: "fmlookup (hm_retain P m) k = Some v \<longleftrightarrow> fmlookup m k = Some v \<and> P k v"
  by (auto split: option.splits)

definition hm_len :: "('k, 'v) fmap \<Rightarrow> nat" where
  "hm_len m = fcard (fmdom m)"

lemma hm_len_retain: "hm_len (hm_retain P m) \<le> hm_len m"
  unfolding hm_len_def hm_retain_def by (rule fcard_mono) auto

lemma hm_len_upd: "hm_len (fmupd k v m) \<le> Suc (hm_len m)"
  by (simp add: hm_len_def fcard_finsert_if)

lemma hm_len_drop: "hm_len (fmdrop k m) \<le> hm_len m"
  unfolding hm_len_def by (rule fcard_mono) auto

lemma hm_len_empty [simp]: "hm_len fmempty = 0"
  by (simp add: hm_len_def)

text \<open>An order to run the model with: that of the keys.\<close>

definition sorted_order :: "'k::linorder iter_order" where
  "sorted_order = sorted_list_of_set"

lemma sorted_order_ok [simp]: "iter_ok sorted_order"
  by (simp add: iter_ok_def sorted_order_def)

end
