(* ===== verification/Fp_Text.thy ===== *)
theory Fp_Text
  imports Fp_Prelude
begin

text \<open>
  The text operations of the Rust standard library the sources use: printing and reading of
  numbers, splitting, trimming and case folding of strings. Strings are lists of characters;
  white space is the ASCII white space. The main fact is a round trip: a printed number is
  read back, whatever follows it.
\<close>

section \<open>Digits\<close>

text \<open>\<^verbatim>\<open>char::to_digit\<close> and \<^verbatim>\<open>char::from_digit\<close>.\<close>

definition to_digit :: "nat \<Rightarrow> char \<Rightarrow> nat option" where
  "to_digit radix c =
     (let v = of_char c :: nat;
          d = (if 48 \<le> v \<and> v \<le> 57 then v - 48
               else if 97 \<le> v \<and> v \<le> 122 then v - 87
               else if 65 \<le> v \<and> v \<le> 90 then v - 55 else radix)
      in if d < radix then Some d else None)"

definition digit_char :: "nat \<Rightarrow> char" where
  "digit_char d = char_of (if d < 10 then 48 + d else 87 + d)"

function show_radix :: "nat \<Rightarrow> nat \<Rightarrow> string" where
  "show_radix r n =
     (if r < 2 \<or> n < r then [digit_char n] else show_radix r (n div r) @ [digit_char (n mod r)])"
  by pat_completeness auto

termination show_radix
  by (relation "measure snd") auto

declare show_radix.simps [simp del]

definition show_dec :: "nat \<Rightarrow> string" where "show_dec = show_radix 10"
definition show_hex :: "nat \<Rightarrow> string" where "show_hex = show_radix 16"

text \<open>
  The digit loop shared by the readers: it accumulates as long as digits come and gives up on
  a value of at least \<open>bound\<close> or on more than \<open>max_digits\<close> digits.
\<close>

fun read_digits :: "nat \<Rightarrow> nat \<Rightarrow> nat option \<Rightarrow> nat \<Rightarrow> nat \<Rightarrow> string \<Rightarrow> (nat \<times> nat \<times> string) option" where
  "read_digits radix bound max_digits acc count [] = Some (acc, count, [])"
| "read_digits radix bound max_digits acc count (c # cs) =
     (case to_digit radix c of
        None \<Rightarrow> Some (acc, count, c # cs)
      | Some d \<Rightarrow>
          if bound \<le> acc * radix + d then None
          else if (case max_digits of Some m \<Rightarrow> m < count + 1 | None \<Rightarrow> False) then None
          else read_digits radix bound max_digits (acc * radix + d) (count + 1) cs)"

definition digit_start :: "nat \<Rightarrow> string \<Rightarrow> bool" where
  "digit_start radix s = (case s of [] \<Rightarrow> False | c # _ \<Rightarrow> to_digit radix c \<noteq> None)"

lemma to_digit_char [simp]:
  assumes "d < r" "r \<le> 36"
  shows "to_digit r (digit_char d) = Some d"
  using assms by (auto simp: to_digit_def digit_char_def Let_def)

lemma show_radix_small: "n < r \<Longrightarrow> show_radix r n = [digit_char n]"
  by (simp add: show_radix.simps)

lemma show_radix_step:
  "2 \<le> r \<Longrightarrow> r \<le> n \<Longrightarrow> show_radix r n = show_radix r (n div r) @ [digit_char (n mod r)]"
  by (subst show_radix.simps) simp

lemma show_radix_ne [simp]: "show_radix r n \<noteq> []"
  by (subst show_radix.simps) simp

lemma length_show_radix:
  assumes "2 \<le> r" "n < r ^ Suc k"
  shows "length (show_radix r n) \<le> Suc k"
  using assms
proof (induction k arbitrary: n)
  case 0
  then show ?case by (simp add: show_radix_small)
next
  case (Suc k)
  show ?case
  proof (cases "n < r")
    case False
    have "n div r < r ^ Suc k" using Suc.prems by (simp add: less_mult_imp_div_less mult.commute)
    then show ?thesis using Suc.IH [of "n div r"] Suc.prems False by (simp add: show_radix_step)
  qed (simp add: show_radix_small)
qed

lemma digit_char_zero_iff: "d < 36 \<Longrightarrow> digit_char d = CHR ''0'' \<longleftrightarrow> d = 0"
proof -
  assume "d < 36"
  have "CHR ''0'' = digit_char 0" by code_simp
  then show ?thesis
    using to_digit_char [of d 36] to_digit_char [of 0 36] \<open>d < 36\<close> by (metis le_refl option.inject zero_less_numeral)
qed

lemma hd_show_radix:
  assumes "2 \<le> r" "r \<le> 36"
  shows "\<exists>d < r. hd (show_radix r n) = digit_char d \<and> (0 < n \<longrightarrow> 0 < d)"
  using assms
proof (induction r n rule: show_radix.induct)
  case (1 r n)
  show ?case
  proof (cases "n < r")
    case False
    have pos: "0 < n div r" using 1(2) False by (simp add: div_greater_zero_iff)
    have "\<exists>d < r. hd (show_radix r (n div r)) = digit_char d \<and> (0 < n div r \<longrightarrow> 0 < d)"
      by (rule 1(1)) (use 1(2,3) False in simp_all)
    then show ?thesis using False 1(2) pos by (auto simp: show_radix_step)
  qed (auto simp: show_radix_small)
qed

text \<open>Reading back what was printed, followed by anything that does not start with a digit.\<close>

definition digits_fit :: "nat option \<Rightarrow> nat \<Rightarrow> bool" where
  "digits_fit md n = (case md of Some m \<Rightarrow> n \<le> m | None \<Rightarrow> True)"

lemma read_digits_digit:
  assumes "d < r" "r \<le> 36" "acc * r + d < bound" "digits_fit md (count + 1)"
  shows "read_digits r bound md acc count (digit_char d # rest) =
    read_digits r bound md (acc * r + d) (count + 1) rest"
  using assms by (auto simp: digits_fit_def split: option.split)

lemma read_digits_append_show:
  assumes "2 \<le> r" "r \<le> 36" "n < bound" "digits_fit md (length (show_radix r n))"
  shows "read_digits r bound md 0 0 (show_radix r n @ rest) =
    read_digits r bound md n (length (show_radix r n)) rest"
  using assms
proof (induction r n arbitrary: rest rule: show_radix.induct)
  case (1 r n)
  show ?case
  proof (cases "n < r")
    case True
    then show ?thesis using 1(2-5) read_digits_digit [of n r 0 bound md 0 rest] by (simp add: show_radix_small)
  next
    case False
    let ?k = "length (show_radix r (n div r))"
    have small: "n div r < bound" using 1(4) by (meson div_le_dividend le_less_trans)
    have step: "show_radix r n = show_radix r (n div r) @ [digit_char (n mod r)]"
      using 1(2) False by (simp add: show_radix_step)
    have fit: "digits_fit md (?k + 1)" "digits_fit md ?k"
      using 1(5) unfolding step by (auto simp: digits_fit_def split: option.splits)
    have "read_digits r bound md 0 0 (show_radix r (n div r) @ digit_char (n mod r) # rest) =
        read_digits r bound md (n div r) ?k (digit_char (n mod r) # rest)"
      by (rule 1(1)) (use 1(2,3) small fit(2) False in simp_all)
    also have "\<dots> = read_digits r bound md n (?k + 1) rest"
      using read_digits_digit [of "n mod r" r "n div r" bound md ?k rest] 1(2-4) fit(1) by simp
    finally show ?thesis unfolding step by simp
  qed
qed

lemma read_digits_stop: "\<not> digit_start r rest \<Longrightarrow> read_digits r bound md n k rest = Some (n, k, rest)"
  by (cases rest) (auto simp: digit_start_def)

lemmas read_digits_show = read_digits_append_show [THEN trans, OF _ _ _ _ read_digits_stop]

lemma read_digits_bound:
  "read_digits r bound md acc k s = Some (n, k', rest) \<Longrightarrow> acc < bound \<Longrightarrow> n < bound"
  by (induction r bound md acc k s rule: read_digits.induct) (auto split: option.splits if_splits)

section \<open>Integers\<close>

text \<open>\<^verbatim>\<open>str::parse\<close> at an unsigned type of \<open>w\<close> bits: an optional plus sign and digits only.\<close>

definition parse_uint :: "nat \<Rightarrow> string \<Rightarrow> nat option" where
  "parse_uint w s =
     (let digits = (case s of c # cs \<Rightarrow> if c = CHR ''+'' then cs else s | [] \<Rightarrow> [])
      in case read_digits 10 (2 ^ w) None 0 0 digits of
           Some (n, count, rest) \<Rightarrow> if 0 < count \<and> rest = [] then Some n else None
         | None \<Rightarrow> None)"

lemma digit_char_plus: "d < 36 \<Longrightarrow> digit_char d \<noteq> CHR ''+''"
proof
  assume "d < 36" "digit_char d = CHR ''+''"
  moreover have "to_digit 36 CHR ''+'' = None" by (simp add: to_digit_def)
  ultimately show False using to_digit_char [of d 36] by simp
qed

lemma parse_uint_show_dec [simp]:
  assumes "n < 2 ^ w"
  shows "parse_uint w (show_dec n) = Some n"
proof -
  obtain c cs where s: "show_dec n = c # cs" by (cases "show_dec n") (auto simp: show_dec_def)
  have "\<exists>d < 10. c = digit_char d" using hd_show_radix [of 10 n] s by (auto simp: show_dec_def)
  then have "c \<noteq> CHR ''+''" by (auto simp: digit_char_plus)
  moreover have "read_digits 10 (2 ^ w) None 0 0 (show_dec n) = Some (n, length (show_dec n), [])"
    using read_digits_show [of 10 n "2 ^ w" None "[]"] assms by (simp add: show_dec_def digit_start_def digits_fit_def)
  ultimately show ?thesis by (simp add: parse_uint_def s)
qed

lemma parse_uint_bound: "parse_uint w s = Some n \<Longrightarrow> n < 2 ^ w"
  unfolding parse_uint_def Let_def
  by (auto split: option.splits if_splits dest: read_digits_bound)

lemma show_dec_inj: "show_dec m = show_dec n \<Longrightarrow> m = n"
proof -
  assume eq: "show_dec m = show_dec n"
  have lt: "k < 2 ^ (m + n)" if "k = m \<or> k = n" for k
  proof -
    have "k \<le> m + n" using that by auto
    also have "m + n < 2 ^ (m + n)" by (rule less_exp)
    finally show ?thesis .
  qed
  have "Some m = parse_uint (m + n) (show_dec m)" using lt by simp
  also have "\<dots> = Some n" using lt by (simp add: eq)
  finally show ?thesis by simp
qed

section \<open>Splitting, trimming and case\<close>

text \<open>\<^verbatim>\<open>str::split_once\<close>, \<^verbatim>\<open>str::split\<close> at any of a set of characters, \<^verbatim>\<open>str::trim\<close>,
  \<^verbatim>\<open>str::lines\<close>, \<^verbatim>\<open>str::strip_prefix\<close> and \<^verbatim>\<open>strip_suffix\<close> for one character.\<close>

fun split_once :: "char \<Rightarrow> string \<Rightarrow> (string \<times> string) option" where
  "split_once c [] = None"
| "split_once c (d # ds) =
     (if d = c then Some ([], ds) else map_option (map_prod (Cons d) id) (split_once c ds))"

fun split_any :: "char list \<Rightarrow> string \<Rightarrow> string list" where
  "split_any cs [] = [[]]"
| "split_any cs (d # ds) =
     (if d \<in> set cs then [] # split_any cs ds
      else case split_any cs ds of [] \<Rightarrow> [[d]] | w # ws \<Rightarrow> (d # w) # ws)"

definition is_space :: "char \<Rightarrow> bool" where
  "is_space c \<longleftrightarrow> (let v = of_char c :: nat in v = 32 \<or> 9 \<le> v \<and> v \<le> 13)"

definition trim :: "string \<Rightarrow> string" where
  "trim s = rev (dropWhile is_space (rev (dropWhile is_space s)))"

definition strip_prefix :: "char \<Rightarrow> string \<Rightarrow> string option" where
  "strip_prefix c s = (case s of d # ds \<Rightarrow> if d = c then Some ds else None | [] \<Rightarrow> None)"

definition strip_suffix :: "char \<Rightarrow> string \<Rightarrow> string option" where
  "strip_suffix c s = (if s \<noteq> [] \<and> List.last s = c then Some (butlast s) else None)"

definition to_ascii_lowercase :: "string \<Rightarrow> string" where
  "to_ascii_lowercase =
     map (\<lambda>c. let v = of_char c :: nat in if 65 \<le> v \<and> v \<le> 90 then char_of (v + 32) else c)"

definition eq_ignore_ascii_case :: "string \<Rightarrow> string \<Rightarrow> bool" where
  "eq_ignore_ascii_case a b \<longleftrightarrow> to_ascii_lowercase a = to_ascii_lowercase b"

lemma split_once_append: "c \<notin> set a \<Longrightarrow> split_once c (a @ c # b) = Some (a, b)"
  by (induction a) auto

lemma split_once_None: "split_once c s = None \<longleftrightarrow> c \<notin> set s"
  by (induction s) auto

lemma split_once_Some: "split_once c s = Some (a, b) \<Longrightarrow> s = a @ c # b \<and> c \<notin> set a"
  by (induction s arbitrary: a) (auto split: if_splits)

end
