(* ===== verification/Ip_Text.thy ===== *)
theory Ip_Text
  imports Fp_Text
begin

text \<open>
  The textual form of IP addresses as the Rust standard library has it: \<^verbatim>\<open>FromStr\<close> and
  \<^verbatim>\<open>Display\<close> of \<^verbatim>\<open>Ipv4Addr\<close>, \<^verbatim>\<open>Ipv6Addr\<close> and \<^verbatim>\<open>IpAddr\<close>. Every printed address is read back.
\<close>

section \<open>Readers\<close>

text \<open>A reader takes the remaining input and returns a value with what is left of it.\<close>

definition read_number :: "nat \<Rightarrow> nat \<Rightarrow> nat \<Rightarrow> bool \<Rightarrow> string \<Rightarrow> (nat \<times> string) option" where
  "read_number radix bound max_digits allow_zero_prefix s =
     (case read_digits radix bound (Some max_digits) 0 0 s of
        None \<Rightarrow> None
      | Some (n, count, rest) \<Rightarrow>
          if count = 0 then None
          else if \<not> allow_zero_prefix \<and> take 1 s = ''0'' \<and> 1 < count then None
          else Some (n, rest))"

definition read_given_char :: "char \<Rightarrow> string \<Rightarrow> string option" where
  "read_given_char c s = (case s of [] \<Rightarrow> None | d # cs \<Rightarrow> if d = c then Some cs else None)"

definition read_separator :: "char \<Rightarrow> nat \<Rightarrow> (string \<Rightarrow> ('a \<times> string) option) \<Rightarrow> string \<Rightarrow> ('a \<times> string) option" where
  "read_separator sep index inner s =
     (if 0 < index then Option.bind (read_given_char sep s) inner else inner s)"

abbreviation read_octet :: "nat \<Rightarrow> string \<Rightarrow> (nat \<times> string) option" where
  "read_octet i \<equiv> read_separator CHR ''.'' i (read_number 10 256 3 False)"

definition read_ipv4_addr :: "string \<Rightarrow> (u32 \<times> string) option" where
  "read_ipv4_addr s =
     Option.bind (read_octet 0 s) (\<lambda>(a, s).
     Option.bind (read_octet 1 s) (\<lambda>(b, s).
     Option.bind (read_octet 2 s) (\<lambda>(c, s).
     Option.bind (read_octet 3 s) (\<lambda>(d, s).
       Some (from_be_bytes (map word_of_nat [a, b, c, d]), s)))))"

text \<open>The eight 16-bit segments of an IPv6 address.\<close>

definition ipv6_segments :: "u128 \<Rightarrow> u16 list" where
  "ipv6_segments a = map (\<lambda>i. from_be_bytes (slice (2 * i) (2 * i + 2) (to_be_bytes 16 a))) [0..<8]"

definition ipv6_of_segments :: "u16 list \<Rightarrow> u128" where
  "ipv6_of_segments gs = from_be_bytes (concat (map (to_be_bytes 2) gs))"

text \<open>\<open>read_groups k i s\<close> reads at most \<open>k\<close> further groups, the next one having index \<open>i\<close>; an
  embedded IPv4 address stands for two groups and ends the list.\<close>

fun read_groups :: "nat \<Rightarrow> nat \<Rightarrow> string \<Rightarrow> u16 list \<times> bool \<times> string" where
  "read_groups 0 i s = ([], False, s)"
| "read_groups (Suc k) i s =
     (case (if 0 < k then read_separator CHR '':'' i read_ipv4_addr s else None) of
        Some (v4, s) \<Rightarrow>
          ([from_be_bytes (slice 0 2 (to_be_bytes 4 v4)), from_be_bytes (slice 2 4 (to_be_bytes 4 v4))], True, s)
      | None \<Rightarrow>
          (case read_separator CHR '':'' i (read_number 16 65536 4 True) s of
             Some (g, s) \<Rightarrow>
               (let (gs, v4, s) = read_groups k (i + 1) s in (word_of_nat g # gs, v4, s))
           | None \<Rightarrow> ([], False, s)))"

definition read_ipv6_addr :: "string \<Rightarrow> (u128 \<times> string) option" where
  "read_ipv6_addr s =
     (let (head, head_ipv4, s) = read_groups 8 0 s
      in if length head = 8 then Some (ipv6_of_segments head, s)
         else if head_ipv4 then None
         else Option.bind (read_given_char CHR '':'' s) (\<lambda>s.
              Option.bind (read_given_char CHR '':'' s) (\<lambda>s.
                let (tail, _, s) = read_groups (8 - (length head + 1)) 0 s
                in Some (ipv6_of_segments
                     (head @ replicate (8 - length head - length tail) 0 @ tail), s))))"

text \<open>\<^verbatim>\<open>FromStr\<close> of the three address types.\<close>

definition parse_all :: "('a \<times> string) option \<Rightarrow> 'a option" where
  "parse_all r = (case r of Some (x, rest) \<Rightarrow> if rest = [] then Some x else None | None \<Rightarrow> None)"

definition parse_ipv4 :: "string \<Rightarrow> u32 option" where
  "parse_ipv4 s = (if 15 < length s then None else parse_all (read_ipv4_addr s))"

definition parse_ipv6 :: "string \<Rightarrow> u128 option" where
  "parse_ipv6 s = parse_all (read_ipv6_addr s)"

definition parse_ip :: "string \<Rightarrow> ip_addr option" where
  "parse_ip s =
     parse_all (case read_ipv4_addr s of
                  Some (a, s) \<Rightarrow> Some (IpV4 a, s)
                | None \<Rightarrow> map_option (map_prod IpV6 id) (read_ipv6_addr s))"

text \<open>\<^verbatim>\<open>Display\<close>: dotted decimals; hexadecimal groups with the first longest run of at least two
  zero groups shortened to two colons; IPv4-mapped addresses with the IPv4 part dotted.\<close>

definition show_ipv4 :: "u32 \<Rightarrow> string" where
  "show_ipv4 a =
     (case map (\<lambda>b. show_dec (unat b)) (to_be_bytes 4 a) of
        [p, q, r, s] \<Rightarrow> p @ ''.'' @ q @ ''.'' @ r @ ''.'' @ s | _ \<Rightarrow> [])"

fun fmt_subslice :: "u16 list \<Rightarrow> string" where
  "fmt_subslice [] = []"
| "fmt_subslice [g] = show_hex (unat g)"
| "fmt_subslice (g # gs) = show_hex (unat g) @ '':'' @ fmt_subslice gs"

fun zero_span :: "nat \<Rightarrow> nat \<times> nat \<Rightarrow> nat \<times> nat \<Rightarrow> u16 list \<Rightarrow> nat \<times> nat" where
  "zero_span i current longest [] = longest"
| "zero_span i current longest (g # gs) =
     (if g = 0
      then let current = (if snd current = 0 then (i, 1) else (fst current, snd current + 1))
           in zero_span (i + 1) current (if snd longest < snd current then current else longest) gs
      else zero_span (i + 1) (0, 0) longest gs)"

definition show_ipv6 :: "u128 \<Rightarrow> string" where
  "show_ipv6 a =
     (let octets = to_be_bytes 16 a; gs = ipv6_segments a
      in if take 12 octets = [0, 0, 0, 0, 0, 0, 0, 0, 0, 0, 255, 255]
         then ''::ffff:'' @ show_ipv4 (from_be_bytes (drop 12 octets))
         else let (start, len) = zero_span 0 (0, 0) (0, 0) gs
              in if 1 < len then fmt_subslice (take start gs) @ ''::'' @ fmt_subslice (drop (start + len) gs)
                 else fmt_subslice gs)"

definition show_ip :: "ip_addr \<Rightarrow> string" where
  "show_ip ip = (case ip of IpV4 a \<Rightarrow> show_ipv4 a | IpV6 a \<Rightarrow> show_ipv6 a)"


section \<open>Reading back printed addresses\<close>

lemma read_number_show:
  assumes "r = 10 \<or> r = 16" "n < bound" "length (show_radix r n) \<le> m" "\<not> digit_start r rest"
  shows "read_number r bound m z (show_radix r n @ rest) = Some (n, rest)"
proof -
  have "read_digits r bound (Some m) 0 0 (show_radix r n @ rest) = Some (n, length (show_radix r n), rest)"
    by (rule read_digits_show) (use assms in \<open>auto simp: digits_fit_def\<close>)
  moreover have "\<not> (take 1 (show_radix r n @ rest) = ''0'' \<and> 1 < length (show_radix r n))"
  proof
    assume *: "take 1 (show_radix r n @ rest) = ''0'' \<and> 1 < length (show_radix r n)"
    then have "0 < n" using show_radix_small [of 0 r] assms(1) by (cases "n = 0") auto
    moreover obtain d where "d < r" "hd (show_radix r n) = digit_char d" "0 < n \<longrightarrow> 0 < d"
      using hd_show_radix [of r n] assms(1) by auto
    moreover have "hd (show_radix r n) = CHR ''0''" using * by (cases "show_radix r n") auto
    ultimately show False using digit_char_zero_iff [of d] assms(1) by auto
  qed
  ultimately show ?thesis by (simp add: read_number_def)
qed

lemma length_show_byte: "n < 256 \<Longrightarrow> length (show_radix 10 n) \<le> 3"
  using length_show_radix [of 10 n 2] by simp

lemma length_show_group: "n < 65536 \<Longrightarrow> length (show_radix 16 n) \<le> 4"
  using length_show_radix [of 16 n 3] by simp

lemma unat_octet: "unat (b :: byte) < 256"
  using unsigned_less [of b, where 'a = nat] by simp

lemma digit_start_punct [simp]:
  "\<not> digit_start r []" "r \<le> 36 \<Longrightarrow> \<not> digit_start r (CHR ''.'' # s)" "r \<le> 36 \<Longrightarrow> \<not> digit_start r (CHR '':'' # s)"
  by (auto simp: digit_start_def to_digit_def)

lemma read_octet_show:
  assumes "\<not> digit_start 10 rest"
  shows "read_number 10 256 3 False (show_dec (unat (b :: byte)) @ rest) = Some (unat b, rest)"
  unfolding show_dec_def
  by (rule read_number_show) (use assms unat_octet length_show_byte in auto)

lemma length_4E:
  assumes "length xs = 4"
  obtains x0 x1 x2 x3 where "xs = [x0, x1, x2, x3]"
  using assms by (auto simp: numeral_eq_Suc length_Suc_conv)

lemma read_ipv4_show:
  assumes "\<not> digit_start 10 rest"
  shows "read_ipv4_addr (show_ipv4 a @ rest) = Some (a, rest)"
proof -
  obtain b0 b1 b2 b3 where b: "to_be_bytes 4 a = [b0, b1, b2, b3]" by (rule length_4E [of "to_be_bytes 4 a"]) simp_all
  have "from_be_bytes [b0, b1, b2, b3] = a" using from_to_be_u32 [of a] by (simp add: b)
  then show ?thesis using assms
    by (simp add: read_ipv4_addr_def show_ipv4_def b read_separator_def read_octet_show read_given_char_def)
qed


lemma read_digits_suffix:
  "read_digits r bound md acc k s = Some (n, k', rest) \<Longrightarrow>
    \<exists>p. s = p @ rest \<and> (\<forall>c \<in> set p. to_digit r c \<noteq> None)"
proof (induction r bound md acc k s rule: read_digits.induct)
  case (2 r bound md acc k c cs)
  show ?case
  proof (cases "to_digit r c")
    case (Some d)
    then obtain p where "cs = p @ rest" "\<forall>c \<in> set p. to_digit r c \<noteq> None"
      using 2 by (auto split: if_splits)
    then show ?thesis using Some by (intro exI [of _ "c # p"]) auto
  qed (use 2 in auto)
qed simp

lemma show_radix_digits:
  assumes "2 \<le> r" "r \<le> 36" "c \<in> set (show_radix r n)"
  shows "to_digit r c \<noteq> None"
  using assms
proof (induction r n rule: show_radix.induct)
  case (1 r n)
  then show ?case
    by (cases "n < r") (auto simp: show_radix_small show_radix_step)
qed

lemma to_digit_mono: "to_digit 16 c = None \<Longrightarrow> to_digit 10 c = None"
  by (auto simp: to_digit_def Let_def split: if_splits)

text \<open>A hexadecimal group is never mistaken for the start of an IPv4 address.\<close>

lemma read_ipv4_group:
  assumes "\<forall>c \<in> set p. to_digit 16 c \<noteq> None" "\<not> digit_start 16 rest" "take 1 rest \<noteq> ''.''"
  shows "read_ipv4_addr (p @ rest) = None"
proof (cases "read_number 10 256 3 False (p @ rest)")
  case (Some as)
  obtain n s where as: "as = (n, s)" by (cases as)
  then obtain k where "read_digits 10 256 (Some 3) 0 0 (p @ rest) = Some (n, k, s)"
    using Some by (auto simp: read_number_def split: option.splits prod.splits if_splits)
  then obtain q where q: "p @ rest = q @ s" "\<forall>c \<in> set q. to_digit 10 c \<noteq> None"
    by (auto dest!: read_digits_suffix)
  have dot: "CHR ''.'' \<notin> set p" using assms(1) by (auto simp: to_digit_def)
  have "read_given_char CHR ''.'' s = None"
  proof (rule ccontr)
    assume "read_given_char CHR ''.'' s \<noteq> None"
    then obtain t where s: "s = CHR ''.'' # t"
      by (auto simp: read_given_char_def split: list.splits if_splits)
    from q(1) obtain us where "p = q @ us \<and> us @ rest = s \<or> p @ us = q \<and> rest = us @ s"
      by (auto simp: append_eq_append_conv2)
    then show False
    proof
      assume *: "p = q @ us \<and> us @ rest = s"
      then show False using s dot assms(3) by (cases us) auto
    next
      assume *: "p @ us = q \<and> rest = us @ s"
      then show False using s q(2) assms(2,3) by (cases us) (auto simp: digit_start_def to_digit_mono)
    qed
  qed
  then show ?thesis using Some as by (simp add: read_ipv4_addr_def read_separator_def)
qed (simp add: read_ipv4_addr_def read_separator_def)

lemma unat_group: "unat (g :: u16) < 65536"
  using unsigned_less [of g, where 'a = nat] by simp

definition more_groups :: "u16 list \<Rightarrow> string" where
  "more_groups gs = concat (map (\<lambda>g. CHR '':'' # show_hex (unat g)) gs)"

lemma more_groups_Nil [simp]: "more_groups [] = []"
  by (simp add: more_groups_def)

lemma fmt_subslice_Cons: "fmt_subslice (g # gs) = show_hex (unat g) @ more_groups gs"
  by (induction gs arbitrary: g) (simp_all add: more_groups_def)

text \<open>What can follow a list of groups: something no further group starts with.\<close>

definition groups_end :: "string \<Rightarrow> bool" where
  "groups_end rest \<longleftrightarrow> rest = [] \<or> take 2 rest = ''::''"

lemma groups_endD:
  assumes "groups_end rest"
  shows "\<not> digit_start 16 rest" "take 1 rest \<noteq> ''.''" "read_number 16 65536 4 True rest = None"
    "read_ipv4_addr rest = None" "read_separator CHR '':'' (Suc i) read_ipv4_addr rest = None"
    "read_separator CHR '':'' (Suc i) (read_number 16 65536 4 True) rest = None"
proof -
  obtain t where t: "rest = [] \<or> rest = CHR '':'' # CHR '':'' # t"
    using assms unfolding groups_end_def by (cases rest; cases "tl rest") auto
  have colon: "read_ipv4_addr (CHR '':'' # s) = None" for s
    using read_ipv4_group [of "[]" "CHR '':'' # s"] by simp
  have num: "read_number 16 65536 4 True (CHR '':'' # s) = None" for s
    by (simp add: read_number_def to_digit_def)
  have "read_ipv4_addr [] = None" using read_ipv4_group [of "[]" "[]"] by simp
  then show "\<not> digit_start 16 rest" "take 1 rest \<noteq> ''.''" "read_number 16 65536 4 True rest = None"
    "read_ipv4_addr rest = None" "read_separator CHR '':'' (Suc i) read_ipv4_addr rest = None"
    "read_separator CHR '':'' (Suc i) (read_number 16 65536 4 True) rest = None"
    using t colon num by (auto simp: read_separator_def read_given_char_def read_number_def)
qed

lemma read_group_show:
  assumes "\<not> digit_start 16 rest" "take 1 rest \<noteq> ''.''"
  shows "read_ipv4_addr (show_hex (unat (g :: u16)) @ rest) = None"
    and "read_number 16 65536 4 True (show_hex (unat g) @ rest) = Some (unat g, rest)"
proof -
  show "read_ipv4_addr (show_hex (unat g) @ rest) = None"
    by (rule read_ipv4_group) (use assms show_radix_digits [of 16] in \<open>auto simp: show_hex_def\<close>)
  show "read_number 16 65536 4 True (show_hex (unat g) @ rest) = Some (unat g, rest)"
    unfolding show_hex_def
    by (rule read_number_show) (use assms unat_group length_show_group in auto)
qed

lemma more_groups_head:
  assumes "groups_end rest"
  shows "\<not> digit_start 16 (more_groups gs @ rest)" "take 1 (more_groups gs @ rest) \<noteq> ''.''"
  using assms groups_endD [of rest] by (cases gs; auto simp: more_groups_def)+

lemma read_more_groups:
  assumes "length gs \<le> k" "groups_end rest"
  shows "read_groups k (Suc i) (more_groups gs @ rest) = (gs, False, rest)"
  using assms(1)
proof (induction gs arbitrary: k i)
  case Nil
  then show ?case using groups_endD [OF assms(2)] by (cases k) (auto simp: more_groups_def)
next
  case (Cons g gs)
  then obtain k' where k: "k = Suc k'" "length gs \<le> k'" by (cases k) auto
  have "more_groups (g # gs) @ rest = CHR '':'' # show_hex (unat g) @ more_groups gs @ rest"
    by (simp add: more_groups_def)
  then show ?case
    using read_group_show [OF more_groups_head [OF assms(2)], of g gs] Cons.IH [OF k(2)] k(2)
    by (auto simp: k read_separator_def read_given_char_def)
qed

lemma read_groups_show:
  assumes "length gs \<le> k" "groups_end rest"
  shows "read_groups k 0 (fmt_subslice gs @ rest) = (gs, False, rest)"
proof (cases gs)
  case Nil
  then show ?thesis using groups_endD [OF assms(2)] by (cases k) (auto simp: read_separator_def)
next
  case (Cons g gs')
  then obtain k' where k: "k = Suc k'" "length gs' \<le> k'" using assms(1) by (cases k) auto
  show ?thesis
    using read_group_show [OF more_groups_head [OF assms(2)], of g gs']
      read_more_groups [OF k(2) assms(2), of 0] k(2)
    by (auto simp: Cons k fmt_subslice_Cons read_separator_def)
qed


section \<open>IPv6 segments\<close>

lemma concat_slices: "concat (map (\<lambda>i. slice (2 * i) (2 * i + 2) xs) [0..<n]) = take (2 * n) xs"
proof (induction n)
  case (Suc n)
  then show ?case using take_add [of "2 * n" 2 xs] by (simp add: slice_def add.commute)
qed simp

lemma length_ipv6_segments [simp]: "length (ipv6_segments a) = 8"
  by (simp add: ipv6_segments_def)

lemma ipv6_of_segments_segments [simp]: "ipv6_of_segments (ipv6_segments a) = a"
proof -
  have "map (to_be_bytes 2) (ipv6_segments a) =
      map (\<lambda>i. slice (2 * i) (2 * i + 2) (to_be_bytes 16 a)) [0..<8]"
    unfolding ipv6_segments_def map_map comp_def
    by (rule map_cong) (auto intro!: to_from_be_bytes)
  then have "concat (map (to_be_bytes 2) (ipv6_segments a)) = take 16 (to_be_bytes 16 a)"
    using concat_slices [of "to_be_bytes 16 a" 8] by simp
  then show ?thesis by (simp add: ipv6_of_segments_def)
qed

text \<open>The span the printer shortens consists of zero groups.\<close>

definition zero_run :: "u16 list \<Rightarrow> nat \<Rightarrow> nat \<times> nat \<Rightarrow> bool" where
  "zero_run gs i span \<longleftrightarrow> fst span + snd span \<le> i \<and>
     (\<forall>j. fst span \<le> j \<and> j < fst span + snd span \<longrightarrow> gs ! j = 0)"

lemma zero_span_run:
  assumes "drop i all = gs" "i + length gs = length all"
    "zero_run all i longest" "zero_run all i current" "0 < snd current \<longrightarrow> fst current + snd current = i"
  shows "zero_run all (length all) (zero_span i current longest gs)"
  using assms
proof (induction gs arbitrary: i current longest)
  case Nil
  then show ?case by simp
next
  case (Cons g gs)
  have at: "all ! i = g" "i < length all" using Cons.prems(1,2) by (auto simp: nth_via_drop)
  have rest: "drop (Suc i) all = gs" using Cons.prems(1) by (metis drop_Suc tl_drop list.sel(3))
  have grow: "zero_run all (Suc i) x" if "zero_run all i x" for x
    using that by (auto simp: zero_run_def)
  show ?case
  proof (cases "g = 0")
    case True
    let ?c = "if snd current = 0 then (i, 1) else (fst current, snd current + 1)"
    have c: "zero_run all (Suc i) ?c" "fst ?c + snd ?c = Suc i"
      using Cons.prems(4,5) at(1) True by (auto simp: zero_run_def less_Suc_eq le_less_Suc_eq)
    show ?thesis
      using Cons.IH [of "Suc i" "if snd longest < snd ?c then ?c else longest" ?c]
        Cons.prems at rest c grow [OF Cons.prems(3)] True
      by (simp add: Let_def)
  next
    case False
    have "zero_run all (Suc i) (0, 0)" by (simp add: zero_run_def)
    then show ?thesis
      using Cons.IH [of "Suc i" longest "(0, 0)"] Cons.prems at rest grow [OF Cons.prems(3)] False by simp
  qed
qed

lemma zero_span_split:
  assumes "zero_span 0 (0, 0) (0, 0) gs = (start, len)"
  shows "start + len \<le> length gs" "gs = take start gs @ replicate len 0 @ drop (start + len) gs"
proof -
  have run: "zero_run gs (length gs) (start, len)"
    using zero_span_run [of 0 gs gs "(0, 0)" "(0, 0)"] assms by (simp add: zero_run_def)
  then show le: "start + len \<le> length gs" by (simp add: zero_run_def)
  have "take len (drop start gs) = replicate len 0"
    by (rule nth_equalityI) (use run le in \<open>auto simp: zero_run_def\<close>)
  moreover have "gs = take start gs @ take len (drop start gs) @ drop (start + len) gs"
    by (metis append_take_drop_id drop_drop add.commute)
  ultimately show "gs = take start gs @ replicate len 0 @ drop (start + len) gs" by simp
qed

section \<open>Round trips\<close>

lemma read_ipv6_plain:
  assumes "length gs = 8"
  shows "read_ipv6_addr (fmt_subslice gs) = Some (ipv6_of_segments gs, [])"
  using read_groups_show [of gs 8 "[]"] assms by (simp add: read_ipv6_addr_def groups_end_def)

lemma read_ipv6_short:
  assumes "length head + length tail < 8"
  shows "read_ipv6_addr (fmt_subslice head @ ''::'' @ fmt_subslice tail) =
    Some (ipv6_of_segments (head @ replicate (8 - length head - length tail) 0 @ tail), [])"
  using read_groups_show [of head 8 "''::'' @ fmt_subslice tail"]
    read_groups_show [of tail "8 - (length head + 1)" "[]"] assms
  by (simp add: read_ipv6_addr_def groups_end_def read_given_char_def)


lemma read_ipv4_groups:
  assumes "groups_end rest"
  shows "read_ipv4_addr (fmt_subslice gs @ rest) = None"
  using groups_endD(4) [OF assms] read_group_show(1) [OF more_groups_head [OF assms]]
  by (cases gs) (simp_all add: fmt_subslice_Cons)

lemmas read_groups_numeral = read_groups.simps(2) [of "pred_numeral n" for n, folded numeral_eq_Suc]

lemma read_mapped_tail:
  "read_groups 7 0 (''ffff:'' @ show_ipv4 v) =
     ([0xFFFF, from_be_bytes (slice 0 2 (to_be_bytes 4 v)), from_be_bytes (slice 2 4 (to_be_bytes 4 v))], True, [])"
proof -
  have ffff: "''ffff'' = show_hex (unat (0xFFFF :: u16))"
    by (simp add: show_hex_def show_radix.simps digit_char_def) code_simp
  have g: "read_ipv4_addr (''ffff'' @ '':'' @ show_ipv4 v) = None"
      "read_number 16 65536 4 True (''ffff'' @ '':'' @ show_ipv4 v) = Some (unat (0xFFFF :: u16), '':'' @ show_ipv4 v)"
    unfolding ffff by (rule read_group_show; simp)+
  have "read_groups 6 1 ('':'' @ show_ipv4 v) =
      ([from_be_bytes (slice 0 2 (to_be_bytes 4 v)), from_be_bytes (slice 2 4 (to_be_bytes 4 v))], True, [])"
    using read_ipv4_show [of "[]" v]
    by (simp add: read_groups_numeral read_separator_def read_given_char_def)
  then show ?thesis using g by (simp add: read_groups_numeral [of "Num.Bit1 (Num.Bit1 Num.One)"] read_separator_def)
qed

lemma read_mapped:
  "read_ipv6_addr (''::ffff:'' @ show_ipv4 v) =
     Some (ipv6_of_segments ([0, 0, 0, 0, 0, 0xFFFF,
       from_be_bytes (slice 0 2 (to_be_bytes 4 v)), from_be_bytes (slice 2 4 (to_be_bytes 4 v))]), [])"
proof -
  have "read_groups 8 0 (''::ffff:'' @ show_ipv4 v) = ([], False, ''::ffff:'' @ show_ipv4 v)"
    using read_groups_show [of "[]" 8 "''::ffff:'' @ show_ipv4 v"] by (simp add: groups_end_def)
  moreover have "replicate 5 (0 :: u16) = [0, 0, 0, 0, 0]" by (simp add: numeral_eq_Suc)
  ultimately show ?thesis using read_mapped_tail [of v] by (simp add: read_ipv6_addr_def read_given_char_def)
qed


lemma ipv6_of_mapped:
  assumes "take 12 (to_be_bytes 16 a) = [0, 0, 0, 0, 0, 0, 0, 0, 0, 0, 255, 255]"
    and "d = drop 12 (to_be_bytes 16 a)"
  shows "ipv6_of_segments [0, 0, 0, 0, 0, 0xFFFF, from_be_bytes (slice 0 2 d), from_be_bytes (slice 2 4 d)] = a"
proof -
  have len: "length d = 4" using assms(2) by simp
  have "to_be_bytes 2 (from_be_bytes (slice 0 2 d) :: u16) = slice 0 2 d"
      "to_be_bytes 2 (from_be_bytes (slice 2 4 d) :: u16) = slice 2 4 d"
    using len by (simp_all add: to_from_be_bytes)
  moreover have "slice 0 2 d @ slice 2 4 d = d"
    using len by (simp add: slice_def)
  moreover have "to_be_bytes 2 (0 :: u16) = [0, 0]" "to_be_bytes 2 (0xFFFF :: u16) = [255, 255]"
    by (simp_all add: to_be_bytes_def le_enc_numeral)
  ultimately have "concat (map (to_be_bytes 2) [0, 0, 0, 0, 0, 0xFFFF, from_be_bytes (slice 0 2 d) :: u16,
      from_be_bytes (slice 2 4 d)]) = take 12 (to_be_bytes 16 a) @ d"
    unfolding assms(1) by simp
  also have "\<dots> = to_be_bytes 16 a" unfolding assms(2) by simp
  finally show ?thesis by (simp add: ipv6_of_segments_def)
qed

lemma read_ipv6_show: "read_ipv6_addr (show_ipv6 a) = Some (a, [])"
proof (cases "take 12 (to_be_bytes 16 a) = [0, 0, 0, 0, 0, 0, 0, 0, 0, 0, 255, 255]")
  case True
  let ?d = "drop 12 (to_be_bytes 16 a)"
  have "to_be_bytes 4 (from_be_bytes ?d :: u32) = ?d" by (simp add: to_from_be_bytes)
  then show ?thesis
    using read_mapped [of "from_be_bytes ?d"] ipv6_of_mapped [OF True refl] True by (simp add: show_ipv6_def)
next
  case False
  obtain start len where z: "zero_span 0 (0, 0) (0, 0) (ipv6_segments a) = (start, len)" by fastforce
  note split = zero_span_split [OF z]
  have "start + len \<le> 8" using split(1) by simp
  then have "ipv6_segments a = take start (ipv6_segments a) @
      replicate (8 - length (take start (ipv6_segments a)) - length (drop (start + len) (ipv6_segments a))) 0 @
      drop (start + len) (ipv6_segments a)"
    using split(2) by simp
  then show ?thesis
    using False z split(1) read_ipv6_plain [of "ipv6_segments a"]
      read_ipv6_short [of "take start (ipv6_segments a)" "drop (start + len) (ipv6_segments a)"]
    by (auto simp: show_ipv6_def Let_def)
qed

lemma read_ipv4_show_ipv6: "read_ipv4_addr (show_ipv6 a) = None"
proof -
  have "read_ipv4_addr (''::'' @ s) = None" for s
    using read_ipv4_groups [of "''::'' @ s" "[]"] by (simp add: groups_end_def)
  then show ?thesis
    using read_ipv4_groups [of "[]"] read_ipv4_groups
    by (auto simp: show_ipv6_def Let_def groups_end_def split: prod.split)
qed

lemma length_show_ipv4: "length (show_ipv4 a) \<le> 15"
proof -
  obtain b0 b1 b2 b3 where b: "to_be_bytes 4 a = [b0, b1, b2, b3]"
    by (rule length_4E [of "to_be_bytes 4 a"]) simp_all
  have "length (show_dec (unat (x :: byte))) \<le> 3" for x
    using length_show_byte [OF unat_octet] by (simp add: show_dec_def)
  from this [of b0] this [of b1] this [of b2] this [of b3] show ?thesis
    by (simp add: show_ipv4_def b)
qed

lemma parse_ipv4_show [simp]: "parse_ipv4 (show_ipv4 a) = Some a"
  using read_ipv4_show [of "[]" a] length_show_ipv4 [of a] by (simp add: parse_ipv4_def parse_all_def)

lemma parse_ipv6_show [simp]: "parse_ipv6 (show_ipv6 a) = Some a"
  by (simp add: parse_ipv6_def parse_all_def read_ipv6_show)

lemma parse_ip_show [simp]: "parse_ip (show_ip ip) = Some ip"
  using read_ipv4_show [of "[]"]
  by (cases ip) (simp_all add: show_ip_def parse_ip_def parse_all_def read_ipv4_show_ipv6 read_ipv6_show)

text \<open>The printed form has no other use of the slash.\<close>

lemma show_radix_char:
  assumes "2 \<le> r" "r \<le> 36" "to_digit r c = None"
  shows "c \<notin> set (show_radix r n)"
  using show_radix_digits [OF assms(1,2)] assms(3) by blast

lemma slash_notin_show: "CHR ''/'' \<notin> set (show_dec n)" "CHR ''/'' \<notin> set (show_hex n)"
  unfolding show_dec_def show_hex_def by (rule show_radix_char; simp add: to_digit_def)+

lemma slash_notin_groups: "CHR ''/'' \<notin> set (fmt_subslice gs)"
  by (induction gs rule: fmt_subslice.induct) (simp_all add: slash_notin_show)

lemma slash_notin_ip: "CHR ''/'' \<notin> set (show_ip ip)"
proof -
  have v4: "CHR ''/'' \<notin> set (show_ipv4 a)" for a
    by (auto simp: show_ipv4_def slash_notin_show split: list.split)
  then show ?thesis
    by (cases ip) (auto simp: show_ip_def show_ipv6_def Let_def slash_notin_groups split: prod.split)
qed

end
