(* ===== verification/Ipam.thy ===== *)
theory Ipam
  imports Address_Pool Hash_Map Ip_Text
begin

text \<open>
  The overlay address allocator (control-server/src/ipam.rs): one host number per device key,
  shared by its IPv4 and its IPv6 address. The allocator implements the address pool
  interface; the reserved hosts and the size of the device range are part of the theorem on
  \<^verbatim>\<open>allocate\<close>.
\<close>

section \<open>Allocator\<close>

definition GATEWAY_HOST :: nat where "GATEWAY_HOST = 1"
definition DNS_HOST :: nat where "DNS_HOST = 2"
definition DEVICE_HOST_MIN :: nat where "DEVICE_HOST_MIN = 100"
definition DEVICE_HOST_MAX :: nat where "DEVICE_HOST_MAX = 249"
definition V6_DEVICE_SUBNET :: u16 where "V6_DEVICE_SUBNET = 1"

datatype ipam_error = PoolExhausted

record ipam =
  v4_net :: bytes
  v6_prefix :: "u16 list"
  by_key :: "(string, nat) fmap"
  used :: "bool list"

definition ipam_new :: "u32 \<Rightarrow> u16 list \<Rightarrow> ipam" where
  "ipam_new net prefix =
     \<lparr>v4_net = to_be_bytes 4 net, v6_prefix = prefix, by_key = fmempty, used = replicate 256 False\<rparr>"

definition v4_for :: "ipam \<Rightarrow> nat \<Rightarrow> u32" where
  "v4_for p host = from_be_bytes (take 3 (v4_net p) @ [word_of_nat host])"

definition v6_for :: "ipam \<Rightarrow> nat \<Rightarrow> u128" where
  "v6_for p host = ipv6_of_segments (v6_prefix p @ [V6_DEVICE_SUBNET, 0, 0, 0, word_of_nat host])"

definition allocate :: "ipam \<Rightarrow> string \<Rightarrow> ipam_error + ipam \<times> u32 \<times> u128" where
  "allocate p pubkey =
     (case fmlookup (by_key p) pubkey of
        Some host \<Rightarrow> Inr (p, v4_for p host, v6_for p host)
      | None \<Rightarrow>
          rbind (ok_or PoolExhausted
                   (List.find (\<lambda>h. \<not> used p ! h) [DEVICE_HOST_MIN..<Suc DEVICE_HOST_MAX])) (\<lambda>host.
            let p = p\<lparr>used := (used p)[host := True], by_key := fmupd pubkey host (by_key p)\<rparr>
            in Inr (p, v4_for p host, v6_for p host)))"

text \<open>\<^verbatim>\<open>reserve\<close> and \<^verbatim>\<open>recycle\<close>; the host of \<^verbatim>\<open>reserve\<close> is an octet.\<close>

definition reserve :: "ipam \<Rightarrow> string \<Rightarrow> nat \<Rightarrow> ipam_error + ipam" where
  "reserve p pubkey host =
     (if fmlookup (by_key p) pubkey = Some host then Inr p
      else if used p ! host then Inl PoolExhausted
      else Inr (p\<lparr>used := (used p)[host := True], by_key := fmupd pubkey host (by_key p)\<rparr>))"

definition recycle :: "ipam \<Rightarrow> string \<Rightarrow> ipam \<times> bool" where
  "recycle p pubkey =
     (case fmlookup (by_key p) pubkey of
        Some host \<Rightarrow> (p\<lparr>by_key := fmdrop pubkey (by_key p), used := (used p)[host := False]\<rparr>, True)
      | None \<Rightarrow> (p, False))"

definition allocated_count :: "ipam \<Rightarrow> nat" where
  "allocated_count p = fcard (fmdom (by_key p))"

section \<open>Invariant\<close>

definition ipam_ok :: "ipam \<Rightarrow> bool" where
  "ipam_ok p \<longleftrightarrow>
     length (v4_net p) = 4 \<and> length (v6_prefix p) = 3 \<and> length (used p) = 256 \<and>
     (\<forall>k h. fmlookup (by_key p) k = Some h \<longrightarrow> h < 256 \<and> used p ! h) \<and>
     (\<forall>k k' h. fmlookup (by_key p) k = Some h \<and> fmlookup (by_key p) k' = Some h \<longrightarrow> k = k')"

definition address_of :: "ipam \<Rightarrow> string \<Rightarrow> (u32 \<times> u128) option" where
  "address_of p k = map_option (\<lambda>h. (v4_for p h, v6_for p h)) (fmlookup (by_key p) k)"

lemma ipam_new_ok: "length prefix = 3 \<Longrightarrow> ipam_ok (ipam_new net prefix)"
  by (simp add: ipam_ok_def ipam_new_def)

lemma v4_for_octets:
  assumes "length (v4_net p) = 4"
  shows "to_be_bytes 4 (v4_for p h) = take 3 (v4_net p) @ [word_of_nat h]"
  unfolding v4_for_def by (rule to_from_be_bytes) (use assms in auto)

lemma v4_for_inj:
  assumes "length (v4_net p) = 4" "h < 256" "h' < 256" "v4_for p h = v4_for p h'"
  shows "h = h'"
proof -
  have "(word_of_nat h :: byte) = word_of_nat h'"
    using v4_for_octets [OF assms(1), of h] v4_for_octets [OF assms(1), of h'] assms(4) by simp
  then have "unat (word_of_nat h :: byte) = unat (word_of_nat h' :: byte)" by simp
  then show ?thesis using assms(2,3) by (simp add: unat_of_nat)
qed

lemma same_net [simp]:
  "v4_for (p\<lparr>used := u, by_key := m\<rparr>) = v4_for p" "v6_for (p\<lparr>used := u, by_key := m\<rparr>) = v6_for p"
  "v4_for (p\<lparr>by_key := m, used := u\<rparr>) = v4_for p" "v6_for (p\<lparr>by_key := m, used := u\<rparr>) = v6_for p"
  by (simp_all add: v4_for_def v6_for_def fun_eq_iff)

lemma by_key_inj:
  "ipam_ok p \<Longrightarrow> fmlookup (by_key p) k = Some h \<Longrightarrow> fmlookup (by_key p) k' = Some h \<Longrightarrow> k = k'"
  by (auto simp: ipam_ok_def)

lemma address_of_inj:
  assumes "ipam_ok p" "address_of p k = Some a" "address_of p k' = Some a"
  shows "k = k'"
proof -
  obtain h where h: "fmlookup (by_key p) k = Some h" "fst a = v4_for p h"
    using assms(2) by (auto simp: address_of_def)
  obtain h' where h': "fmlookup (by_key p) k' = Some h'" "fst a = v4_for p h'"
    using assms(3) by (auto simp: address_of_def)
  have net: "length (v4_net p) = 4" "h < 256" "h' < 256"
    using assms(1) h(1) h'(1) by (auto simp: ipam_ok_def)
  have "h = h'" by (rule v4_for_inj [OF net]) (metis h(2) h'(2))
  then show ?thesis using by_key_inj [OF assms(1) h(1)] h'(1) by simp
qed

lemma ipv6_of_segments_inj:
  assumes "length gs = 8" "length hs = 8" "ipv6_of_segments gs = ipv6_of_segments hs"
  shows "gs = hs"
proof -
  have len: "length (concat (map (to_be_bytes 2) xs)) = 16" if "length xs = 8" for xs :: "u16 list"
    using that by (simp add: length_concat comp_def sum_list_triv)
  have "concat (map (to_be_bytes 2) gs) = concat (map (to_be_bytes 2) hs)"
  proof -
    have "to_be_bytes 16 (ipv6_of_segments xs) = concat (map (to_be_bytes 2) xs)" if "length xs = 8" for xs
      unfolding ipv6_of_segments_def by (rule to_from_be_bytes) (simp_all add: len that)
    from this [OF assms(1)] this [OF assms(2)] show ?thesis using assms(3) by metis
  qed
  then have "map (to_be_bytes 2) gs = map (to_be_bytes 2) hs"
  proof (rule concat_injective)
    show "\<forall>(x, y) \<in> set (zip (map (to_be_bytes 2) gs) (map (to_be_bytes 2) hs)). length x = length y"
      by (auto simp: zip_map_map)
  qed (simp add: assms(1,2))
  moreover have "inj (to_be_bytes 2 :: u16 \<Rightarrow> bytes)"
    by (rule inj_on_inverseI [of _ from_be_bytes]) simp
  ultimately show ?thesis by (simp add: inj_map_eq_map)
qed

lemma v6_for_inj:
  assumes "length (v6_prefix p) = 3" "h < 256" "h' < 256" "v6_for p h = v6_for p h'"
  shows "h = h'"
proof -
  have "(word_of_nat h :: u16) = word_of_nat h'"
    using ipv6_of_segments_inj [OF _ _ assms(4) [unfolded v6_for_def]] assms(1) by simp
  then have "unat (word_of_nat h :: u16) = unat (word_of_nat h' :: u16)" by simp
  then show ?thesis using assms(2,3) by (simp add: unat_of_nat)
qed

text \<open>Different keys differ in both families.\<close>

lemma address_of_families:
  assumes "ipam_ok p" "address_of p k = Some a" "address_of p k' = Some b" "k \<noteq> k'"
  shows "fst a \<noteq> fst b \<and> snd a \<noteq> snd b"
proof -
  obtain h h' where h: "fmlookup (by_key p) k = Some h" "fmlookup (by_key p) k' = Some h'"
      "a = (v4_for p h, v6_for p h)" "b = (v4_for p h', v6_for p h')"
    using assms(2,3) by (auto simp: address_of_def)
  have net: "length (v4_net p) = 4" "length (v6_prefix p) = 3" "h < 256" "h' < 256"
    using assms(1) h(1,2) by (auto simp: ipam_ok_def)
  have "h \<noteq> h'" using by_key_inj [OF assms(1) h(1)] h(2) assms(4) by blast
  then show ?thesis using v4_for_inj [OF net(1,3,4)] v6_for_inj [OF net(2,3,4)] h(3,4) by auto
qed

text \<open>Taking a free host for a key, the common step of \<^verbatim>\<open>allocate\<close> and \<^verbatim>\<open>reserve\<close>.\<close>

lemma take_host_ok:
  assumes "ipam_ok p" "h < 256" "\<not> used p ! h"
  shows "ipam_ok (p\<lparr>used := (used p)[h := True], by_key := fmupd k h (by_key p)\<rparr>)"
  using assms by (auto simp: ipam_ok_def nth_list_update split: if_splits)

lemma reserve_ok: "ipam_ok p \<Longrightarrow> h < 256 \<Longrightarrow> reserve p k h = Inr p' \<Longrightarrow> ipam_ok p'"
  by (auto simp: reserve_def split: if_splits intro: take_host_ok)

lemma allocate_cases:
  assumes "allocate p k = Inr (p', a)"
  obtains (known) h where "fmlookup (by_key p) k = Some h" "p' = p" "a = (v4_for p h, v6_for p h)"
  | (new) h where "fmlookup (by_key p) k = None" "DEVICE_HOST_MIN \<le> h" "h \<le> DEVICE_HOST_MAX"
      "\<not> used p ! h" "\<And>j. DEVICE_HOST_MIN \<le> j \<Longrightarrow> j < h \<Longrightarrow> used p ! j"
      "p' = p\<lparr>used := (used p)[h := True], by_key := fmupd k h (by_key p)\<rparr>"
      "a = (v4_for p h, v6_for p h)"
proof (cases "fmlookup (by_key p) k")
  case None
  then obtain h where h: "List.find (\<lambda>h. \<not> used p ! h) [DEVICE_HOST_MIN..<Suc DEVICE_HOST_MAX] = Some h"
      "p' = p\<lparr>used := (used p)[h := True], by_key := fmupd k h (by_key p)\<rparr>"
      "a = (v4_for p h, v6_for p h)"
    using assms by (auto simp: allocate_def rbind_Inr_conv ok_or_Inr_conv)
  note least = find_upt_least [OF h(1)]
  show thesis by (rule new [of h]) (use None h(2,3) least in simp_all)
next
  case (Some h)
  show thesis by (rule known [of h]) (use assms Some in \<open>auto simp: allocate_def\<close>)
qed

lemma recycle_ok:
  assumes "ipam_ok p" "recycle p k = (p', b)"
  shows "ipam_ok p' \<and> address_of p' = (address_of p)(k := None) \<and> (b \<longleftrightarrow> address_of p k \<noteq> None)"
proof (cases "fmlookup (by_key p) k")
  case (Some h)
  then have p': "p' = p\<lparr>by_key := fmdrop k (by_key p), used := (used p)[h := False]\<rparr>" "b"
    using assms(2) by (auto simp: recycle_def)
  have other: "h' \<noteq> h" if "fmlookup (by_key p) k' = Some h'" "k' \<noteq> k" for k' h'
    using assms(1) Some that by (auto simp: ipam_ok_def)
  have hl: "h < length (used p)" using assms(1) Some by (auto simp: ipam_ok_def)
  have "ipam_ok p'" using assms(1) other hl unfolding p'
    by (auto simp: ipam_ok_def nth_list_update split: if_splits)
  moreover have "address_of p' = (address_of p)(k := None)"
    by (auto simp: address_of_def p' fun_eq_iff)
  ultimately show ?thesis using p'(2) Some by (simp add: address_of_def)
qed (use assms in \<open>auto simp: recycle_def address_of_def fun_eq_iff\<close>)

interpretation ipam_pool: address_pool ipam_ok address_of allocate recycle
proof
  fix p p' k k' a b
  show "allocate p k = Inr (p, a)" if "address_of p k = Some a"
    using that by (auto simp: address_of_def allocate_def)
  show "ipam_ok p' \<and> address_of p' = (address_of p)(k \<mapsto> a)"
    if "ipam_ok p" "allocate p k = Inr (p', a)"
    using that(2)
  proof (cases rule: allocate_cases)
    case (new h)
    then have "ipam_ok p'"
      using take_host_ok [OF that(1), of h k] by (simp add: DEVICE_HOST_MAX_def)
    then show ?thesis using new by (auto simp: address_of_def fun_eq_iff)
  qed (use that(1) in \<open>auto simp: address_of_def fun_eq_iff\<close>)
  show "ipam_ok p' \<and> address_of p' = (address_of p)(k := None) \<and> (b \<longleftrightarrow> address_of p k \<noteq> None)"
    if "ipam_ok p" "recycle p k = (p', b)" using that by (rule recycle_ok)
  show "k = k'" if "ipam_ok p" "address_of p k = Some a" "address_of p k' = Some a"
    using that by (rule address_of_inj)
qed

lemma allocate_exhausted:
  assumes "allocate p k = Inl e" "DEVICE_HOST_MIN \<le> h" "h \<le> DEVICE_HOST_MAX"
  shows "fmlookup (by_key p) k = None \<and> used p ! h"
proof (cases "fmlookup (by_key p) k")
  case None
  then have "List.find (\<lambda>h. \<not> used p ! h) [DEVICE_HOST_MIN..<Suc DEVICE_HOST_MAX] = None"
    using assms(1) by (cases "List.find (\<lambda>h. \<not> used p ! h) [DEVICE_HOST_MIN..<Suc DEVICE_HOST_MAX]")
      (auto simp: allocate_def Let_def)
  then show ?thesis using None assms(2,3) unfolding find_upt_None by auto
qed (use assms in \<open>simp add: allocate_def\<close>)

section \<open>Properties\<close>

text \<open>
  C28. Address allocation: on success the key holds the returned dual-stack address, which no
  other key holds, and nobody else's address changes; a key that already had an address keeps
  it, a new key gets the lowest free host of the device range, the same one in both families.
  Allocation fails only for a new key when the whole device range is in use.
\<close>

theorem allocate_correct:
  assumes "ipam_ok p"
  shows "case allocate p k of
    Inr (p', a) \<Rightarrow>
      ipam_ok p' \<and> address_of p' = (address_of p)(k \<mapsto> a) \<and>
      (\<forall>k'. k' \<noteq> k \<longrightarrow> address_of p' k' \<noteq> Some a) \<and>
      (address_of p k \<noteq> None \<longrightarrow> p' = p) \<and>
      (address_of p k = None \<longrightarrow>
        (\<exists>h. DEVICE_HOST_MIN \<le> h \<and> h \<le> DEVICE_HOST_MAX \<and> a = (v4_for p h, v6_for p h) \<and>
           \<not> used p ! h \<and> (\<forall>j. DEVICE_HOST_MIN \<le> j \<and> j < h \<longrightarrow> used p ! j)))
  | Inl e \<Rightarrow>
      address_of p k = None \<and> (\<forall>h. DEVICE_HOST_MIN \<le> h \<and> h \<le> DEVICE_HOST_MAX \<longrightarrow> used p ! h)"
proof (cases "allocate p k")
  case (Inl e)
  have "address_of p k = None"
    using allocate_exhausted [OF Inl, of DEVICE_HOST_MIN]
    by (simp add: address_of_def DEVICE_HOST_MIN_def DEVICE_HOST_MAX_def)
  then show ?thesis using allocate_exhausted [OF Inl] by (simp add: Inl)
next
  case (Inr pa)
  obtain p' a where r: "allocate p k = Inr (p', a)" using Inr by (cases pa) auto
  note new = ipam_pool.alloc_new [OF assms r]
  have uniq: "address_of p' k' \<noteq> Some a" if "k' \<noteq> k" for k'
    using ipam_pool.holds_inj [of p' k a k'] new that by auto
  from r show ?thesis
  proof (cases rule: allocate_cases)
    case (known h)
    have "address_of p k \<noteq> None" by (simp add: address_of_def known(1))
    then show ?thesis using new uniq known(2) by (auto simp: r)
  next
    case (new h)
    have "address_of p k = None" by (simp add: address_of_def new(1))
    moreover have "\<exists>h. DEVICE_HOST_MIN \<le> h \<and> h \<le> DEVICE_HOST_MAX \<and> a = (v4_for p h, v6_for p h) \<and>
           \<not> used p ! h \<and> (\<forall>j. DEVICE_HOST_MIN \<le> j \<and> j < h \<longrightarrow> used p ! j)"
      by (intro exI [of _ h]) (use new in simp)
    ultimately show ?thesis using \<open>ipam_ok p' \<and> _\<close> uniq by (simp add: r)
  qed
qed

theorem allocate_correct_witness:
  "\<exists>p' a. allocate (ipam_new 0x64481000 [0xFD00, 1, 2]) ''key'' = Inr (p', a) \<and> ipam_ok p' \<and>
     address_of p' ''key'' = Some a \<and> fst a = 0x64481064"
proof -
  let ?p = "ipam_new 0x64481000 [0xFD00, 1, 2]"
  have ok: "ipam_ok ?p" by (simp add: ipam_new_ok)
  have "List.find (\<lambda>h. \<not> used ?p ! h) [DEVICE_HOST_MIN..<Suc DEVICE_HOST_MAX] = Some 100"
    by (simp add: ipam_new_def DEVICE_HOST_MIN_def DEVICE_HOST_MAX_def upt_rec [of 100])
  moreover have "fmlookup (by_key ?p) ''key'' = None" by (simp add: ipam_new_def)
  ultimately obtain p' a where r: "allocate ?p ''key'' = Inr (p', a)" "a = (v4_for ?p 100, v6_for ?p 100)"
    by (simp add: allocate_def Let_def del: upt_Suc)
  have "v4_for ?p 100 = 0x64481064"
    by (simp add: v4_for_def ipam_new_def to_be_bytes_def from_be_bytes_def le_enc_numeral)
  then show ?thesis using allocate_correct [OF ok, of "''key''"] r by simp
qed

end
