(* ===== verification/Ip_Prefix.thy ===== *)
theory Ip_Prefix
  imports Ip_Text
begin

text \<open>
  Semantic IP prefixes (sdk/rust/src/prefix.rs): parsing with canonicalisation of the host
  bits, membership and printing. A prefix is determined by the set of addresses it contains,
  and printing is inverted by parsing.
\<close>

unbundle bit_operations_syntax

section \<open>Prefixes\<close>

record ip_prefix =
  pfx_network :: ip_addr
  pfx_length :: nat

datatype prefix_error = InvalidPrefixLength | InvalidAddress | PrefixOutOfRange

definition prefix_mask :: "nat \<Rightarrow> 'a::len word" where
  "prefix_mask len = (if len = 0 then 0 else push_bit (LENGTH('a) - len) (- 1))"

definition prefix_masked :: "ip_addr \<Rightarrow> nat \<Rightarrow> prefix_error + ip_prefix" where
  "prefix_masked address len =
     (case address of
        IpV4 ip \<Rightarrow>
          if len \<le> 32 then Inr \<lparr>pfx_network = IpV4 (ip AND prefix_mask len), pfx_length = len\<rparr>
          else Inl PrefixOutOfRange
      | IpV6 ip \<Rightarrow>
          if len \<le> 128 then Inr \<lparr>pfx_network = IpV6 (ip AND prefix_mask len), pfx_length = len\<rparr>
          else Inl PrefixOutOfRange)"

definition prefix_from_str :: "string \<Rightarrow> prefix_error + ip_prefix" where
  "prefix_from_str value =
     rbind (case split_once CHR ''/'' value of
              Some (address, len) \<Rightarrow>
                rbind (ok_or InvalidPrefixLength (parse_uint 8 len)) (\<lambda>len. Inr (address, Some len))
            | None \<Rightarrow> Inr (value, None)) (\<lambda>(address, len).
     rbind (ok_or InvalidAddress (parse_ip address)) (\<lambda>address.
       prefix_masked address
         (case len of Some len \<Rightarrow> len | None \<Rightarrow> (case address of IpV4 _ \<Rightarrow> 32 | IpV6 _ \<Rightarrow> 128))))"

definition prefix_contains :: "ip_prefix \<Rightarrow> ip_addr \<Rightarrow> bool" where
  "prefix_contains p address =
     (case (pfx_network p, address) of
        (IpV4 network, IpV4 address) \<Rightarrow> address AND prefix_mask (pfx_length p) = network
      | (IpV6 network, IpV6 address) \<Rightarrow> address AND prefix_mask (pfx_length p) = network
      | _ \<Rightarrow> False)"

definition show_prefix :: "ip_prefix \<Rightarrow> string" where
  "show_prefix p = show_ip (pfx_network p) @ ''/'' @ show_dec (pfx_length p)"

section \<open>Canonical prefixes\<close>

text \<open>The values the parser produces: the length fits the family and no host bit is set.\<close>

definition prefix_wf :: "ip_prefix \<Rightarrow> bool" where
  "prefix_wf p =
     (case pfx_network p of
        IpV4 n \<Rightarrow> pfx_length p \<le> 32 \<and> n AND prefix_mask (pfx_length p) = n
      | IpV6 n \<Rightarrow> pfx_length p \<le> 128 \<and> n AND prefix_mask (pfx_length p) = n)"

lemma bit_prefix_mask:
  "len \<le> LENGTH('a) \<Longrightarrow>
    bit (prefix_mask len :: 'a::len word) i \<longleftrightarrow> LENGTH('a) - len \<le> i \<and> i < LENGTH('a)"
  by (auto simp: prefix_mask_def bit_simps)

lemma mask_idem: "(x AND m) AND m = x AND (m :: 'a::len word)"
  by (simp add: and.assoc)

lemma prefix_masked_wf: "prefix_masked address len = Inr p \<Longrightarrow> prefix_wf p"
  by (cases address) (auto simp: prefix_masked_def prefix_wf_def mask_idem split: if_splits)

lemma prefix_masked_id: "prefix_wf p \<Longrightarrow> prefix_masked (pfx_network p) (pfx_length p) = Inr p"
  by (cases p; cases "pfx_network p") (simp_all add: prefix_masked_def prefix_wf_def)

lemma prefix_from_str_wf:
  assumes "prefix_from_str s = Inr p"
  shows "prefix_wf p"
proof -
  from assms obtain address len where "prefix_masked address len = Inr p"
    by (auto simp: prefix_from_str_def rbind_Inr_conv)
  then show ?thesis by (rule prefix_masked_wf)
qed

lemma parse_length_wf: "prefix_wf p \<Longrightarrow> parse_uint 8 (show_dec (pfx_length p)) = Some (pfx_length p)"
  by (rule parse_uint_show_dec) (auto simp: prefix_wf_def split: ip_addr.splits)

lemma prefix_from_show:
  assumes "prefix_wf p"
  shows "prefix_from_str (show_prefix p) = Inr p"
proof -
  have "split_once CHR ''/'' (show_prefix p) = Some (show_ip (pfx_network p), show_dec (pfx_length p))"
    unfolding show_prefix_def using split_once_append [OF slash_notin_ip] by simp
  then show ?thesis using assms parse_length_wf [OF assms]
    by (simp add: prefix_from_str_def prefix_masked_id)
qed

text \<open>Two masks of different length are told apart by the address that differs from the network
  in the highest host bit of the shorter one.\<close>

lemma longer_mask_excludes:
  fixes n :: "'a::len word"
  assumes "l < m" "m \<le> LENGTH('a)" "n AND prefix_mask l = n"
  shows "\<exists>x. x AND prefix_mask l = n \<and> x AND prefix_mask m \<noteq> n AND prefix_mask m"
proof (intro exI conjI)
  let ?i = "LENGTH('a) - m" and ?x = "n XOR push_bit (LENGTH('a) - m) 1"
  have bits: "bit ?x j \<longleftrightarrow> (bit n j \<noteq> (j = ?i))" if "j < LENGTH('a)" for j
    using that assms(1,2) by (auto simp: bit_simps)
  have i: "?i < LENGTH('a)" using assms(1,2) by simp
  show "?x AND prefix_mask l = n"
  proof (rule bit_word_eqI)
    fix j assume j: "j < LENGTH('a)"
    have "bit n j \<longleftrightarrow> bit n j \<and> bit (prefix_mask l :: 'a word) j" by (metis assms(3) bit_and_iff)
    then show "bit (?x AND prefix_mask l) j \<longleftrightarrow> bit n j"
      using bits [OF j] j assms(1,2) by (auto simp: bit_and_iff bit_prefix_mask)
  qed
  show "?x AND prefix_mask m \<noteq> n AND prefix_mask m"
  proof
    assume "?x AND prefix_mask m = n AND prefix_mask m"
    then have "bit (?x AND prefix_mask m) ?i = bit (n AND prefix_mask m) ?i" by simp
    then show False using bits [OF i] i assms(1,2) by (simp add: bit_and_iff bit_prefix_mask)
  qed
qed

lemma prefix_determined:
  fixes n n' :: "'a::len word"
  assumes "l \<le> LENGTH('a)" "m \<le> LENGTH('a)" "n AND prefix_mask l = n" "n' AND prefix_mask m = n'"
    and "\<And>x. x AND prefix_mask l = n \<longleftrightarrow> x AND prefix_mask m = n'"
  shows "l = m \<and> n = n'"
proof -
  have "\<not> l < m" using longer_mask_excludes [of l m n] assms by metis
  moreover have "\<not> m < l" using longer_mask_excludes [of m l n'] assms by metis
  ultimately show ?thesis using assms(3,5) by (metis linorder_neqE_nat)
qed

lemma prefix_eqI:
  assumes "prefix_wf p" "prefix_wf q" "\<And>x. prefix_contains p x = prefix_contains q x"
  shows "p = q"
proof (cases "pfx_network p")
  case p: (IpV4 n)
  then obtain n' where q: "pfx_network q = IpV4 n'"
    using assms(1) assms(3) [of "IpV4 n"] by (cases "pfx_network q") (auto simp: prefix_wf_def prefix_contains_def)
  have "x AND prefix_mask (pfx_length p) = n \<longleftrightarrow> x AND prefix_mask (pfx_length q) = n'" for x
    using assms(3) [of "IpV4 x"] p q by (simp add: prefix_contains_def)
  then have "pfx_length p = pfx_length q \<and> n = n'"
    using assms(1,2) p q by (intro prefix_determined) (simp_all add: prefix_wf_def)
  then show ?thesis using p q by (cases p, cases q) simp
next
  case p: (IpV6 n)
  then obtain n' where q: "pfx_network q = IpV6 n'"
    using assms(1) assms(3) [of "IpV6 n"] by (cases "pfx_network q") (auto simp: prefix_wf_def prefix_contains_def)
  have "x AND prefix_mask (pfx_length p) = n \<longleftrightarrow> x AND prefix_mask (pfx_length q) = n'" for x
    using assms(3) [of "IpV6 x"] p q by (simp add: prefix_contains_def)
  then have "pfx_length p = pfx_length q \<and> n = n'"
    using assms(1,2) p q by (intro prefix_determined) (simp_all add: prefix_wf_def)
  then show ?thesis using p q by (cases p, cases q) simp
qed

section \<open>Properties\<close>

text \<open>
  C38. Prefixes are canonical: whatever text they were parsed from, printing a prefix and parsing
  it again gives the same prefix, and two parsed prefixes that contain the same addresses are
  equal, so their printed forms are too.
\<close>

theorem prefix_canonical:
  assumes "prefix_from_str s = Inr p" "prefix_from_str t = Inr q"
  shows "prefix_from_str (show_prefix p) = Inr p \<and>
    (show_prefix p = show_prefix q \<longleftrightarrow> (\<forall>x. prefix_contains p x \<longleftrightarrow> prefix_contains q x))"
proof -
  note wf = assms [THEN prefix_from_str_wf]
  have "show_prefix p = show_prefix q \<longleftrightarrow> (\<forall>x. prefix_contains p x \<longleftrightarrow> prefix_contains q x)"
  proof
    assume eq: "show_prefix p = show_prefix q"
    have "Inr p = prefix_from_str (show_prefix p)" by (simp add: prefix_from_show [OF wf(1)])
    also have "\<dots> = Inr q" unfolding eq by (rule prefix_from_show [OF wf(2)])
    finally show "\<forall>x. prefix_contains p x \<longleftrightarrow> prefix_contains q x" by simp
  next
    assume "\<forall>x. prefix_contains p x \<longleftrightarrow> prefix_contains q x"
    then have "p = q" by (intro prefix_eqI [OF wf]) simp
    then show "show_prefix p = show_prefix q" by simp
  qed
  then show ?thesis using prefix_from_show [OF wf(1)] by simp
qed

theorem prefix_canonical_witness:
  "\<exists>p q. prefix_from_str (show_ip (IpV4 0x0A020304) @ ''/8'') = Inr p \<and>
     prefix_from_str (show_ip (IpV4 0x0A000000) @ ''/08'') = Inr q \<and> show_prefix p = show_prefix q \<and> pfx_length p = 8"
proof -
  have len: "parse_uint 8 ''8'' = Some 8" "parse_uint 8 ''08'' = Some 8"
    by (simp_all add: parse_uint_def to_digit_def)
  have split: "split_once CHR ''/'' (show_ip ip @ CHR ''/'' # s) = Some (show_ip ip, s)" for ip s
    by (rule split_once_append [OF slash_notin_ip])
  have p: "prefix_from_str (show_ip (IpV4 0x0A020304) @ ''/8'') = Inr \<lparr>pfx_network = IpV4 0x0A000000, pfx_length = 8\<rparr>"
    by (simp add: prefix_from_str_def split len prefix_masked_def prefix_mask_def mask_eq_exp_minus_1)
  have q: "prefix_from_str (show_ip (IpV4 0x0A000000) @ ''/08'') = Inr \<lparr>pfx_network = IpV4 0x0A000000, pfx_length = 8\<rparr>"
    by (simp add: prefix_from_str_def split len prefix_masked_def prefix_mask_def mask_eq_exp_minus_1)
  show ?thesis using prefix_canonical [OF p q] p q by auto
qed

end
