(* ===== verification/Wg_Key.thy ===== *)
theory Wg_Key
  imports Fp_Text
begin

text \<open>
  Public keys as text (sdk/rust/src/key.rs): accepted as hexadecimal or as standard base64,
  stored as lowercase hexadecimal. The two codecs are the crates \<^verbatim>\<open>hex\<close> and \<^verbatim>\<open>base64\<close>, a
  parameter of the model.
\<close>

record key_codec =
  hex_decode :: "string \<Rightarrow> bytes option"
  hex_encode :: "bytes \<Rightarrow> string"
  b64_decode :: "string \<Rightarrow> bytes option"
  b64_encode :: "bytes \<Rightarrow> string"

text \<open>What the crates document: decoding inverts encoding, hexadecimal has two digits per byte,
  and the base64 text of 32 bytes has 44 characters.\<close>

definition key_codec_ok :: "key_codec \<Rightarrow> bool" where
  "key_codec_ok C \<longleftrightarrow>
     (\<forall>b. hex_decode C (hex_encode C b) = Some b \<and> length (hex_encode C b) = 2 * length b \<and>
          b64_decode C (b64_encode C b) = Some b \<and> (length b = 32 \<longrightarrow> length (b64_encode C b) = 44))"

definition key_decode :: "key_codec \<Rightarrow> string \<Rightarrow> bytes option" where
  "key_decode C value =
     Option.bind (if length value = 64 then hex_decode C value else b64_decode C value)
       (\<lambda>b. if length b = 32 then Some b else None)"

definition key_normalize :: "key_codec \<Rightarrow> string \<Rightarrow> string option" where
  "key_normalize C value = map_option (hex_encode C) (key_decode C value)"

lemma key_decode_length: "key_decode C v = Some b \<Longrightarrow> length b = 32"
  by (auto simp: key_decode_def bind_eq_Some_conv split: if_splits)

text \<open>Every encoding of a key decodes to it, and normal forms are stable and unique.\<close>

lemma key_encodings:
  assumes "key_codec_ok C" "length b = 32"
  shows "key_decode C (hex_encode C b) = Some b" "key_decode C (b64_encode C b) = Some b"
  using assms by (auto simp: key_codec_ok_def key_decode_def)

lemma key_normalize_stable:
  assumes "key_codec_ok C" "key_normalize C v = Some k"
  shows "key_normalize C k = Some k" "key_decode C k = key_decode C v"
proof -
  obtain b where b: "key_decode C v = Some b" "k = hex_encode C b"
    using assms(2) by (auto simp: key_normalize_def)
  then have "key_decode C k = Some b"
    using key_encodings(1) [OF assms(1) key_decode_length [OF b(1)]] by simp
  then show "key_normalize C k = Some k" "key_decode C k = key_decode C v"
    using b by (simp_all add: key_normalize_def)
qed

lemma key_normalize_eq:
  assumes "key_codec_ok C" "key_decode C v = Some b" "key_decode C w = Some c"
  shows "key_normalize C v = key_normalize C w \<longleftrightarrow> b = c"
  using assms by (auto simp: key_normalize_def key_codec_ok_def) (metis option.sel)

text \<open>A codec to run the model with: hexadecimal proper, and a padded text for the other one.\<close>

definition toy_hex_encode :: "bytes \<Rightarrow> string" where
  "toy_hex_encode b = concat (map (\<lambda>x. [digit_char (unat x div 16), digit_char (unat x mod 16)]) b)"

fun toy_hex_decode :: "string \<Rightarrow> bytes option" where
  "toy_hex_decode [] = Some []"
| "toy_hex_decode [c] = None"
| "toy_hex_decode (c # d # s) =
     (case (to_digit 16 c, to_digit 16 d, toy_hex_decode s) of
        (Some x, Some y, Some b) \<Rightarrow> Some (word_of_nat (16 * x + y) # b)
      | _ \<Rightarrow> None)"

definition toy_b64_encode :: "bytes \<Rightarrow> string" where
  "toy_b64_encode b =
     (let text = map (\<lambda>x. char_of (unat x)) b
      in if length b = 32 then ''='' @ text @ replicate 11 CHR ''='' else ''x'' @ text)"

definition toy_b64_decode :: "string \<Rightarrow> bytes option" where
  "toy_b64_decode s =
     (let text = (if take 1 s = ''='' then take 32 (tl s) else tl s)
      in Some (map (\<lambda>c. word_of_nat (of_char c)) text))"

definition toy_key_codec :: key_codec where
  "toy_key_codec = \<lparr>hex_decode = toy_hex_decode, hex_encode = toy_hex_encode,
     b64_decode = toy_b64_decode, b64_encode = toy_b64_encode\<rparr>"

lemma toy_hex_inverse: "toy_hex_decode (toy_hex_encode b) = Some b"
proof (induction b)
  case (Cons x b)
  have "unat x div 16 < 16" using unat_byte_less [of x] by (simp add: less_mult_imp_div_less)
  then show ?case using Cons by (simp add: toy_hex_encode_def)
qed (simp add: toy_hex_encode_def)

lemma toy_b64_inverse: "toy_b64_decode (toy_b64_encode b) = Some b"
proof -
  have "map (\<lambda>c. word_of_nat (of_char c) :: byte) (map (\<lambda>x. char_of (unat x)) b) = b"
    by (induction b) simp_all
  then show ?thesis by (simp add: toy_b64_decode_def toy_b64_encode_def Let_def)
qed

lemma toy_key_codec_ok: "key_codec_ok toy_key_codec"
proof -
  have "length (toy_hex_encode b) = 2 * length b" for b
    by (induction b) (simp_all add: toy_hex_encode_def)
  moreover have "length b = 32 \<Longrightarrow> length (toy_b64_encode b) = 44" for b
    by (simp add: toy_b64_encode_def Let_def)
  ultimately show ?thesis
    by (simp add: key_codec_ok_def toy_key_codec_def toy_hex_inverse toy_b64_inverse)
qed

end
