(* ===== verification/Control_Store.thy ===== *)
theory Control_Store
  imports Ipam Ip_Prefix Wg_Key
begin

text \<open>
  The coordination store (control-server/src/state.rs with the entities of domain.rs): networks,
  invites, devices, subnet routes and relays, and the configuration a device pulls.

  Every operation takes the store and returns the new store with its result, errors included.
  What the operation draws from the outside is an argument: random numbers, the codecs for
  keys and the order in which a hash map is iterated. The counters are 64-bit and wrap.
\<close>

section \<open>Entities\<close>

record network =
  net_id :: string
  net_name :: string
  ipv4_pool :: string
  ipv6_ula :: string
  config_epoch :: u64

datatype device_status = Active | Revoked

record device =
  dev_id :: string
  dev_network_id :: string
  dev_name :: string
  wg_public_key :: string
  address_v4 :: "string option"
  address_v6 :: "string option"
  dev_status :: device_status

record invite =
  inv_code :: string
  inv_network_id :: string
  expires_at :: "int option"
  max_uses :: "u32 option"
  inv_uses :: u32

record relay_node =
  rn_id :: string
  rn_region :: string
  rn_url :: string
  rn_network_id :: "string option"
  rn_anytls :: bool
  rn_stun_url :: "string option"
  rn_node_id :: "string option"
  rn_public_key :: "string option"

record route =
  route_id :: string
  route_network_id :: string
  route_device_id :: string
  route_prefix :: string
  approved :: bool

record peer_config =
  pc_public_key :: string
  pc_allowed_ips :: "string list"
  pc_endpoints :: "string list"
  pc_exit :: bool

record device_config =
  overlay_cidrs :: "string list"
  dc_network_id :: string
  dc_config_epoch :: u64
  dc_address_v4 :: "string option"
  dc_address_v6 :: "string option"
  dc_peers :: "peer_config list"
  dc_relays :: "relay_node list"
  dc_mtu :: "int option"
  dc_dns :: "string list"
  dc_self_exit :: bool

record import_device =
  imp_name :: string
  imp_public_key :: string
  imp_address_v4 :: "string option"
  imp_address_v6 :: "string option"
  imp_endpoints :: "string list"

record import_result =
  imp_created :: "device list"
  imp_skipped :: "string list"

definition is_default_prefix :: "string \<Rightarrow> bool" where
  "is_default_prefix prefix = (case prefix_from_str prefix of Inr p \<Rightarrow> pfx_length p = 0 | Inl _ \<Rightarrow> False)"

definition normalize_prefix :: "string \<Rightarrow> string option" where
  "normalize_prefix value =
     (if CHR ''/'' \<notin> set value then None
      else map_option show_prefix (res_ok (prefix_from_str value)))"

definition is_redeemable :: "invite \<Rightarrow> int \<Rightarrow> bool" where
  "is_redeemable invt now =
     ((case expires_at invt of Some e \<Rightarrow> now < e | None \<Rightarrow> True) \<and>
      (case max_uses invt of Some m \<Rightarrow> inv_uses invt < m | None \<Rightarrow> True))"

section \<open>Store\<close>

datatype store_error =
  NetworkNotFound | DeviceNotFound | RouteNotFound | RelayNotFound | InvalidPrefix | InvalidKey |
  InvalidInvite | StorePoolExhausted

text \<open>A watch channel: a value is only taken over while somebody listens.\<close>

record watch =
  w_value :: u64
  w_receivers :: nat

definition watch_send :: "watch \<Rightarrow> u64 \<Rightarrow> watch" where
  "watch_send w v = (if 0 < w_receivers w then w\<lparr>w_value := v\<rparr> else w)"

record store =
  networks :: "(string, network) fmap"
  devices :: "(string, device) fmap"
  invites :: "(string, invite) fmap"
  ipams :: "(string, ipam) fmap"
  routes :: "(string, route) fmap"
  relays :: "(string, relay_node) fmap"
  endpoints :: "(string, string list) fmap"
  epoch_tx :: "(string, watch) fmap"
  seq :: u64
  net_index :: u64

definition bump_epoch :: "store \<Rightarrow> string \<Rightarrow> store" where
  "bump_epoch s network_id =
     (case fmlookup (networks s) network_id of
        None \<Rightarrow> s
      | Some net \<Rightarrow>
          let epoch = config_epoch net + 1;
              s = s\<lparr>networks := fmupd network_id (net\<lparr>config_epoch := epoch\<rparr>) (networks s)\<rparr>
          in (case fmlookup (epoch_tx s) network_id of
                Some tx \<Rightarrow> s\<lparr>epoch_tx := fmupd network_id (watch_send tx epoch) (epoch_tx s)\<rparr>
              | None \<Rightarrow> s))"

definition store_new :: store where
  "store_new = \<lparr>networks = fmempty, devices = fmempty, invites = fmempty, ipams = fmempty, routes = fmempty,
     relays = fmempty, endpoints = fmempty, epoch_tx = fmempty, seq = 1, net_index = 0\<rparr>"

definition next_seq :: "store \<Rightarrow> store \<times> u64" where
  "next_seq s = (s\<lparr>seq := seq s + 1\<rparr>, seq s)"

definition show_id :: "string \<Rightarrow> u64 \<Rightarrow> string" where
  "show_id kind n = kind @ show_dec (unat n)"

definition show_hex4 :: "u16 \<Rightarrow> string" where
  "show_hex4 g = (let h = show_hex (unat g) in replicate (4 - length h) CHR ''0'' @ h)"

definition create_network :: "store \<Rightarrow> string \<Rightarrow> u64 \<Rightarrow> store \<times> network" where
  "create_network s name random =
     (let idx = net_index s;
          s = s\<lparr>net_index := idx + 1\<rparr>;
          octet = unat idx mod 200 + 16;
          global_id = random AND 0xFFFFFFFFFF;
          u0 = 0xFD00 OR (ucast (drop_bit 32 global_id) AND 0x00FF);
          u1 = ucast (drop_bit 16 global_id);
          u2 = ucast global_id;
          (s, n) = next_seq s;
          net = \<lparr>net_id = show_id ''net-'' n, net_name = name,
                 ipv4_pool = ''100.72.'' @ show_dec octet @ ''.0/24'',
                 ipv6_ula = show_hex4 u0 @ '':'' @ show_hex4 u1 @ '':'' @ show_hex4 u2 @ ''::/48'',
                 config_epoch = 0\<rparr>;
          pool = ipam_new (from_be_bytes [100, 72, word_of_nat octet, 0]) [u0, u1, u2]
      in (s\<lparr>ipams := fmupd (net_id net) pool (ipams s),
            epoch_tx := fmupd (net_id net) \<lparr>w_value = 0, w_receivers = 0\<rparr> (epoch_tx s),
            networks := fmupd (net_id net) net (networks s)\<rparr>, net))"

definition list_networks :: "string iter_order \<Rightarrow> store \<Rightarrow> network list" where
  "list_networks ord s = hm_values ord (networks s)"

definition create_invite ::
    "store \<Rightarrow> string \<Rightarrow> string \<Rightarrow> int option \<Rightarrow> u32 option \<Rightarrow> store \<times> (store_error + invite)" where
  "create_invite s code network_id expires limit =
     (if fmlookup (networks s) network_id = None then (s, Inl NetworkNotFound)
      else let invt = \<lparr>inv_code = code, inv_network_id = network_id, expires_at = expires, max_uses = limit, inv_uses = 0\<rparr>
           in (s\<lparr>invites := fmupd code invt (invites s)\<rparr>, Inr invt))"

text \<open>The device a redeemed invite creates, once its address is allocated.\<close>

definition enroll_device :: "store \<Rightarrow> string \<Rightarrow> string \<Rightarrow> string \<Rightarrow> string \<Rightarrow> store \<times> (store_error + device)" where
  "enroll_device s network_id invite_code name key =
     (case fmlookup (ipams s) network_id of
        None \<Rightarrow> (s, Inl NetworkNotFound)
      | Some pool \<Rightarrow>
          (case allocate pool key of
             Inl PoolExhausted \<Rightarrow> (s, Inl StorePoolExhausted)
           | Inr (pool, v4, v6) \<Rightarrow>
               let s = s\<lparr>ipams := fmupd network_id pool (ipams s)\<rparr>;
                   (s, n) = next_seq s;
                   dev = \<lparr>dev_id = show_id ''dev-'' n, dev_network_id = network_id, dev_name = name,
                          wg_public_key = key, address_v4 = Some (show_ipv4 v4),
                          address_v6 = Some (show_ipv6 v6), dev_status = Active\<rparr>;
                   s = (case fmlookup (invites s) invite_code of
                          Some invt \<Rightarrow> s\<lparr>invites := fmupd invite_code (invt\<lparr>inv_uses := inv_uses invt + 1\<rparr>) (invites s)\<rparr>
                        | None \<Rightarrow> s);
                   s = s\<lparr>devices := fmupd (dev_id dev) dev (devices s)\<rparr>
               in (bump_epoch s network_id, Inr dev)))"

definition enroll ::
    "key_codec \<Rightarrow> string iter_order \<Rightarrow> store \<Rightarrow> string \<Rightarrow> string \<Rightarrow> string \<Rightarrow> int \<Rightarrow> store \<times> (store_error + device)" where
  "enroll C ord s invite_code name key now =
     (case key_normalize C key of
        None \<Rightarrow> (s, Inl InvalidKey)
      | Some key \<Rightarrow>
          (case fmlookup (invites s) invite_code of
             None \<Rightarrow> (s, Inl InvalidInvite)
           | Some invt \<Rightarrow>
               if (case expires_at invt of Some expiry \<Rightarrow> expiry \<le> now | None \<Rightarrow> False) then (s, Inl InvalidInvite)
               else (case List.find (\<lambda>d. dev_network_id d = inv_network_id invt \<and> dev_status d = Active \<and>
                                wg_public_key d = key) (hm_values ord (devices s)) of
                       Some d \<Rightarrow> (s, Inr d)
                     | None \<Rightarrow>
                         if \<not> is_redeemable invt now then (s, Inl InvalidInvite)
                         else enroll_device s (inv_network_id invt) invite_code name key)))"

text \<open>One entry of a batch import: skipped when its key is already known, otherwise its fixed
  address is reserved where possible and the device is created.\<close>

definition import_one ::
    "string \<Rightarrow> import_device \<Rightarrow> string \<Rightarrow> store \<times> string set \<times> import_result \<Rightarrow> store \<times> string set \<times> import_result" where
  "import_one network_id d key = (\<lambda>(s, seen, res).
     if key \<in> seen then (s, seen, res\<lparr>imp_skipped := imp_skipped res @ [key]\<rparr>)
     else
       let seen = insert key seen;
           s = (case (Option.bind (imp_address_v4 d) parse_ipv4, fmlookup (ipams s) network_id) of
                  (Some ip, Some pool) \<Rightarrow>
                    (case reserve pool key (unat (to_be_bytes 4 ip ! 3)) of
                       Inr pool \<Rightarrow> s\<lparr>ipams := fmupd network_id pool (ipams s)\<rparr>
                     | Inl _ \<Rightarrow> s)
                | _ \<Rightarrow> s);
           (s, n) = next_seq s;
           dev = \<lparr>dev_id = show_id ''dev-'' n, dev_network_id = network_id, dev_name = imp_name d,
                  wg_public_key = key, address_v4 = imp_address_v4 d, address_v6 = imp_address_v6 d,
                  dev_status = Active\<rparr>;
           s = (if imp_endpoints d \<noteq> [] then s\<lparr>endpoints := fmupd (dev_id dev) (imp_endpoints d) (endpoints s)\<rparr>
                else s);
           s = s\<lparr>devices := fmupd (dev_id dev) dev (devices s)\<rparr>
       in (s, seen, res\<lparr>imp_created := imp_created res @ [dev]\<rparr>))"

definition known_keys :: "store \<Rightarrow> string \<Rightarrow> string set" where
  "known_keys s network_id =
     wg_public_key ` {d \<in> fmran' (devices s). dev_network_id d = network_id \<and> dev_status d = Active}"

definition import_devices ::
    "key_codec \<Rightarrow> store \<Rightarrow> string \<Rightarrow> import_device list \<Rightarrow> store \<times> (store_error + import_result)" where
  "import_devices C s network_id devs =
     (let keys = map (\<lambda>d. key_normalize C (imp_public_key d)) devs
      in if None \<in> set keys then (s, Inl InvalidKey)
         else if fmlookup (networks s) network_id = None then (s, Inl NetworkNotFound)
         else
           let (s, seen, res) = fold (\<lambda>(d, key). import_one network_id d key) (zip devs (map the keys))
                                  (s, known_keys s network_id, \<lparr>imp_created = [], imp_skipped = []\<rparr>);
               s = (if imp_created res \<noteq> [] then bump_epoch s network_id else s)
           in (s, Inr res))"

definition list_devices :: "string iter_order \<Rightarrow> store \<Rightarrow> string \<Rightarrow> store_error + device list" where
  "list_devices ord s network_id =
     (if fmlookup (networks s) network_id = None then Inl NetworkNotFound
      else Inr (filter (\<lambda>d. dev_network_id d = network_id) (hm_values ord (devices s))))"

definition revoke_device :: "store \<Rightarrow> string \<Rightarrow> store \<times> (store_error + unit)" where
  "revoke_device s device_id =
     (case fmlookup (devices s) device_id of
        None \<Rightarrow> (s, Inl DeviceNotFound)
      | Some dev \<Rightarrow>
          let s = (case fmlookup (ipams s) (dev_network_id dev) of
                     Some pool \<Rightarrow> s\<lparr>ipams := fmupd (dev_network_id dev) (fst (recycle pool (wg_public_key dev))) (ipams s)\<rparr>
                   | None \<Rightarrow> s);
              s = s\<lparr>devices := fmupd device_id (dev\<lparr>dev_status := Revoked\<rparr>) (devices s)\<rparr>
          in (bump_epoch s (dev_network_id dev), Inr ()))"

definition set_endpoints :: "store \<Rightarrow> string \<Rightarrow> string list \<Rightarrow> store \<times> (store_error + unit)" where
  "set_endpoints s device_id eps =
     (case fmlookup (devices s) device_id of
        None \<Rightarrow> (s, Inl DeviceNotFound)
      | Some dev \<Rightarrow>
          (bump_epoch (s\<lparr>endpoints := fmupd device_id eps (endpoints s)\<rparr>) (dev_network_id dev), Inr ()))"

text \<open>The route id is drawn before the prefix is checked.\<close>

definition advertise_route :: "store \<Rightarrow> string \<Rightarrow> string \<Rightarrow> store \<times> (store_error + route)" where
  "advertise_route s device_id prefix =
     (case fmlookup (devices s) device_id of
        None \<Rightarrow> (s, Inl DeviceNotFound)
      | Some dev \<Rightarrow>
          let (s, n) = next_seq s
          in (case normalize_prefix prefix of
                None \<Rightarrow> (s, Inl InvalidPrefix)
              | Some prefix \<Rightarrow>
                  let r = \<lparr>route_id = show_id ''route-'' n, route_network_id = dev_network_id dev,
                           route_device_id = device_id, route_prefix = prefix, approved = False\<rparr>
                  in (s\<lparr>routes := fmupd (route_id r) r (routes s)\<rparr>, Inr r)))"

definition approve_route :: "store \<Rightarrow> string \<Rightarrow> store \<times> (store_error + unit)" where
  "approve_route s rid =
     (case fmlookup (routes s) rid of
        None \<Rightarrow> (s, Inl RouteNotFound)
      | Some r \<Rightarrow>
          (bump_epoch (s\<lparr>routes := fmupd rid (r\<lparr>approved := True\<rparr>) (routes s)\<rparr>) (route_network_id r), Inr ()))"

definition delete_route :: "store \<Rightarrow> string \<Rightarrow> store \<times> (store_error + unit)" where
  "delete_route s rid =
     (case fmlookup (routes s) rid of
        None \<Rightarrow> (s, Inl RouteNotFound)
      | Some r \<Rightarrow>
          let s = s\<lparr>routes := fmdrop rid (routes s)\<rparr>
          in ((if approved r then bump_epoch s (route_network_id r) else s), Inr ()))"

text \<open>Whether a relay of the given scope serves a network.\<close>

definition relay_serves :: "string option \<Rightarrow> string \<Rightarrow> bool" where
  "relay_serves scope network_id = (case scope of None \<Rightarrow> True | Some n \<Rightarrow> n = network_id)"

definition register_relay_authenticated ::
    "string iter_order \<Rightarrow> store \<Rightarrow> string \<Rightarrow> string \<Rightarrow> string option \<Rightarrow> bool \<Rightarrow> string option
       \<Rightarrow> string option \<times> string option \<Rightarrow> store \<times> relay_node" where
  "register_relay_authenticated ord s region url scope anytls stun identity =
     (let (s, n) = next_seq s;
          r = \<lparr>rn_id = show_id ''relay-'' n, rn_region = region, rn_url = url, rn_network_id = scope,
               rn_anytls = anytls, rn_stun_url = (case stun of Some u \<Rightarrow> Some u | None \<Rightarrow> Some url),
               rn_node_id = fst identity, rn_public_key = snd identity\<rparr>;
          s = s\<lparr>relays := fmupd (rn_id r) r (relays s)\<rparr>;
          nets = filter (relay_serves scope) (hm_keys ord (networks s))
      in (fold (\<lambda>nid s. bump_epoch s nid) nets s, r))"

definition register_relay ::
    "string iter_order \<Rightarrow> store \<Rightarrow> string \<Rightarrow> string \<Rightarrow> string option \<Rightarrow> bool \<Rightarrow> string option
       \<Rightarrow> string option \<Rightarrow> store \<times> relay_node" where
  "register_relay ord s region url scope anytls stun node =
     register_relay_authenticated ord s region url scope anytls stun (node, None)"

definition update_relay :: "string iter_order \<Rightarrow> store \<Rightarrow> relay_node \<Rightarrow> store \<times> (store_error + relay_node)" where
  "update_relay ord s r =
     (if (case rn_network_id r of Some scope \<Rightarrow> fmlookup (networks s) scope = None | None \<Rightarrow> False)
      then (s, Inl NetworkNotFound)
      else (case fmlookup (relays s) (rn_id r) of
              None \<Rightarrow> (s, Inl RelayNotFound)
            | Some old \<Rightarrow>
                let nets = filter (\<lambda>nid. relay_serves (rn_network_id old) nid \<or> relay_serves (rn_network_id r) nid)
                             (hm_keys ord (networks s));
                    s = s\<lparr>relays := fmupd (rn_id r) r (relays s)\<rparr>
                in (fold (\<lambda>nid s. bump_epoch s nid) nets s, Inr r)))"

definition list_relays :: "string iter_order \<Rightarrow> store \<Rightarrow> string \<Rightarrow> relay_node list" where
  "list_relays ord s network_id =
     filter (\<lambda>r. relay_serves (rn_network_id r) network_id) (hm_values ord (relays s))"

definition resolve :: "string iter_order \<Rightarrow> store \<Rightarrow> string \<Rightarrow> string \<Rightarrow> string option" where
  "resolve ord s network_id name =
     Option.bind (List.find (\<lambda>d. dev_network_id d = network_id \<and> dev_status d = Active \<and>
                     eq_ignore_ascii_case (dev_name d) name) (hm_values ord (devices s))) address_v4"

text \<open>A new listener of a network's epochs.\<close>

definition subscribe :: "store \<Rightarrow> string \<Rightarrow> store \<times> u64 option" where
  "subscribe s network_id =
     (case fmlookup (epoch_tx s) network_id of
        None \<Rightarrow> (s, None)
      | Some tx \<Rightarrow>
          (s\<lparr>epoch_tx := fmupd network_id (tx\<lparr>w_receivers := w_receivers tx + 1\<rparr>) (epoch_tx s)\<rparr>, Some (w_value tx)))"

definition network_id_of_device :: "store \<Rightarrow> string \<Rightarrow> string option" where
  "network_id_of_device s device_id = map_option dev_network_id (fmlookup (devices s) device_id)"

definition network_epoch :: "store \<Rightarrow> string \<Rightarrow> u64 option" where
  "network_epoch s network_id = map_option config_epoch (fmlookup (networks s) network_id)"

text \<open>What a device's peers learn about one of them.\<close>

definition peer_config_of :: "(string \<times> string) list \<Rightarrow> store \<Rightarrow> device \<Rightarrow> peer_config" where
  "peer_config_of appr s d =
     \<lparr>pc_public_key = wg_public_key d,
      pc_allowed_ips =
        (case address_v4 d of Some v4 \<Rightarrow> [v4 @ ''/32''] | None \<Rightarrow> []) @
        (case address_v6 d of Some v6 \<Rightarrow> [v6 @ ''/128''] | None \<Rightarrow> []) @
        map snd (filter (\<lambda>(did, _). did = dev_id d) appr),
      pc_endpoints = (case fmlookup (endpoints s) (dev_id d) of Some eps \<Rightarrow> eps | None \<Rightarrow> []),
      pc_exit = list_ex (\<lambda>(did, prefix). did = dev_id d \<and> is_default_prefix prefix) appr\<rparr>"

definition get_device_config :: "string iter_order \<Rightarrow> store \<Rightarrow> string \<Rightarrow> store_error + device_config" where
  "get_device_config ord s device_id =
     (case fmlookup (devices s) device_id of
        None \<Rightarrow> Inl DeviceNotFound
      | Some me \<Rightarrow>
          if dev_status me \<noteq> Active then Inl DeviceNotFound
          else
            let appr = map (\<lambda>r. (route_device_id r, route_prefix r))
                         (filter (\<lambda>r. route_network_id r = dev_network_id me \<and> approved r) (hm_values ord (routes s)));
                net = fmlookup (networks s) (dev_network_id me)
            in Inr \<lparr>overlay_cidrs = (case net of Some n \<Rightarrow> [ipv4_pool n, ipv6_ula n] | None \<Rightarrow> []),
                    dc_network_id = dev_network_id me,
                    dc_config_epoch = (case net of Some n \<Rightarrow> config_epoch n | None \<Rightarrow> 0),
                    dc_address_v4 = address_v4 me, dc_address_v6 = address_v6 me,
                    dc_peers = map (peer_config_of appr s)
                      (filter (\<lambda>d. dev_network_id d = dev_network_id me \<and> dev_id d \<noteq> dev_id me \<and> dev_status d = Active)
                        (hm_values ord (devices s))),
                    dc_relays = list_relays ord s (dev_network_id me),
                    dc_mtu = None, dc_dns = [],
                    dc_self_exit = list_ex (\<lambda>(did, prefix). did = dev_id me \<and> is_default_prefix prefix) appr\<rparr>)"

section \<open>Runs\<close>

named_theorems store_simps \<open>evaluation of store operations\<close>

text \<open>The operations that change the store, as a sequence of requests.\<close>

datatype store_op =
    OpCreateNetwork string u64
  | OpCreateInvite string string "int option" "u32 option"
  | OpEnroll "string iter_order" string string string int
  | OpImport string "import_device list"
  | OpRevoke string
  | OpSetEndpoints string "string list"
  | OpAdvertise string string
  | OpApprove string
  | OpDeleteRoute string
  | OpRegisterRelay "string iter_order" string string "string option" bool "string option" "string option \<times> string option"
  | OpUpdateRelay "string iter_order" relay_node
  | OpSubscribe string

definition apply_op :: "key_codec \<Rightarrow> store_op \<Rightarrow> store \<Rightarrow> store" where
  "apply_op C oper s =
     (case oper of
        OpCreateNetwork name random \<Rightarrow> fst (create_network s name random)
      | OpCreateInvite code network_id expires limit \<Rightarrow> fst (create_invite s code network_id expires limit)
      | OpEnroll ord code name key now \<Rightarrow> fst (enroll C ord s code name key now)
      | OpImport network_id devs \<Rightarrow> fst (import_devices C s network_id devs)
      | OpRevoke device_id \<Rightarrow> fst (revoke_device s device_id)
      | OpSetEndpoints device_id eps \<Rightarrow> fst (set_endpoints s device_id eps)
      | OpAdvertise device_id prefix \<Rightarrow> fst (advertise_route s device_id prefix)
      | OpApprove rid \<Rightarrow> fst (approve_route s rid)
      | OpDeleteRoute rid \<Rightarrow> fst (delete_route s rid)
      | OpRegisterRelay ord region url scope anytls stun identity \<Rightarrow>
          fst (register_relay_authenticated ord s region url scope anytls stun identity)
      | OpUpdateRelay ord r \<Rightarrow> fst (update_relay ord s r)
      | OpSubscribe network_id \<Rightarrow> fst (subscribe s network_id))"

text \<open>The ids a request can draw from the counter; the orders it uses visit every entry.\<close>

definition ids_drawn :: "store_op \<Rightarrow> nat" where
  "ids_drawn oper = (case oper of OpImport _ devs \<Rightarrow> length devs | _ \<Rightarrow> 1)"

definition op_ok :: "store_op \<Rightarrow> bool" where
  "op_ok oper =
     (case oper of OpEnroll ord _ _ _ _ \<Rightarrow> iter_ok ord | OpRegisterRelay ord _ _ _ _ _ _ \<Rightarrow> iter_ok ord
      | OpUpdateRelay ord _ \<Rightarrow> iter_ok ord | _ \<Rightarrow> True)"

text \<open>The state after a sequence of requests on a new store.\<close>

definition store_run :: "key_codec \<Rightarrow> store_op list \<Rightarrow> store" where
  "store_run C ops = fold (apply_op C) ops store_new"

definition run_ok :: "store_op list \<Rightarrow> bool" where
  "run_ok ops \<longleftrightarrow> list_all op_ok ops \<and> sum_list (map ids_drawn ops) < 2 ^ 64 - 1"

section \<open>Frame of an epoch bump\<close>

lemma bump_epoch_frame [simp]:
  "devices (bump_epoch s n) = devices s" "invites (bump_epoch s n) = invites s"
  "ipams (bump_epoch s n) = ipams s" "routes (bump_epoch s n) = routes s"
  "relays (bump_epoch s n) = relays s" "endpoints (bump_epoch s n) = endpoints s"
  "seq (bump_epoch s n) = seq s" "net_index (bump_epoch s n) = net_index s"
  by (simp_all add: bump_epoch_def Let_def split: option.split)

lemma bump_epoch_networks:
  "fmlookup (networks (bump_epoch s n)) k =
     (if k = n then map_option (\<lambda>net. net\<lparr>config_epoch := config_epoch net + 1\<rparr>) (fmlookup (networks s) n)
      else fmlookup (networks s) k)"
  by (auto simp: bump_epoch_def Let_def split: option.split)

lemma bump_all_frame [simp]:
  "devices (fold (\<lambda>n s. bump_epoch s n) ns s) = devices s"
  "invites (fold (\<lambda>n s. bump_epoch s n) ns s) = invites s"
  "ipams (fold (\<lambda>n s. bump_epoch s n) ns s) = ipams s"
  "routes (fold (\<lambda>n s. bump_epoch s n) ns s) = routes s"
  "relays (fold (\<lambda>n s. bump_epoch s n) ns s) = relays s"
  "endpoints (fold (\<lambda>n s. bump_epoch s n) ns s) = endpoints s"
  "seq (fold (\<lambda>n s. bump_epoch s n) ns s) = seq s"
  by (induction ns arbitrary: s) simp_all

lemma bump_all_networks:
  "distinct ns \<Longrightarrow> fmlookup (networks (fold (\<lambda>n s. bump_epoch s n) ns s)) k =
     (if k \<in> set ns then map_option (\<lambda>net. net\<lparr>config_epoch := config_epoch net + 1\<rparr>) (fmlookup (networks s) k)
      else fmlookup (networks s) k)"
  by (induction ns arbitrary: s) (auto simp: bump_epoch_networks)

lemma next_seq_simps [simp]:
  "snd (next_seq s) = seq s" "fst (next_seq s) = s\<lparr>seq := seq s + 1\<rparr>"
  by (simp_all add: next_seq_def)

section \<open>Ids\<close>

text \<open>Every id in use was drawn from the counter before its current value.\<close>

definition drawn :: "u64 \<Rightarrow> string \<Rightarrow> string \<Rightarrow> bool" where
  "drawn limit kind i \<longleftrightarrow> (\<exists>n < limit. i = show_id kind n)"

lemma show_id_inj: "show_id kind m = show_id kind n \<longleftrightarrow> m = n"
  by (auto simp: show_id_def word_unat_eq_iff dest: show_dec_inj)

lemma drawn_fresh [simp]: "\<not> drawn n kind (show_id kind n)"
  by (auto simp: drawn_def show_id_inj)

lemma drawn_mono: "drawn m kind i \<Longrightarrow> m \<le> n \<Longrightarrow> drawn n kind i"
  unfolding drawn_def by (elim exE conjE, rule exI, rule conjI, erule (1) less_le_trans)

lemma seq_less: "unat (n :: u64) + 1 < 2 ^ 64 \<Longrightarrow> n < n + 1"
  by (simp add: word_less_nat_alt unat_word_ariths)

lemma drawn_next:
  "unat n + 1 < 2 ^ 64 \<Longrightarrow> drawn n kind i \<Longrightarrow> drawn (n + 1) kind i"
  "unat n + 1 < 2 ^ 64 \<Longrightarrow> drawn (n + 1) kind (show_id kind n)"
  using seq_less [of n] by (auto simp: drawn_def intro: less_trans)

section \<open>A run to evaluate\<close>

text \<open>Two keys, and a run that creates a network with an invite and enrols both.\<close>

definition toy_k :: string where "toy_k = hex_encode toy_key_codec (replicate 32 1)"
definition toy_kk :: string where "toy_kk = hex_encode toy_key_codec (replicate 32 2)"

lemma toy_keys [store_simps]:
  "key_normalize toy_key_codec toy_k = Some toy_k" "key_normalize toy_key_codec toy_kk = Some toy_kk"
  "toy_k \<noteq> toy_kk" "toy_kk \<noteq> toy_k"
proof -
  have k: "key_decode toy_key_codec toy_k = Some (replicate 32 1)" "key_decode toy_key_codec toy_kk = Some (replicate 32 2)"
    unfolding toy_k_def toy_kk_def by (simp_all add: key_encodings(1) [OF toy_key_codec_ok])
  then show "key_normalize toy_key_codec toy_k = Some toy_k" "key_normalize toy_key_codec toy_kk = Some toy_kk"
    by (simp_all add: key_normalize_def toy_k_def toy_kk_def)
  have "(replicate 32 1 :: bytes) \<noteq> replicate 32 2" by simp
  then show "toy_k \<noteq> toy_kk" "toy_kk \<noteq> toy_k" using k by (metis option.inject)+
qed

abbreviation toy_net :: string where "toy_net \<equiv> show_id ''net-'' 1"

definition toy_requests :: "store_op list" where
  "toy_requests = [OpCreateNetwork ''home'' 0, OpCreateInvite ''code'' toy_net None None,
     OpEnroll sorted_order ''code'' ''a'' toy_k 0, OpEnroll sorted_order ''code'' ''b'' toy_kk 0]"

lemma find_upt_rec:
  "List.find P [a..<b] = (if a < b then if P a then Some a else List.find P [Suc a..<b] else None)"
  by (subst upt_rec) simp

declare toy_requests_def [store_simps] store_run_def [store_simps] apply_op_def [store_simps]
  store_new_def [store_simps] create_network_def [store_simps] next_seq_def [store_simps] Let_def [store_simps]
  create_invite_def [store_simps] enroll_def [store_simps] hm_values_def [store_simps]
  sorted_order_def [store_simps] is_redeemable_def [store_simps] enroll_device_def [store_simps]
  allocate_def [store_simps] ipam_new_def [store_simps] find_upt_rec [store_simps]
  DEVICE_HOST_MIN_def [store_simps] DEVICE_HOST_MAX_def [store_simps] bump_epoch_def [store_simps]
  revoke_device_def [store_simps] recycle_def [store_simps] get_device_config_def [store_simps]
  show_id_inj [store_simps]

lemma toy_run_ok: "run_ok toy_requests"
  by (simp add: run_ok_def toy_requests_def op_ok_def ids_drawn_def)

end
