(* ===== verification/Control_Invariants.thy ===== *)
theory Control_Invariants
  imports Control_Store
begin

text \<open>
  Invariants of the coordination store over every sequence of requests, and what they give:
  the epoch tells clients of every change of their configuration, addresses of active devices
  are unique, and revocation cuts a device off.
\<close>

section \<open>Well-formedness\<close>

text \<open>Ids are fresh, every network has its pool, every device its network, every route its device.\<close>

definition store_wf :: "store \<Rightarrow> bool" where
  "store_wf s \<longleftrightarrow>
     (\<forall>n. fmlookup (ipams s) n = None \<longleftrightarrow> fmlookup (networks s) n = None) \<and>
     (\<forall>n. fmlookup (networks s) n \<noteq> None \<longrightarrow> drawn (seq s) ''net-'' n) \<and>
     (\<forall>n pool. fmlookup (ipams s) n = Some pool \<longrightarrow> ipam_ok pool) \<and>
     (\<forall>i d. fmlookup (devices s) i = Some d \<longrightarrow>
        dev_id d = i \<and> drawn (seq s) ''dev-'' i \<and> fmlookup (networks s) (dev_network_id d) \<noteq> None) \<and>
     (\<forall>i r. fmlookup (routes s) i = Some r \<longrightarrow>
        drawn (seq s) ''route-'' i \<and>
        (\<exists>d. fmlookup (devices s) (route_device_id r) = Some d \<and> dev_network_id d = route_network_id r)) \<and>
     (\<forall>i r. fmlookup (relays s) i = Some r \<longrightarrow> drawn (seq s) ''relay-'' i)"

lemma store_wfD:
  assumes "store_wf s"
  shows "fmlookup (ipams s) n = None \<longleftrightarrow> fmlookup (networks s) n = None"
    "fmlookup (networks s) n \<noteq> None \<Longrightarrow> drawn (seq s) ''net-'' n"
    "fmlookup (ipams s) n = Some pool \<Longrightarrow> ipam_ok pool"
    "fmlookup (devices s) i = Some d \<Longrightarrow> dev_id d = i"
    "fmlookup (devices s) i = Some d \<Longrightarrow> drawn (seq s) ''dev-'' i"
    "fmlookup (devices s) i = Some d \<Longrightarrow> fmlookup (networks s) (dev_network_id d) \<noteq> None"
    "fmlookup (routes s) j = Some r \<Longrightarrow> drawn (seq s) ''route-'' j"
    "fmlookup (routes s) j = Some r \<Longrightarrow>
       \<exists>d. fmlookup (devices s) (route_device_id r) = Some d \<and> dev_network_id d = route_network_id r"
    "fmlookup (relays s) j = Some rn \<Longrightarrow> drawn (seq s) ''relay-'' j"
  using assms unfolding store_wf_def by blast+

lemma seq_store_new: "seq store_new = 1"
  by (simp add: store_new_def)

lemma store_wf_new: "store_wf store_new"
  by (simp add: store_wf_def store_new_def)

lemma bump_networks_None [simp]:
  "fmlookup (networks (bump_epoch s n)) k = None \<longleftrightarrow> fmlookup (networks s) k = None"
  by (simp add: bump_epoch_networks)

lemma bump_all_networks_None [simp]:
  "fmlookup (networks (fold (\<lambda>n s. bump_epoch s n) ns s)) k = None \<longleftrightarrow> fmlookup (networks s) k = None"
  by (induction ns arbitrary: s) simp_all

lemma bump_epoch_wf [simp]: "store_wf (bump_epoch s n) \<longleftrightarrow> store_wf s"
  by (simp add: store_wf_def)

lemma bump_all_wf [simp]: "store_wf (fold (\<lambda>n s. bump_epoch s n) ns s) \<longleftrightarrow> store_wf s"
  by (simp add: store_wf_def)

text \<open>Elementary changes that keep a store well formed.\<close>

lemma wf_seq:
  assumes "store_wf s" "unat (seq s) + 1 < 2 ^ 64"
  shows "store_wf (s\<lparr>seq := seq s + 1\<rparr>)"
  using store_wfD [OF assms(1)] drawn_next(1) [OF assms(2)] unfolding store_wf_def by simp

lemma wf_device:
  assumes "store_wf s" "drawn (seq s) ''dev-'' (dev_id d)" "fmlookup (networks s) (dev_network_id d) \<noteq> None"
    "\<And>d'. fmlookup (devices s) (dev_id d) = Some d' \<Longrightarrow> dev_network_id d' = dev_network_id d"
  shows "store_wf (s\<lparr>devices := fmupd (dev_id d) d (devices s)\<rparr>)"
proof -
  have "\<exists>d'. fmlookup (fmupd (dev_id d) d (devices s)) (route_device_id r) = Some d' \<and>
      dev_network_id d' = route_network_id r" if "fmlookup (routes s) i = Some r" for i r
    using store_wfD(8) [OF assms(1) that] assms(4) by (cases "route_device_id r = dev_id d") auto
  then show ?thesis using assms(1-3) unfolding store_wf_def by simp
qed

lemma wf_pool:
  assumes "store_wf s" "ipam_ok pool" "fmlookup (ipams s) n \<noteq> None"
  shows "store_wf (s\<lparr>ipams := fmupd n pool (ipams s)\<rparr>)"
  using assms unfolding store_wf_def by auto

lemma wf_invites [simp]: "store_wf (s\<lparr>invites := m\<rparr>) \<longleftrightarrow> store_wf s"
  by (simp add: store_wf_def)

lemma wf_endpoints [simp]: "store_wf (s\<lparr>endpoints := m\<rparr>) \<longleftrightarrow> store_wf s"
  by (simp add: store_wf_def)

lemma wf_epoch_tx [simp]: "store_wf (s\<lparr>epoch_tx := m\<rparr>) \<longleftrightarrow> store_wf s"
  by (simp add: store_wf_def)

lemma wf_relay:
  assumes "store_wf s" "drawn (seq s) ''relay-'' i"
  shows "store_wf (s\<lparr>relays := fmupd i r (relays s)\<rparr>)"
  using assms unfolding store_wf_def by simp

lemma wf_route:
  assumes "store_wf s" "drawn (seq s) ''route-'' i"
    "fmlookup (devices s) (route_device_id r) = Some d" "dev_network_id d = route_network_id r"
  shows "store_wf (s\<lparr>routes := fmupd i r (routes s)\<rparr>)"
  using assms unfolding store_wf_def by simp

lemma wf_drop_route: "store_wf s \<Longrightarrow> store_wf (s\<lparr>routes := fmdrop i (routes s)\<rparr>)"
  unfolding store_wf_def by (auto split: if_splits)

section \<open>Active keys\<close>

text \<open>No two active devices of a network have the same key.\<close>

definition active_in :: "store \<Rightarrow> string \<Rightarrow> string \<Rightarrow> device \<Rightarrow> bool" where
  "active_in s nid i d \<longleftrightarrow>
     fmlookup (devices s) i = Some d \<and> dev_network_id d = nid \<and> dev_status d = Active"

definition keys_unique :: "store \<Rightarrow> bool" where
  "keys_unique s \<longleftrightarrow>
     (\<forall>nid i j d e. active_in s nid i d \<and> active_in s nid j e \<and> wg_public_key d = wg_public_key e \<longrightarrow> i = j)"

lemma keys_uniqueD:
  "keys_unique s \<Longrightarrow> active_in s nid i d \<Longrightarrow> active_in s nid j e \<Longrightarrow> wg_public_key d = wg_public_key e \<Longrightarrow> i = j"
  unfolding keys_unique_def by blast

lemma keys_unique_cong: "devices s' = devices s \<Longrightarrow> keys_unique s' \<longleftrightarrow> keys_unique s"
  by (simp add: keys_unique_def active_in_def)

lemma active_in_upd:
  "active_in (s\<lparr>devices := fmupd j dev (devices s)\<rparr>) nid i d \<longleftrightarrow>
     (if i = j then d = dev \<and> dev_network_id dev = nid \<and> dev_status dev = Active else active_in s nid i d)"
  by (auto simp: active_in_def)

lemma keys_unique_new_device:
  assumes "keys_unique s"
    and new: "\<And>i d. active_in s (dev_network_id dev) i d \<Longrightarrow> wg_public_key d \<noteq> wg_public_key dev"
  shows "keys_unique (s\<lparr>devices := fmupd j dev (devices s)\<rparr>)"
proof -
  have "i = i'"
    if a: "active_in (s\<lparr>devices := fmupd j dev (devices s)\<rparr>) nid i d" "active_in (s\<lparr>devices := fmupd j dev (devices s)\<rparr>) nid i' e"
      and eq: "wg_public_key d = wg_public_key e" for nid i i' d e
  proof (rule ccontr)
    assume "i \<noteq> i'"
    then consider "i = j" "i' \<noteq> j" | "i \<noteq> j" "i' = j" | "i \<noteq> j" "i' \<noteq> j" by blast
    then show False
    proof cases
      case 1
      then have "d = dev" "active_in s (dev_network_id dev) i' e" using a by (simp_all add: active_in_upd)
      then show False using new eq by metis
    next
      case 2
      then have "e = dev" "active_in s (dev_network_id dev) i d" using a by (simp_all add: active_in_upd)
      then show False using new eq by metis
    next
      case 3
      then have "active_in s nid i d" "active_in s nid i' e" using a by (simp_all add: active_in_upd)
      then show False using keys_uniqueD [OF assms(1) _ _ eq] \<open>i \<noteq> i'\<close> by blast
    qed
  qed
  then show ?thesis unfolding keys_unique_def by blast
qed

lemma keys_unique_revoke:
  assumes "keys_unique s"
  shows "keys_unique (s\<lparr>devices := fmupd j (dev\<lparr>dev_status := Revoked\<rparr>) (devices s)\<rparr>)"
proof -
  have "active_in s nid i d"
    if "active_in (s\<lparr>devices := fmupd j (dev\<lparr>dev_status := Revoked\<rparr>) (devices s)\<rparr>) nid i d" for nid i d
    using that by (simp add: active_in_upd split: if_splits)
  then show ?thesis using assms unfolding keys_unique_def by blast
qed

definition store_inv :: "store \<Rightarrow> bool" where
  "store_inv s \<longleftrightarrow> store_wf s \<and> keys_unique s"

lemma store_inv_new: "store_inv store_new"
  by (simp add: store_inv_def store_wf_new keys_unique_def active_in_def) (simp add: store_new_def)

lemma bump_keys_unique [simp]: "keys_unique (bump_epoch s n) \<longleftrightarrow> keys_unique s"
  by (rule keys_unique_cong) simp

lemma bump_epoch_inv [simp]: "store_inv (bump_epoch s n) \<longleftrightarrow> store_inv s"
  by (simp add: store_inv_def)

lemma bump_all_inv [simp]: "store_inv (fold (\<lambda>n s. bump_epoch s n) ns s) \<longleftrightarrow> store_inv s"
  by (induction ns arbitrary: s) simp_all

lemma inv_cong:
  assumes "store_inv s" "store_wf s'" "devices s' = devices s"
  shows "store_inv s'"
  using assms(1,2) keys_unique_cong [OF assms(3)] by (simp add: store_inv_def)

lemma store_invD: "store_inv s \<Longrightarrow> store_wf s" "store_inv s \<Longrightarrow> keys_unique s"
  by (simp_all add: store_inv_def)

section \<open>Every request keeps the invariant\<close>

lemma create_network_inv:
  assumes "store_inv s" "unat (seq s) + 1 < 2 ^ 64"
  shows "store_inv (fst (create_network s name random))"
proof -
  let ?n = "show_id ''net-'' (seq s)"
  note wf = store_invD(1) [OF assms(1)]
  note nxt = drawn_next [OF assms(2)]
  have fresh: "fmlookup (networks s) ?n = None" using store_wfD(2) [OF wf, of ?n] by (metis drawn_fresh)
  have "store_wf (fst (create_network s name random))"
    using store_wfD [OF wf] nxt fresh
    unfolding create_network_def Let_def next_seq_def
    by (simp add: store_wf_def ipam_new_ok)
  then show ?thesis
    by (rule inv_cong [OF assms(1)]) (simp add: create_network_def Let_def next_seq_def)
qed

lemma create_invite_inv:
  assumes "store_inv s"
  shows "store_inv (fst (create_invite s code n e m))"
  by (rule inv_cong [OF assms]) (use store_invD(1) [OF assms] in \<open>simp_all add: create_invite_def Let_def\<close>)

lemma subscribe_inv:
  assumes "store_inv s"
  shows "store_inv (fst (subscribe s n))"
  by (rule inv_cong [OF assms]) (use store_invD(1) [OF assms] in \<open>simp_all add: subscribe_def split: option.split\<close>)

text \<open>Enrolment either leaves the store alone or adds one device with a freshly allocated address.\<close>

definition new_device :: "store \<Rightarrow> string \<Rightarrow> string \<Rightarrow> string \<Rightarrow> u32 \<times> u128 \<Rightarrow> device" where
  "new_device s nid name key a =
     \<lparr>dev_id = show_id ''dev-'' (seq s), dev_network_id = nid, dev_name = name, wg_public_key = key,
      address_v4 = Some (show_ipv4 (fst a)), address_v6 = Some (show_ipv6 (snd a)), dev_status = Active\<rparr>"

definition use_invite :: "string \<Rightarrow> (string, invite) fmap \<Rightarrow> (string, invite) fmap" where
  "use_invite code m =
     (case fmlookup m code of Some i \<Rightarrow> fmupd code (i\<lparr>inv_uses := inv_uses i + 1\<rparr>) m | None \<Rightarrow> m)"

definition enrolled :: "store \<Rightarrow> string \<Rightarrow> string \<Rightarrow> ipam \<Rightarrow> device \<Rightarrow> store" where
  "enrolled s nid code pool dev =
     s\<lparr>ipams := fmupd nid pool (ipams s), seq := seq s + 1, invites := use_invite code (invites s),
       devices := fmupd (dev_id dev) dev (devices s)\<rparr>"

lemma enroll_device_cases:
  "enroll_device s nid code name key =
     (case fmlookup (ipams s) nid of
        None \<Rightarrow> (s, Inl NetworkNotFound)
      | Some pool \<Rightarrow>
          (case allocate pool key of
             Inl _ \<Rightarrow> (s, Inl StorePoolExhausted)
           | Inr (pool, a) \<Rightarrow>
               (bump_epoch (enrolled s nid code pool (new_device s nid name key a)) nid,
                Inr (new_device s nid name key a))))"
  by (auto simp: enroll_device_def enrolled_def new_device_def use_invite_def next_seq_def Let_def
      split: option.split sum.split ipam_error.split)

lemma enroll_cases:
  assumes "iter_ok ord" "enroll C ord s code name key now = (s', r)"
  obtains (rejected) e where "s' = s" "r = Inl e"
  | (known) i k d where "s' = s" "r = Inr d" "key_normalize C key = Some k" "wg_public_key d = k"
      "active_in s (dev_network_id d) i d"
  | (new) k invt pool pool' a dev where "key_normalize C key = Some k" "fmlookup (invites s) code = Some invt"
      "is_redeemable invt now" "\<And>i d. active_in s (inv_network_id invt) i d \<Longrightarrow> wg_public_key d \<noteq> k"
      "fmlookup (ipams s) (inv_network_id invt) = Some pool" "allocate pool k = Inr (pool', a)"
      "dev = new_device s (inv_network_id invt) name k a" "r = Inr dev"
      "s' = bump_epoch (enrolled s (inv_network_id invt) code pool' dev) (inv_network_id invt)"
proof (cases "key_normalize C key")
  case None
  then show thesis using assms(2) by (intro rejected [of InvalidKey]) (simp_all add: enroll_def)
next
  case k: (Some k)
  show thesis
  proof (cases "fmlookup (invites s) code")
    case None
    then show thesis using assms(2) k by (intro rejected [of InvalidInvite]) (simp_all add: enroll_def)
  next
    case i: (Some invt)
    let ?P = "\<lambda>d. dev_network_id d = inv_network_id invt \<and> dev_status d = Active \<and> wg_public_key d = k"
    let ?expired = "case expires_at invt of Some expiry \<Rightarrow> expiry \<le> now | None \<Rightarrow> False"
    consider (a) "?expired" | (b) d where "\<not> ?expired" "List.find ?P (hm_values ord (devices s)) = Some d"
      | (c) "\<not> ?expired" "List.find ?P (hm_values ord (devices s)) = None" "\<not> is_redeemable invt now"
      | (d) "\<not> ?expired" "List.find ?P (hm_values ord (devices s)) = None" "is_redeemable invt now"
      by fastforce
    then show thesis
    proof cases
      case a
      then show thesis using assms(2) k i by (intro rejected [of InvalidInvite]) (simp_all add: enroll_def)
    next
      case b
      obtain j where "fmlookup (devices s) j = Some d" "?P d" using find_hm_Some [OF assms(1) b(2)] by blast
      then show thesis using assms(2) k i b by (intro known [of d k j]) (simp_all add: enroll_def active_in_def)
    next
      case c
      then show thesis using assms(2) k i by (intro rejected [of InvalidInvite]) (simp_all add: enroll_def)
    next
      case d
      have new_key: "wg_public_key e \<noteq> k" if "active_in s (inv_network_id invt) j e" for j e
        using d(2) that unfolding find_hm_None [OF assms(1)] by (auto simp: active_in_def)
      have e: "enroll_device s (inv_network_id invt) code name k = (s', r)"
        using assms(2) k i d by (simp add: enroll_def)
      show thesis
      proof (cases "fmlookup (ipams s) (inv_network_id invt)")
        case None
        then show thesis using e by (intro rejected [of NetworkNotFound]) (simp_all add: enroll_device_cases)
      next
        case p: (Some pool)
        show thesis
        proof (cases "allocate pool k")
          case (Inl x)
          then show thesis using e p by (intro rejected [of StorePoolExhausted]) (simp_all add: enroll_device_cases)
        next
          case (Inr pa)
          obtain pool' a where "pa = (pool', a)" by (cases pa)
          then show thesis
            using e p Inr
            by (intro new [of k invt pool pool' a "new_device s (inv_network_id invt) name k a"])
              (simp_all add: enroll_device_cases k i d(3) new_key)
        qed
      qed
    qed
  qed
qed

lemma enrolled_inv:
  assumes "store_inv s" "unat (seq s) + 1 < 2 ^ 64" "fmlookup (ipams s) nid = Some pool"
    "allocate pool k = Inr (pool', a)" "\<And>i d. active_in s nid i d \<Longrightarrow> wg_public_key d \<noteq> k"
  shows "store_inv (enrolled s nid code pool' (new_device s nid name k a))"
proof -
  note wf = store_invD(1) [OF assms(1)]
  let ?dev = "new_device s nid name k a"
  let ?t = "s\<lparr>ipams := fmupd nid pool' (ipams s), seq := seq s + 1, invites := use_invite code (invites s)\<rparr>"
  have pool': "ipam_ok pool'" using ipam_pool.alloc_new [OF store_wfD(3) [OF wf assms(3)] assms(4)] by simp
  have "store_wf (s\<lparr>ipams := fmupd nid pool' (ipams s)\<rparr>)"
    using wf_pool [OF wf pool'] assms(3) by simp
  from wf_seq [OF this] have t: "store_wf ?t" using assms(2) by simp
  have fresh: "fmlookup (devices s) (dev_id ?dev) = None"
    using store_wfD(5) [OF wf, of "dev_id ?dev"] by (cases "fmlookup (devices s) (dev_id ?dev)") (auto simp: new_device_def)
  have net: "fmlookup (networks s) nid \<noteq> None" using store_wfD(1) [OF wf, of nid] assms(3) by simp
  have "store_wf (?t\<lparr>devices := fmupd (dev_id ?dev) ?dev (devices ?t)\<rparr>)"
    by (rule wf_device [OF t]) (use fresh net drawn_next(2) [OF assms(2)] in \<open>simp_all add: new_device_def\<close>)
  moreover have "keys_unique (s\<lparr>devices := fmupd (dev_id ?dev) ?dev (devices s)\<rparr>)"
    by (rule keys_unique_new_device [OF store_invD(2) [OF assms(1)]]) (use assms(5) in \<open>simp add: new_device_def\<close>)
  moreover have "keys_unique (?t\<lparr>devices := fmupd (dev_id ?dev) ?dev (devices ?t)\<rparr>) \<longleftrightarrow>
      keys_unique (s\<lparr>devices := fmupd (dev_id ?dev) ?dev (devices s)\<rparr>)"
    by (rule keys_unique_cong) simp
  ultimately show ?thesis by (simp add: store_inv_def enrolled_def)
qed

lemma enroll_inv:
  assumes "store_inv s" "iter_ok ord" "unat (seq s) + 1 < 2 ^ 64"
  shows "store_inv (fst (enroll C ord s code name key now))"
proof -
  obtain s' r where e: "enroll C ord s code name key now = (s', r)" by (cases "enroll C ord s code name key now")
  from assms(2) e show ?thesis
  proof (cases rule: enroll_cases)
    case (new k invt pool pool' a dev)
    then show ?thesis using enrolled_inv [OF assms(1,3) new(5,6,4)] by (simp add: e)
  qed (simp_all add: e assms(1))
qed

text \<open>A batch import adds one device per key that is not yet active in the network.\<close>

definition imported :: "store \<Rightarrow> (string, ipam) fmap \<Rightarrow> (string, string list) fmap \<Rightarrow> device \<Rightarrow> store" where
  "imported s pools eps dev =
     s\<lparr>ipams := pools, seq := seq s + 1, endpoints := eps, devices := fmupd (dev_id dev) dev (devices s)\<rparr>"

definition import_pool :: "store \<Rightarrow> string \<Rightarrow> import_device \<Rightarrow> string \<Rightarrow> (string, ipam) fmap" where
  "import_pool s nid d key =
     (case (Option.bind (imp_address_v4 d) parse_ipv4, fmlookup (ipams s) nid) of
        (Some ip, Some pool) \<Rightarrow>
          (case reserve pool key (unat (to_be_bytes 4 ip ! 3)) of
             Inr pool \<Rightarrow> fmupd nid pool (ipams s) | Inl _ \<Rightarrow> ipams s)
      | _ \<Rightarrow> ipams s)"

definition import_dev :: "store \<Rightarrow> string \<Rightarrow> import_device \<Rightarrow> string \<Rightarrow> device" where
  "import_dev s nid d key =
     \<lparr>dev_id = show_id ''dev-'' (seq s), dev_network_id = nid, dev_name = imp_name d, wg_public_key = key,
      address_v4 = imp_address_v4 d, address_v6 = imp_address_v6 d, dev_status = Active\<rparr>"

lemma import_one_eq:
  "import_one nid d key (s, seen, res) =
     (if key \<in> seen then (s, seen, res\<lparr>imp_skipped := imp_skipped res @ [key]\<rparr>)
      else (imported s (import_pool s nid d key)
              (if imp_endpoints d \<noteq> [] then fmupd (show_id ''dev-'' (seq s)) (imp_endpoints d) (endpoints s) else endpoints s)
              (import_dev s nid d key),
            insert key seen, res\<lparr>imp_created := imp_created res @ [import_dev s nid d key]\<rparr>))"
proof -
  have pools: "(case Option.bind (imp_address_v4 d) parse_ipv4 of
        None \<Rightarrow> s
      | Some ip \<Rightarrow>
          (case fmlookup (ipams s) nid of
             None \<Rightarrow> s
           | Some pool \<Rightarrow>
               (case reserve pool key (unat (to_be_bytes 4 ip ! 3)) of
                  Inl _ \<Rightarrow> s | Inr pool \<Rightarrow> s\<lparr>ipams := fmupd nid pool (ipams s)\<rparr>))) =
      s\<lparr>ipams := import_pool s nid d key\<rparr>"
    by (simp add: import_pool_def split: option.split sum.split)
  show ?thesis by (simp add: import_one_def pools imported_def import_dev_def next_seq_def Let_def)
qed

lemma import_pool_wf:
  assumes "store_wf s"
  shows "store_wf (s\<lparr>ipams := import_pool s nid d key\<rparr>)"
proof (cases "import_pool s nid d key = ipams s")
  case True
  then show ?thesis using assms by simp
next
  case False
  then obtain ip pool pool' where p: "fmlookup (ipams s) nid = Some pool"
      "reserve pool key (unat (to_be_bytes 4 (ip :: u32) ! 3)) = Inr pool'"
      "import_pool s nid d key = fmupd nid pool' (ipams s)"
    by (auto simp: import_pool_def split: option.splits sum.splits)
  have "ipam_ok pool'" by (rule reserve_ok [OF store_wfD(3) [OF assms p(1)] unat_byte_less p(2)])
  then show ?thesis using wf_pool [OF assms] p(1,3) by simp
qed

lemma imported_inv:
  assumes "store_inv s" "unat (seq s) + 1 < 2 ^ 64" "fmlookup (networks s) nid \<noteq> None"
    "\<And>i e. active_in s nid i e \<Longrightarrow> wg_public_key e \<noteq> key"
  shows "store_inv (imported s (import_pool s nid d key) eps (import_dev s nid d key))"
proof -
  note wf = store_invD(1) [OF assms(1)]
  let ?dev = "import_dev s nid d key"
  let ?t = "s\<lparr>ipams := import_pool s nid d key, seq := seq s + 1, endpoints := eps\<rparr>"
  have t: "store_wf ?t" using wf_seq [OF import_pool_wf [OF wf, of nid d key]] assms(2) by simp
  have fresh: "fmlookup (devices s) (dev_id ?dev) = None"
    using store_wfD(5) [OF wf, of "dev_id ?dev"] by (cases "fmlookup (devices s) (dev_id ?dev)") (auto simp: import_dev_def)
  have "store_wf (?t\<lparr>devices := fmupd (dev_id ?dev) ?dev (devices ?t)\<rparr>)"
    by (rule wf_device [OF t]) (use fresh assms(3) drawn_next(2) [OF assms(2)] in \<open>simp_all add: import_dev_def\<close>)
  moreover have "keys_unique (s\<lparr>devices := fmupd (dev_id ?dev) ?dev (devices s)\<rparr>)"
    by (rule keys_unique_new_device [OF store_invD(2) [OF assms(1)]]) (use assms(4) in \<open>simp add: import_dev_def\<close>)
  moreover have "keys_unique (?t\<lparr>devices := fmupd (dev_id ?dev) ?dev (devices ?t)\<rparr>) \<longleftrightarrow>
      keys_unique (s\<lparr>devices := fmupd (dev_id ?dev) ?dev (devices s)\<rparr>)"
    by (rule keys_unique_cong) simp
  ultimately show ?thesis by (simp add: store_inv_def imported_def)
qed

text \<open>The import loop keeps the invariant, and every reflexive and transitive relation that holds of
  one step holds of the loop.\<close>

lemma import_loop:
  assumes refl: "\<And>s. R s s" and trans: "\<And>s t u. R s t \<Longrightarrow> R t u \<Longrightarrow> R s u"
    and step: "\<And>s d key eps. store_inv s \<Longrightarrow> (\<forall>j. j \<noteq> show_id ''dev-'' (seq s) \<longrightarrow> fmlookup eps j = fmlookup (endpoints s) j) \<Longrightarrow>
      R s (imported s (import_pool s nid d key) eps (import_dev s nid d key))"
    and "store_inv s" "unat (seq s) + length l < 2 ^ 64" "fmlookup (networks s) nid \<noteq> None"
    "\<And>i e. active_in s nid i e \<Longrightarrow> wg_public_key e \<in> seen"
    "fold (\<lambda>(d, key). import_one nid d key) l (s, seen, res) = (s', seen', res')"
  shows "store_inv s' \<and> R s s'"
  using assms(4-)
proof (induction l arbitrary: s seen res)
  case (Cons x l)
  obtain d key where x: "x = (d, key)" by (cases x)
  show ?case
  proof (cases "key \<in> seen")
    case True
    then show ?thesis using Cons.prems Cons.IH [of s seen] by (simp add: x import_one_eq)
  next
    case False
    let ?eps = "if imp_endpoints d \<noteq> [] then fmupd (show_id ''dev-'' (seq s)) (imp_endpoints d) (endpoints s) else endpoints s"
    let ?t = "imported s (import_pool s nid d key) ?eps (import_dev s nid d key)"
    have room: "unat (seq s) + 1 < 2 ^ 64" using Cons.prems(2) by simp
    have t: "store_inv ?t"
      by (rule imported_inv [OF Cons.prems(1) room Cons.prems(3)]) (use Cons.prems(4) False in blast)
    have first: "R s ?t" by (rule step [OF Cons.prems(1)]) simp
    have "store_inv s' \<and> R ?t s'"
    proof (rule Cons.IH [OF t])
      show "unat (seq ?t) + length l < 2 ^ 64" using Cons.prems(2) by (simp add: imported_def unat_word_ariths)
      show "wg_public_key e \<in> insert key seen" if "active_in ?t nid i e" for i e
        using that Cons.prems(4) [of i e] by (auto simp: active_in_def imported_def import_dev_def split: if_splits)
      show "fold (\<lambda>(d, key). import_one nid d key) l
          (?t, insert key seen, res\<lparr>imp_created := imp_created res @ [import_dev s nid d key]\<rparr>) = (s', seen', res')"
        using Cons.prems(5) False by (simp add: x import_one_eq)
    qed (use Cons.prems(3) in \<open>simp add: imported_def\<close>)
    then show ?thesis using trans [OF first] by blast
  qed
qed (simp add: refl)

lemma import_devices_cases:
  obtains (rejected) e where "import_devices C s nid devs = (s, Inl e)"
  | (completed) l s' seen seen' res where "fmlookup (networks s) nid \<noteq> None" "length l = length devs"
      "\<And>i e. active_in s nid i e \<Longrightarrow> wg_public_key e \<in> seen"
      "fold (\<lambda>(d, key). import_one nid d key) l (s, seen, \<lparr>imp_created = [], imp_skipped = []\<rparr>) = (s', seen', res)"
      "import_devices C s nid devs = ((if imp_created res \<noteq> [] then bump_epoch s' nid else s'), Inr res)"
proof -
  define ks where "ks = map (\<lambda>d. key_normalize C (imp_public_key d)) devs"
  obtain s' seen' res where f: "fold (\<lambda>(d, key). import_one nid d key) (zip devs (map the ks))
      (s, known_keys s nid, \<lparr>imp_created = [], imp_skipped = []\<rparr>) = (s', seen', res)"
    by (rule prod_cases3)
  have eq: "import_devices C s nid devs =
      (if None \<in> set ks then (s, Inl InvalidKey)
       else if fmlookup (networks s) nid = None then (s, Inl NetworkNotFound)
       else ((if imp_created res \<noteq> [] then bump_epoch s' nid else s'), Inr res))"
    unfolding import_devices_def Let_def ks_def [symmetric] f by simp
  have seen: "wg_public_key e \<in> known_keys s nid" if "active_in s nid i e" for i e
    using that by (auto simp: active_in_def known_keys_def intro: fmran'I)
  show thesis
  proof (cases "None \<in> set ks \<or> fmlookup (networks s) nid = None")
    case True
    then show thesis using eq rejected by metis
  next
    case False
    show thesis
      by (rule completed [OF _ _ seen f]) (use False eq in \<open>simp_all add: ks_def\<close>)
  qed
qed

lemma import_devices_inv:
  assumes "store_inv s" "unat (seq s) + length devs < 2 ^ 64"
  shows "store_inv (fst (import_devices C s nid devs))"
proof (rule import_devices_cases [of C s nid devs])
  fix l s' seen seen' res
  assume a: "fmlookup (networks s) nid \<noteq> None" "length l = length devs"
    "\<And>i e. active_in s nid i e \<Longrightarrow> wg_public_key e \<in> seen"
    "fold (\<lambda>(d, key). import_one nid d key) l (s, seen, \<lparr>imp_created = [], imp_skipped = []\<rparr>) = (s', seen', res)"
    "import_devices C s nid devs = ((if imp_created res \<noteq> [] then bump_epoch s' nid else s'), Inr res)"
  have "store_inv s' \<and> True"
    by (rule import_loop [where R = "\<lambda>_ _. True", OF _ _ _ assms(1) _ a(1,3,4)]) (use a(2) assms(2) in simp_all)
  then show ?thesis by (simp add: a(5))
qed (use assms in simp)

lemma revoke_device_eq:
  assumes "fmlookup (devices s) i = Some d"
  shows "revoke_device s i =
    (bump_epoch (s\<lparr>ipams := (case fmlookup (ipams s) (dev_network_id d) of
         Some pool \<Rightarrow> fmupd (dev_network_id d) (fst (recycle pool (wg_public_key d))) (ipams s) | None \<Rightarrow> ipams s),
       devices := fmupd i (d\<lparr>dev_status := Revoked\<rparr>) (devices s)\<rparr>) (dev_network_id d), Inr ())"
  using assms by (simp add: revoke_device_def Let_def split: option.split)

lemma revoke_device_inv:
  assumes "store_inv s"
  shows "store_inv (fst (revoke_device s i))"
proof (cases "fmlookup (devices s) i")
  case None
  then show ?thesis using assms by (simp add: revoke_device_def)
next
  case (Some d)
  note wf = store_invD(1) [OF assms]
  note dev = store_wfD(4,5,6) [OF wf Some]
  let ?p = "case fmlookup (ipams s) (dev_network_id d) of
         Some pool \<Rightarrow> fmupd (dev_network_id d) (fst (recycle pool (wg_public_key d))) (ipams s) | None \<Rightarrow> ipams s"
  let ?t = "s\<lparr>ipams := ?p\<rparr>" and ?d = "d\<lparr>dev_status := Revoked\<rparr>"
  have t: "store_wf ?t"
  proof (cases "fmlookup (ipams s) (dev_network_id d)")
    case pool: (Some pool)
    obtain pool' b where r: "recycle pool (wg_public_key d) = (pool', b)" by (cases "recycle pool (wg_public_key d)")
    have "ipam_ok pool'" using recycle_ok [OF store_wfD(3) [OF wf pool] r] by simp
    then show ?thesis using wf_pool [OF wf, of pool' "dev_network_id d"] pool by (simp add: r)
  qed (use wf in simp)
  have i: "dev_id ?d = i" using dev(1) by simp
  have "store_wf (?t\<lparr>devices := fmupd (dev_id ?d) ?d (devices ?t)\<rparr>)"
  proof (rule wf_device [OF t])
    show "drawn (seq ?t) ''dev-'' (dev_id ?d)" unfolding i using dev(2) by simp
    show "fmlookup (networks ?t) (dev_network_id ?d) \<noteq> None" using dev(3) by simp
    show "dev_network_id d' = dev_network_id ?d" if "fmlookup (devices ?t) (dev_id ?d) = Some d'" for d'
      using that Some unfolding i by simp
  qed
  then have "store_wf (?t\<lparr>devices := fmupd i ?d (devices s)\<rparr>)" unfolding i by simp
  moreover have "keys_unique (?t\<lparr>devices := fmupd i ?d (devices s)\<rparr>) \<longleftrightarrow>
      keys_unique (s\<lparr>devices := fmupd i ?d (devices s)\<rparr>)"
    by (rule keys_unique_cong) simp
  ultimately show ?thesis
    using keys_unique_revoke [OF store_invD(2) [OF assms], of i d] by (simp add: revoke_device_eq [OF Some] store_inv_def)
qed

lemma set_endpoints_inv:
  assumes "store_inv s"
  shows "store_inv (fst (set_endpoints s i eps))"
proof -
  have "store_inv (s\<lparr>endpoints := m\<rparr>)" for m
    by (rule inv_cong [OF assms]) (use store_invD(1) [OF assms] in simp_all)
  then show ?thesis using assms by (simp add: set_endpoints_def split: option.split)
qed

lemma advertise_route_inv:
  assumes "store_inv s" "unat (seq s) + 1 < 2 ^ 64"
  shows "store_inv (fst (advertise_route s i prefix))"
proof (rule inv_cong [OF assms(1)])
  note wf = wf_seq [OF store_invD(1) [OF assms(1)] assms(2)]
  have "store_wf (s\<lparr>seq := seq s + 1, routes := fmupd (show_id ''route-'' (seq s)) r (routes s)\<rparr>)"
    if "fmlookup (devices s) i = Some d" "route_device_id r = i" "route_network_id r = dev_network_id d" for d r
    using wf_route [OF wf, of "show_id ''route-'' (seq s)" r d] that drawn_next(2) [OF assms(2)] by simp
  then show "store_wf (fst (advertise_route s i prefix))"
    using wf store_invD(1) [OF assms(1)]
    by (auto simp: advertise_route_def next_seq_def Let_def split: option.split)
  show "devices (fst (advertise_route s i prefix)) = devices s"
    by (simp add: advertise_route_def next_seq_def Let_def split: option.split)
qed

lemma approve_route_inv:
  assumes "store_inv s"
  shows "store_inv (fst (approve_route s i))"
proof (cases "fmlookup (routes s) i")
  case (Some r)
  note wf = store_invD(1) [OF assms]
  obtain d where d: "fmlookup (devices s) (route_device_id r) = Some d" "dev_network_id d = route_network_id r"
    using store_wfD(8) [OF wf Some] by blast
  have "store_wf (s\<lparr>routes := fmupd i (r\<lparr>approved := True\<rparr>) (routes s)\<rparr>)"
    by (rule wf_route [OF wf store_wfD(7) [OF wf Some]]) (use d in simp_all)
  then have "store_inv (s\<lparr>routes := fmupd i (r\<lparr>approved := True\<rparr>) (routes s)\<rparr>)"
    by (rule inv_cong [OF assms]) simp
  then show ?thesis using Some by (simp add: approve_route_def)
qed (use assms in \<open>simp add: approve_route_def\<close>)

lemma delete_route_inv:
  assumes "store_inv s"
  shows "store_inv (fst (delete_route s i))"
proof -
  have "store_inv (s\<lparr>routes := fmdrop i (routes s)\<rparr>)"
    by (rule inv_cong [OF assms wf_drop_route [OF store_invD(1) [OF assms]]]) simp
  then show ?thesis using assms by (simp add: delete_route_def Let_def split: option.split)
qed

lemma register_relay_inv:
  assumes "store_inv s" "unat (seq s) + 1 < 2 ^ 64"
  shows "store_inv (fst (register_relay_authenticated ord s region url scope anytls stun identity))"
proof -
  note wf = wf_seq [OF store_invD(1) [OF assms(1)] assms(2)]
  have "store_inv (s\<lparr>seq := seq s + 1, relays := fmupd (show_id ''relay-'' (seq s)) r (relays s)\<rparr>)" for r
    by (rule inv_cong [OF assms(1)])
      (use wf_relay [OF wf, of "show_id ''relay-'' (seq s)" r] drawn_next(2) [OF assms(2)] in simp_all)
  then show ?thesis by (simp add: register_relay_authenticated_def next_seq_def Let_def)
qed

lemma update_relay_inv:
  assumes "store_inv s"
  shows "store_inv (fst (update_relay ord s r))"
proof -
  have "store_inv (s\<lparr>relays := fmupd (rn_id r) r (relays s)\<rparr>)" if "fmlookup (relays s) (rn_id r) = Some old" for old
    by (rule inv_cong [OF assms])
      (use wf_relay [OF store_invD(1) [OF assms] store_wfD(9) [OF store_invD(1) [OF assms] that]] in simp_all)
  then show ?thesis using assms by (auto simp: update_relay_def Let_def split: option.split)
qed

lemma enroll_seq:
  assumes "iter_ok ord"
  shows "seq (fst (enroll C ord s code name key now)) = seq s \<or>
    seq (fst (enroll C ord s code name key now)) = seq s + 1"
proof -
  obtain s' r where e: "enroll C ord s code name key now = (s', r)" by (cases "enroll C ord s code name key now")
  from assms e show ?thesis
    by (cases rule: enroll_cases) (simp_all add: e enrolled_def)
qed

lemma import_loop_seq:
  assumes "fold (\<lambda>(d, key). import_one nid d key) l (s, seen, res) = (s', seen', res')"
  shows "\<exists>k \<le> length l. seq s' = seq s + of_nat k"
  using assms
proof (induction l arbitrary: s seen res)
  case (Cons x l)
  obtain d key where x: "x = (d, key)" by (cases x)
  obtain t seen1 res1 where one: "import_one nid d key (s, seen, res) = (t, seen1, res1)" by (rule prod_cases3)
  have "seq t = seq s \<or> seq t = seq s + 1"
    using one by (auto simp: import_one_eq imported_def split: if_splits)
  moreover obtain k where k: "k \<le> length l" "seq s' = seq t + of_nat k"
    using Cons.IH [of t seen1 res1] Cons.prems by (auto simp: x one)
  ultimately show ?case
    by (elim disjE) (auto intro: exI [of _ k] exI [of _ "Suc k"])
qed simp

lemma import_devices_seq: "\<exists>k \<le> length devs. seq (fst (import_devices C s nid devs)) = seq s + of_nat k"
proof (rule import_devices_cases [of C s nid devs])
  fix l s' seen seen' res
  assume "length l = length devs"
    "fold (\<lambda>(d, key). import_one nid d key) l (s, seen, \<lparr>imp_created = [], imp_skipped = []\<rparr>) = (s', seen', res)"
    "import_devices C s nid devs = ((if imp_created res \<noteq> [] then bump_epoch s' nid else s'), Inr res)"
  then show ?thesis using import_loop_seq [of nid l s seen _ s' seen' res] by fastforce
qed auto

lemma apply_op_seq:
  assumes "op_ok oper"
  shows "\<exists>k \<le> ids_drawn oper. seq (apply_op C oper s) = seq s + of_nat k"
proof -
  have one: "\<exists>k \<le> 1. t = seq s + of_nat k" if "t = seq s \<or> t = seq s + 1" for t
    using that by (auto intro: exI [of _ 0] exI [of _ 1])
  show ?thesis
  proof (cases oper)
    case (OpImport nid devs)
    then show ?thesis using import_devices_seq [of devs C s nid] by (simp add: apply_op_def ids_drawn_def)
  next
    case (OpEnroll ord code name key now)
    then show ?thesis using assms one [OF enroll_seq] by (simp add: apply_op_def ids_drawn_def op_ok_def)
  qed (auto simp: apply_op_def ids_drawn_def create_network_def create_invite_def revoke_device_def
      set_endpoints_def advertise_route_def approve_route_def delete_route_def
      register_relay_authenticated_def update_relay_def subscribe_def next_seq_def Let_def
      intro!: one split: option.split)
qed

lemma apply_op_inv:
  assumes "store_inv s" "op_ok oper" "unat (seq s) + ids_drawn oper < 2 ^ 64"
  shows "store_inv (apply_op C oper s)"
  using assms
  by (cases oper) (simp_all add: apply_op_def ids_drawn_def op_ok_def create_network_inv create_invite_inv
      enroll_inv import_devices_inv revoke_device_inv set_endpoints_inv advertise_route_inv approve_route_inv
      delete_route_inv register_relay_inv update_relay_inv subscribe_inv)

lemma step_room:
  assumes "op_ok oper" "unat (seq s) + (ids_drawn oper + m) < 2 ^ 64"
  shows "unat (seq (apply_op C oper s)) + m < 2 ^ 64" "unat (seq (apply_op C oper s)) \<le> unat (seq s) + ids_drawn oper"
proof -
  obtain k where k: "k \<le> ids_drawn oper" "seq (apply_op C oper s) = seq s + of_nat k"
    using apply_op_seq [of oper C s] assms(1) by auto
  then have "unat (seq (apply_op C oper s)) = unat (seq s) + k"
    using assms(2) by (simp add: unat_word_ariths unat_of_nat)
  then show "unat (seq (apply_op C oper s)) + m < 2 ^ 64" "unat (seq (apply_op C oper s)) \<le> unat (seq s) + ids_drawn oper"
    using k(1) assms(2) by simp_all
qed

text \<open>A run keeps the invariant, and every reflexive and transitive relation that holds of one request
  holds of the run.\<close>

lemma run_relates:
  assumes refl: "\<And>s. R s s" and trans: "\<And>s t u. R s t \<Longrightarrow> R t u \<Longrightarrow> R s u"
    and step: "\<And>s oper. store_inv s \<Longrightarrow> op_ok oper \<Longrightarrow> unat (seq s) + ids_drawn oper < 2 ^ 64 \<Longrightarrow> R s (apply_op C oper s)"
    and "list_all op_ok ops" "unat (seq s) + sum_list (map ids_drawn ops) < 2 ^ 64" "store_inv s"
  shows "store_inv (fold (apply_op C) ops s) \<and> R s (fold (apply_op C) ops s)"
  using assms(4-)
proof (induction ops arbitrary: s)
  case (Cons oper ops)
  have o: "op_ok oper" "unat (seq s) + ids_drawn oper < 2 ^ 64" using Cons.prems by simp_all
  have "R s (apply_op C oper s)" by (rule step [OF Cons.prems(3) o])
  moreover have "store_inv (fold (apply_op C) ops (apply_op C oper s)) \<and>
      R (apply_op C oper s) (fold (apply_op C) ops (apply_op C oper s))"
    by (rule Cons.IH) (use Cons.prems step_room(1) [OF o(1)] apply_op_inv [OF Cons.prems(3) o] in simp_all)
  ultimately show ?case using trans by auto
qed (simp add: refl)

lemma store_run_inv: "run_ok ops \<Longrightarrow> store_inv (store_run C ops)"
  using run_relates [of "\<lambda>_ _. True" C ops store_new] store_inv_new
  by (simp add: run_ok_def store_run_def seq_store_new)

lemma run_prefix_seq:
  assumes "list_all op_ok ops" "unat (seq s) + sum_list (map ids_drawn ops) < 2 ^ 64"
  shows "unat (seq (fold (apply_op C) ops s)) \<le> unat (seq s) + sum_list (map ids_drawn ops)"
  using assms
proof (induction ops arbitrary: s)
  case (Cons oper ops)
  then show ?case using Cons.IH [of "apply_op C oper s"] step_room [of oper s _ C] by fastforce
qed simp

lemma run_seq:
  assumes "run_ok ops"
  shows "unat (seq (store_run C ops)) \<le> 1 + sum_list (map ids_drawn ops)"
  using run_prefix_seq [of ops store_new C] assms by (simp add: run_ok_def store_run_def store_new_def)

end
