(* ===== verification/Control_Sync.thy ===== *)
theory Control_Sync
  imports Control_Invariants
begin

text \<open>
  The configuration epoch: clients pull their configuration again when the epoch of their network
  has changed, so every request that changes what a device would pull has to change the epoch.
\<close>

section \<open>What a network's devices can see\<close>

text \<open>Two stores agree on a network: its devices with their endpoints, its approved routes, the
  relays that serve it and its address ranges.\<close>

definition same_slice :: "store \<Rightarrow> store \<Rightarrow> string \<Rightarrow> bool" where
  "same_slice s s' nid \<longleftrightarrow>
     (\<forall>i d. dev_network_id d = nid \<longrightarrow> (fmlookup (devices s) i = Some d \<longleftrightarrow> fmlookup (devices s') i = Some d)) \<and>
     (\<forall>i d. fmlookup (devices s) i = Some d \<and> dev_network_id d = nid \<longrightarrow>
        fmlookup (endpoints s) i = fmlookup (endpoints s') i) \<and>
     (\<forall>i r. route_network_id r = nid \<and> approved r \<longrightarrow>
        (fmlookup (routes s) i = Some r \<longleftrightarrow> fmlookup (routes s') i = Some r)) \<and>
     (\<forall>i r. relay_serves (rn_network_id r) nid \<longrightarrow>
        (fmlookup (relays s) i = Some r \<longleftrightarrow> fmlookup (relays s') i = Some r)) \<and>
     map_option (\<lambda>n. (ipv4_pool n, ipv6_ula n)) (fmlookup (networks s) nid) =
     map_option (\<lambda>n. (ipv4_pool n, ipv6_ula n)) (fmlookup (networks s') nid)"

lemma same_slice_refl [simp]: "same_slice s s nid"
  by (simp add: same_slice_def)

lemma same_slice_trans: "same_slice s t nid \<Longrightarrow> same_slice t u nid \<Longrightarrow> same_slice s u nid"
  unfolding same_slice_def by simp metis

text \<open>No change without a new epoch.\<close>

definition quiet :: "store \<Rightarrow> store \<Rightarrow> string \<Rightarrow> bool" where
  "quiet s s' nid \<longleftrightarrow> (network_epoch s' nid = network_epoch s nid \<longrightarrow> same_slice s s' nid)"

lemma quietI: "same_slice s s' nid \<Longrightarrow> quiet s s' nid"
  by (simp add: quiet_def)

lemma same_slice_bump: "nid \<noteq> n \<Longrightarrow> same_slice s (bump_epoch t n) nid \<longleftrightarrow> same_slice s t nid"
  by (simp add: same_slice_def bump_epoch_networks)

lemma bump_quiet:
  assumes "fmlookup (networks s) nid \<noteq> None" "fmlookup (networks t) nid = fmlookup (networks s) nid"
    "nid \<noteq> n \<Longrightarrow> same_slice s t nid"
  shows "quiet s (bump_epoch t n) nid"
proof (cases "nid = n")
  case True
  then show ?thesis using assms(1,2) by (auto simp: quiet_def network_epoch_def bump_epoch_networks)
qed (use assms in \<open>simp add: quietI same_slice_bump\<close>)

lemma bump_all_quiet:
  assumes "fmlookup (networks s) nid \<noteq> None" "fmlookup (networks t) nid = fmlookup (networks s) nid"
    "distinct ns" "nid \<notin> set ns \<Longrightarrow> same_slice s t nid"
  shows "quiet s (fold (\<lambda>n s. bump_epoch s n) ns t) nid"
proof (cases "nid \<in> set ns")
  case True
  then show ?thesis using assms(1-3) by (auto simp: quiet_def network_epoch_def bump_all_networks)
next
  case False
  then show ?thesis using assms(3,4) by (auto intro!: quietI simp: same_slice_def bump_all_networks)
qed

section \<open>Every request\<close>

lemma drawn_None:
  assumes "store_wf s"
  shows "fmlookup (devices s) (show_id ''dev-'' (seq s)) = None"
    "fmlookup (routes s) (show_id ''route-'' (seq s)) = None"
    "fmlookup (relays s) (show_id ''relay-'' (seq s)) = None"
    "fmlookup (networks s) (show_id ''net-'' (seq s)) = None"
  using store_wfD(5) [OF assms] store_wfD(7) [OF assms] store_wfD(9) [OF assms] store_wfD(2) [OF assms] drawn_fresh
  by (metis not_None_eq)+

lemma create_network_quiet:
  assumes "store_wf s" "fmlookup (networks s) nid \<noteq> None"
  shows "quiet s (fst (create_network s name random)) nid"
  using assms(2) drawn_None(4) [OF assms(1)]
  by (auto intro!: quietI simp: same_slice_def create_network_def next_seq_def Let_def)

lemma create_invite_quiet: "quiet s (fst (create_invite s code n e m)) nid"
  by (auto intro!: quietI simp: same_slice_def create_invite_def Let_def)

lemma subscribe_quiet: "quiet s (fst (subscribe s n)) nid"
  by (auto intro!: quietI simp: same_slice_def subscribe_def split: option.split)

lemma enroll_quiet:
  assumes "store_wf s" "fmlookup (networks s) nid \<noteq> None" "iter_ok ord"
  shows "quiet s (fst (enroll C ord s code name key now)) nid"
proof -
  obtain s' r where e: "enroll C ord s code name key now = (s', r)" by (cases "enroll C ord s code name key now")
  from assms(3) e show ?thesis
  proof (cases rule: enroll_cases)
    case (new k invt pool pool' a dev)
    have "quiet s s' nid" unfolding new(9)
    proof (rule bump_quiet [OF assms(2)])
      show "same_slice s (enrolled s (inv_network_id invt) code pool' dev) nid" if "nid \<noteq> inv_network_id invt"
        using that drawn_None(1) [OF assms(1)] unfolding new(7)
        by (auto simp: same_slice_def enrolled_def new_device_def)
    qed (simp add: enrolled_def)
    then show ?thesis by (simp add: e)
  qed (simp_all add: e quietI)
qed

lemma revoke_quiet:
  assumes "fmlookup (networks s) nid \<noteq> None"
  shows "quiet s (fst (revoke_device s i)) nid"
proof (cases "fmlookup (devices s) i")
  case (Some d)
  show ?thesis unfolding revoke_device_eq [OF Some] fst_conv
    by (rule bump_quiet [OF assms]) (use Some in \<open>auto simp: same_slice_def\<close>)
qed (simp add: revoke_device_def quietI)

lemma set_endpoints_quiet:
  assumes "fmlookup (networks s) nid \<noteq> None"
  shows "quiet s (fst (set_endpoints s i eps)) nid"
proof (cases "fmlookup (devices s) i")
  case (Some d)
  have "quiet s (bump_epoch (s\<lparr>endpoints := fmupd i eps (endpoints s)\<rparr>) (dev_network_id d)) nid"
    by (rule bump_quiet [OF assms]) (use Some in \<open>auto simp: same_slice_def\<close>)
  then show ?thesis using Some by (simp add: set_endpoints_def)
qed (simp add: set_endpoints_def quietI)

lemma advertise_quiet:
  assumes "store_wf s"
  shows "quiet s (fst (advertise_route s i prefix)) nid"
  using drawn_None(2) [OF assms]
  by (auto intro!: quietI simp: same_slice_def advertise_route_def next_seq_def Let_def split: option.split)

lemma approve_quiet:
  assumes "fmlookup (networks s) nid \<noteq> None"
  shows "quiet s (fst (approve_route s i)) nid"
proof (cases "fmlookup (routes s) i")
  case (Some r)
  have "quiet s (bump_epoch (s\<lparr>routes := fmupd i (r\<lparr>approved := True\<rparr>) (routes s)\<rparr>) (route_network_id r)) nid"
    by (rule bump_quiet [OF assms]) (use Some in \<open>auto simp: same_slice_def\<close>)
  then show ?thesis using Some by (simp add: approve_route_def)
qed (simp add: approve_route_def quietI)

lemma delete_quiet:
  assumes "fmlookup (networks s) nid \<noteq> None"
  shows "quiet s (fst (delete_route s i)) nid"
proof (cases "fmlookup (routes s) i")
  case (Some r)
  have "quiet s (bump_epoch (s\<lparr>routes := fmdrop i (routes s)\<rparr>) (route_network_id r)) nid"
    by (rule bump_quiet [OF assms]) (use Some in \<open>auto simp: same_slice_def\<close>)
  moreover have "quiet s (s\<lparr>routes := fmdrop i (routes s)\<rparr>) nid" if "\<not> approved r"
    using Some that by (auto intro!: quietI simp: same_slice_def)
  ultimately show ?thesis using Some by (simp add: delete_route_def Let_def)
qed (simp add: delete_route_def quietI)

lemma register_relay_quiet:
  assumes "store_wf s" "fmlookup (networks s) nid \<noteq> None" "iter_ok ord"
  shows "quiet s (fst (register_relay_authenticated ord s region url scope anytls stun identity)) nid"
proof -
  let ?ns = "filter (relay_serves scope) (hm_keys ord (networks s))"
  have "distinct ?ns" using assms(3) by (simp add: hm_keys_def iter_ok_def)
  moreover have "quiet s (fold (\<lambda>n s. bump_epoch s n) ?ns
      (s\<lparr>seq := seq s + 1, relays := fmupd (show_id ''relay-'' (seq s)) r (relays s)\<rparr>)) nid"
    if "rn_network_id r = scope" for r
  proof (rule bump_all_quiet [OF assms(2) _ \<open>distinct ?ns\<close>])
    assume "nid \<notin> set ?ns"
    then have "\<not> relay_serves scope nid" using assms(2) set_hm_keys [OF assms(3), of nid "networks s"] by auto
    then show "same_slice s (s\<lparr>seq := seq s + 1, relays := fmupd (show_id ''relay-'' (seq s)) r (relays s)\<rparr>) nid"
      using drawn_None(3) [OF assms(1)] that by (auto simp: same_slice_def)
  qed simp
  ultimately show ?thesis by (simp add: register_relay_authenticated_def next_seq_def Let_def)
qed

lemma update_relay_quiet:
  assumes "fmlookup (networks s) nid \<noteq> None" "iter_ok ord"
  shows "quiet s (fst (update_relay ord s r)) nid"
proof (cases "fmlookup (relays s) (rn_id r)")
  case (Some old)
  let ?ns = "filter (\<lambda>n. relay_serves (rn_network_id old) n \<or> relay_serves (rn_network_id r) n) (hm_keys ord (networks s))"
  have d: "distinct ?ns" using assms(2) by (simp add: hm_keys_def iter_ok_def)
  have "quiet s (fold (\<lambda>n s. bump_epoch s n) ?ns (s\<lparr>relays := fmupd (rn_id r) r (relays s)\<rparr>)) nid"
  proof (rule bump_all_quiet [OF assms(1) _ d])
    assume "nid \<notin> set ?ns"
    then have "\<not> relay_serves (rn_network_id old) nid \<and> \<not> relay_serves (rn_network_id r) nid"
      using assms(1) set_hm_keys [OF assms(2), of nid "networks s"] by auto
    then show "same_slice s (s\<lparr>relays := fmupd (rn_id r) r (relays s)\<rparr>) nid"
      using Some by (auto simp: same_slice_def)
  qed simp
  then show ?thesis using Some by (simp add: update_relay_def Let_def quietI)
qed (simp add: update_relay_def quietI)

lemma import_step_slice:
  assumes "store_inv s" "\<forall>j. j \<noteq> show_id ''dev-'' (seq s) \<longrightarrow> fmlookup eps j = fmlookup (endpoints s) j" "nid \<noteq> n"
  shows "same_slice s (imported s (import_pool s n d key) eps (import_dev s n d key)) nid"
proof -
  note fresh = drawn_None(1) [OF store_invD(1) [OF assms(1)]]
  have "fmlookup eps i = fmlookup (endpoints s) i" if "fmlookup (devices s) i = Some e" for i e
    using assms(2) that fresh by (metis option.distinct(1))
  then show ?thesis using fresh assms(3) by (auto simp: same_slice_def imported_def import_dev_def)
qed

lemma import_loop_created:
  assumes "fold (\<lambda>(d, key). import_one n d key) l (s, seen, res) = (s', seen', res')"
  shows "(imp_created res' = [] \<longrightarrow> s' = s \<and> imp_created res = []) \<and> networks s' = networks s"
  using assms
proof (induction l arbitrary: s seen res)
  case (Cons x l)
  obtain d key where x: "x = (d, key)" by (cases x)
  then show ?case
    using Cons.prems Cons.IH by (cases "key \<in> seen") (auto simp: import_one_eq imported_def dest!: Cons.IH)
qed simp

lemma import_quiet:
  assumes "store_inv s" "unat (seq s) + length devs < 2 ^ 64" "fmlookup (networks s) nid \<noteq> None"
  shows "quiet s (fst (import_devices C s n devs)) nid"
proof (rule import_devices_cases [of C s n devs])
  fix l s' seen seen' res
  assume a: "fmlookup (networks s) n \<noteq> None" "length l = length devs"
    "\<And>i e. active_in s n i e \<Longrightarrow> wg_public_key e \<in> seen"
    "fold (\<lambda>(d, key). import_one n d key) l (s, seen, \<lparr>imp_created = [], imp_skipped = []\<rparr>) = (s', seen', res)"
    "import_devices C s n devs = ((if imp_created res \<noteq> [] then bump_epoch s' n else s'), Inr res)"
  note created = import_loop_created [OF a(4)]
  have "quiet s (bump_epoch s' n) nid"
  proof (rule bump_quiet [OF assms(3)])
    show "same_slice s s' nid" if "nid \<noteq> n"
    proof -
      have "store_inv s' \<and> same_slice s s' nid"
        by (rule import_loop [where R = "\<lambda>s s'. same_slice s s' nid", OF _ _ _ assms(1) _ a(1,3,4)])
          (use a(2) assms(2) that in \<open>auto intro: same_slice_trans import_step_slice\<close>)
      then show ?thesis by simp
    qed
  qed (use created in simp)
  then show ?thesis using created by (auto simp: a(5) quietI)
qed (simp add: quietI)

lemma apply_op_quiet:
  assumes "store_inv s" "op_ok oper" "unat (seq s) + ids_drawn oper < 2 ^ 64" "fmlookup (networks s) nid \<noteq> None"
  shows "quiet s (apply_op C oper s) nid"
  using assms store_invD(1) [OF assms(1)]
  by (cases oper) (simp_all add: apply_op_def ids_drawn_def op_ok_def create_network_quiet create_invite_quiet
      enroll_quiet import_quiet revoke_quiet set_endpoints_quiet advertise_quiet approve_quiet delete_quiet
      register_relay_quiet update_relay_quiet subscribe_quiet)

section \<open>Devices stay in their network, and revoked\<close>

definition dev_stable :: "store \<Rightarrow> store \<Rightarrow> bool" where
  "dev_stable s s' \<longleftrightarrow>
     (\<forall>i d. fmlookup (devices s) i = Some d \<longrightarrow>
        (\<exists>d'. fmlookup (devices s') i = Some d' \<and> dev_network_id d' = dev_network_id d \<and>
           wg_public_key d' = wg_public_key d \<and> (dev_status d = Revoked \<longrightarrow> dev_status d' = Revoked)))"

lemma dev_stableI: "devices s' = devices s \<Longrightarrow> dev_stable s s'"
  by (simp add: dev_stable_def)

lemma dev_stableD:
  assumes "dev_stable s s'" "fmlookup (devices s) i = Some d"
  obtains d' where "fmlookup (devices s') i = Some d'" "dev_network_id d' = dev_network_id d"
    "wg_public_key d' = wg_public_key d" "dev_status d = Revoked \<Longrightarrow> dev_status d' = Revoked"
  using assms unfolding dev_stable_def by blast

lemma dev_stable_add: "fmlookup (devices s) j = None \<Longrightarrow> devices s' = fmupd j d (devices s) \<Longrightarrow> dev_stable s s'"
  by (auto simp: dev_stable_def)

lemma dev_stable_trans: "dev_stable s t \<Longrightarrow> dev_stable t u \<Longrightarrow> dev_stable s u"
  unfolding dev_stable_def by fastforce

lemma import_stable:
  assumes "store_inv s" "unat (seq s) + length devs < 2 ^ 64"
  shows "dev_stable s (fst (import_devices C s n devs))"
proof (rule import_devices_cases [of C s n devs])
  fix l s' seen seen' res
  assume a: "fmlookup (networks s) n \<noteq> None" "length l = length devs"
    "\<And>i e. active_in s n i e \<Longrightarrow> wg_public_key e \<in> seen"
    "fold (\<lambda>(d, key). import_one n d key) l (s, seen, \<lparr>imp_created = [], imp_skipped = []\<rparr>) = (s', seen', res)"
    "import_devices C s n devs = ((if imp_created res \<noteq> [] then bump_epoch s' n else s'), Inr res)"
  have "store_inv s' \<and> dev_stable s s'"
  proof (rule import_loop [where R = dev_stable, OF _ _ _ assms(1) _ a(1,3,4)])
    show "dev_stable t (imported t (import_pool t n d key) eps (import_dev t n d key))" if "store_inv t" for t d key eps
      by (rule dev_stable_add [OF drawn_None(1) [OF store_invD(1) [OF that]]]) (simp add: imported_def import_dev_def)
    show "dev_stable t v" if "dev_stable t u" "dev_stable u v" for t u v using that by (rule dev_stable_trans)
  qed (use a(2) assms(2) in \<open>simp_all add: dev_stableI\<close>)
  then show ?thesis by (simp add: a(5) dev_stable_def)
qed (simp add: dev_stableI)

lemma apply_op_stable:
  assumes "store_inv s" "op_ok oper" "unat (seq s) + ids_drawn oper < 2 ^ 64"
  shows "dev_stable s (apply_op C oper s)"
proof (cases oper)
  case (OpEnroll ord code name key now)
  obtain s' r where e: "enroll C ord s code name key now = (s', r)" by (cases "enroll C ord s code name key now")
  have "iter_ok ord" using assms(2) OpEnroll by (simp add: op_ok_def)
  from this e have "dev_stable s s'"
  proof (cases rule: enroll_cases)
    case (new k invt pool pool' a dev)
    show ?thesis
      by (rule dev_stable_add [OF drawn_None(1) [OF store_invD(1) [OF assms(1)]]])
        (simp add: new(7,9) enrolled_def new_device_def)
  qed (simp_all add: dev_stableI)
  then show ?thesis using e OpEnroll by (simp add: apply_op_def)
next
  case (OpImport n devs)
  then show ?thesis using import_stable [OF assms(1), of devs C n] assms(3) by (simp add: apply_op_def ids_drawn_def)
next
  case (OpRevoke i)
  show ?thesis
  proof (cases "fmlookup (devices s) i")
    case (Some d)
    then show ?thesis using OpRevoke by (auto simp: apply_op_def dev_stable_def revoke_device_eq)
  qed (simp add: OpRevoke apply_op_def revoke_device_def dev_stableI)
qed (auto intro!: dev_stableI simp: apply_op_def create_network_def create_invite_def set_endpoints_def
    advertise_route_def approve_route_def delete_route_def register_relay_authenticated_def update_relay_def
    subscribe_def next_seq_def Let_def split: option.split)

section \<open>Configurations up to iteration order\<close>

definition peer_view :: "peer_config \<Rightarrow> string \<times> string set \<times> string list \<times> bool" where
  "peer_view p = (pc_public_key p, set (pc_allowed_ips p), pc_endpoints p, pc_exit p)"

definition same_config :: "device_config \<Rightarrow> device_config \<Rightarrow> bool" where
  "same_config c c' \<longleftrightarrow>
     overlay_cidrs c = overlay_cidrs c' \<and> dc_network_id c = dc_network_id c' \<and>
     dc_config_epoch c = dc_config_epoch c' \<and> dc_address_v4 c = dc_address_v4 c' \<and>
     dc_address_v6 c = dc_address_v6 c' \<and> peer_view ` set (dc_peers c) = peer_view ` set (dc_peers c') \<and>
     set (dc_relays c) = set (dc_relays c') \<and> dc_mtu c = dc_mtu c' \<and> dc_dns c = dc_dns c' \<and>
     dc_self_exit c = dc_self_exit c'"

text \<open>The approved routes of a network, with the device that advertised them.\<close>

definition approved_in :: "store \<Rightarrow> string \<Rightarrow> (string \<times> string) set" where
  "approved_in s nid =
     {(route_device_id r, route_prefix r) |i r. fmlookup (routes s) i = Some r \<and> route_network_id r = nid \<and> approved r}"

definition peer_view_of :: "store \<Rightarrow> string \<Rightarrow> string \<Rightarrow> device \<Rightarrow> string \<times> string set \<times> string list \<times> bool" where
  "peer_view_of s nid i d =
     (wg_public_key d,
      (case address_v4 d of Some v4 \<Rightarrow> {v4 @ ''/32''} | None \<Rightarrow> {}) \<union>
      (case address_v6 d of Some v6 \<Rightarrow> {v6 @ ''/128''} | None \<Rightarrow> {}) \<union> {p. (i, p) \<in> approved_in s nid},
      (case fmlookup (endpoints s) i of Some eps \<Rightarrow> eps | None \<Rightarrow> []),
      \<exists>p. (i, p) \<in> approved_in s nid \<and> is_default_prefix p)"

lemma set_own_routes: "set (map snd (filter (\<lambda>(did, _). did = j) appr)) = {p. (j, p) \<in> set appr}"
  by force

lemma own_default: "list_ex (\<lambda>(did, p). did = j \<and> P p) appr \<longleftrightarrow> (\<exists>p. (j, p) \<in> set appr \<and> P p)"
  by (force simp: list_ex_iff)

lemma peer_view_config:
  assumes "set appr = approved_in s nid"
  shows "peer_view (peer_config_of appr s d) = peer_view_of s nid (dev_id d) d"
  using set_own_routes [of "dev_id d" appr] own_default [of "dev_id d" is_default_prefix appr]
  by (simp add: peer_view_def peer_config_of_def peer_view_of_def assms split: option.split)

text \<open>What a device pulls, without reference to an iteration order: exactly the other active devices
  of its network, each with its own addresses and the approved routes it advertised itself, and
  the relays that serve the network.\<close>

lemma get_device_config_Inr:
  assumes "iter_ok ord" "store_wf s" "get_device_config ord s i = Inr c"
  obtains me where "active_in s (dc_network_id c) i me"
    "overlay_cidrs c = (case fmlookup (networks s) (dc_network_id c) of Some n \<Rightarrow> [ipv4_pool n, ipv6_ula n] | None \<Rightarrow> [])"
    "Some (dc_config_epoch c) = network_epoch s (dc_network_id c)"
    "dc_address_v4 c = address_v4 me" "dc_address_v6 c = address_v6 me"
    "peer_view ` set (dc_peers c) =
       {peer_view_of s (dc_network_id c) j d |j d. active_in s (dc_network_id c) j d \<and> j \<noteq> i}"
    "set (dc_relays c) = {r. \<exists>j. fmlookup (relays s) j = Some r \<and> relay_serves (rn_network_id r) (dc_network_id c)}"
    "dc_mtu c = None" "dc_dns c = []"
    "dc_self_exit c \<longleftrightarrow> (\<exists>p. (i, p) \<in> approved_in s (dc_network_id c) \<and> is_default_prefix p)"
proof -
  obtain me where me: "fmlookup (devices s) i = Some me" "dev_status me = Active"
    using assms(3) by (auto simp: get_device_config_def split: option.splits if_splits)
  define nid where "nid = dev_network_id me"
  define appr where "appr = map (\<lambda>r. (route_device_id r, route_prefix r))
      (filter (\<lambda>r. route_network_id r = nid \<and> approved r) (hm_values ord (routes s)))"
  have id: "dev_id me = i" by (rule store_wfD(4) [OF assms(2) me(1)])
  have appr: "set appr = approved_in s nid"
    using set_hm_values [OF assms(1), of _ "routes s"] by (auto simp: appr_def approved_in_def image_iff)
  have c: "c = \<lparr>overlay_cidrs = (case fmlookup (networks s) nid of Some n \<Rightarrow> [ipv4_pool n, ipv6_ula n] | None \<Rightarrow> []),
      dc_network_id = nid,
      dc_config_epoch = (case fmlookup (networks s) nid of Some n \<Rightarrow> config_epoch n | None \<Rightarrow> 0),
      dc_address_v4 = address_v4 me, dc_address_v6 = address_v6 me,
      dc_peers = map (peer_config_of appr s)
        (filter (\<lambda>d. dev_network_id d = nid \<and> dev_id d \<noteq> i \<and> dev_status d = Active) (hm_values ord (devices s))),
      dc_relays = list_relays ord s nid, dc_mtu = None, dc_dns = [],
      dc_self_exit = list_ex (\<lambda>(did, prefix). did = i \<and> is_default_prefix prefix) appr\<rparr>"
    using assms(3) me id by (simp add: get_device_config_def Let_def appr_def nid_def)
  have peers: "set (filter (\<lambda>d. dev_network_id d = nid \<and> dev_id d \<noteq> i \<and> dev_status d = Active) (hm_values ord (devices s))) =
      {d. \<exists>j. active_in s nid j d \<and> j \<noteq> i}"
    using set_hm_values [OF assms(1), of _ "devices s"] store_wfD(4) [OF assms(2)] by (auto simp: active_in_def)
  show thesis
  proof (rule that [of me])
    show "active_in s (dc_network_id c) i me" using me by (simp add: c active_in_def nid_def)
    show "Some (dc_config_epoch c) = network_epoch s (dc_network_id c)"
      using store_wfD(6) [OF assms(2) me(1)] by (auto simp: c network_epoch_def nid_def)
    have "peer_view ` set (dc_peers c) = (\<lambda>d. peer_view_of s nid (dev_id d) d) ` {d. \<exists>j. active_in s nid j d \<and> j \<noteq> i}"
      by (simp only: c device_config.simps set_map peers image_image peer_view_config [OF appr])
    also have "\<dots> = {peer_view_of s nid j d |j d. active_in s nid j d \<and> j \<noteq> i}"
      (is "?f ` ?D = ?V")
    proof
      have i: "dev_id d = j" if "active_in s nid j d" for j d
        using store_wfD(4) [OF assms(2)] that by (simp add: active_in_def)
      show "?f ` ?D \<subseteq> ?V" using i by blast
      show "?V \<subseteq> ?f ` ?D"
      proof
        fix v assume "v \<in> ?V"
        then obtain j d where "v = peer_view_of s nid j d" "active_in s nid j d" "j \<noteq> i" by blast
        then show "v \<in> ?f ` ?D" using i [of j d] by (intro image_eqI [of _ _ d]) auto
      qed
    qed
    finally show "peer_view ` set (dc_peers c) =
       {peer_view_of s (dc_network_id c) j d |j d. active_in s (dc_network_id c) j d \<and> j \<noteq> i}" by (simp add: c)
    show "set (dc_relays c) = {r. \<exists>j. fmlookup (relays s) j = Some r \<and> relay_serves (rn_network_id r) (dc_network_id c)}"
      using set_hm_values [OF assms(1), of _ "relays s"] by (auto simp: c list_relays_def)
    show "dc_self_exit c \<longleftrightarrow> (\<exists>p. (i, p) \<in> approved_in s (dc_network_id c) \<and> is_default_prefix p)"
      using own_default [of i is_default_prefix appr] by (simp add: c appr)
  qed (simp_all add: c)
qed

lemma same_slice_active: "same_slice s s' nid \<Longrightarrow> active_in s' nid i d \<longleftrightarrow> active_in s nid i d"
  by (auto simp: same_slice_def active_in_def)

lemma same_slice_approved: "same_slice s s' nid \<Longrightarrow> approved_in s' nid = approved_in s nid"
  unfolding same_slice_def approved_in_def by blast

lemma same_slice_view:
  assumes "same_slice s s' nid" "active_in s nid i d"
  shows "peer_view_of s' nid i d = peer_view_of s nid i d"
proof -
  have "fmlookup (endpoints s') i = fmlookup (endpoints s) i"
    using assms by (auto simp: same_slice_def active_in_def)
  then show ?thesis using same_slice_approved [OF assms(1)] by (simp add: peer_view_of_def)
qed

lemma same_slice_config:
  assumes "same_slice s s' (dc_network_id c)" "dc_network_id c' = dc_network_id c" "dc_config_epoch c' = dc_config_epoch c"
    and c: "iter_ok ord" "store_wf s" "get_device_config ord s i = Inr c"
    and c': "iter_ok ord'" "store_wf s'" "get_device_config ord' s' i = Inr c'"
  shows "same_config c c'"
proof -
  let ?nid = "dc_network_id c"
  obtain me where me: "active_in s ?nid i me"
    "overlay_cidrs c = (case fmlookup (networks s) ?nid of Some n \<Rightarrow> [ipv4_pool n, ipv6_ula n] | None \<Rightarrow> [])"
    "dc_address_v4 c = address_v4 me" "dc_address_v6 c = address_v6 me"
    "peer_view ` set (dc_peers c) = {peer_view_of s ?nid j d |j d. active_in s ?nid j d \<and> j \<noteq> i}"
    "set (dc_relays c) = {r. \<exists>j. fmlookup (relays s) j = Some r \<and> relay_serves (rn_network_id r) ?nid}"
    "dc_mtu c = None" "dc_dns c = []"
    "dc_self_exit c \<longleftrightarrow> (\<exists>p. (i, p) \<in> approved_in s ?nid \<and> is_default_prefix p)"
    using c by (rule get_device_config_Inr)
  obtain me' where me': "active_in s' ?nid i me'"
    "overlay_cidrs c' = (case fmlookup (networks s') ?nid of Some n \<Rightarrow> [ipv4_pool n, ipv6_ula n] | None \<Rightarrow> [])"
    "dc_address_v4 c' = address_v4 me'" "dc_address_v6 c' = address_v6 me'"
    "peer_view ` set (dc_peers c') = {peer_view_of s' ?nid j d |j d. active_in s' ?nid j d \<and> j \<noteq> i}"
    "set (dc_relays c') = {r. \<exists>j. fmlookup (relays s') j = Some r \<and> relay_serves (rn_network_id r) ?nid}"
    "dc_mtu c' = None" "dc_dns c' = []"
    "dc_self_exit c' \<longleftrightarrow> (\<exists>p. (i, p) \<in> approved_in s' ?nid \<and> is_default_prefix p)"
    using c' unfolding assms(2) [symmetric] by (rule get_device_config_Inr)
  have same: "me' = me" using me(1) me'(1) same_slice_active [OF assms(1)] by (simp add: active_in_def)
  have "peer_view ` set (dc_peers c') = peer_view ` set (dc_peers c)"
    unfolding me(5) me'(5) same_slice_active [OF assms(1)] using same_slice_view [OF assms(1)] by force
  moreover have "set (dc_relays c') = set (dc_relays c)"
    unfolding me(6) me'(6) using assms(1) by (auto simp: same_slice_def)
  moreover have "overlay_cidrs c' = overlay_cidrs c"
    using assms(1) unfolding me(2) me'(2) same_slice_def by (auto split: option.splits)
  moreover have "dc_self_exit c' = dc_self_exit c"
    unfolding me(9) me'(9) same_slice_approved [OF assms(1)] ..
  ultimately show ?thesis
    unfolding same_config_def using me me' same assms(2,3) by simp
qed

section \<open>Properties\<close>

text \<open>
  C12. Clients that compare epochs miss nothing: in a store reached by any sequence of requests, if a
  further request leaves the epoch in a device's configuration as it was, then it leaves the
  whole configuration as it was, up to the order in which hash maps are iterated: the
  addresses, the peers with their allowed ranges, endpoints and exit flags, and the relays.
\<close>

theorem epoch_tracks_config:
  assumes "run_ok (ops @ [oper])" "iter_ok ord" "iter_ok ord'"
    and "get_device_config ord (store_run C ops) i = Inr c"
    and "get_device_config ord' (store_run C (ops @ [oper])) i = Inr c'"
    and "dc_config_epoch c' = dc_config_epoch c"
  shows "same_config c c'"
proof -
  let ?s = "store_run C ops" and ?s' = "store_run C (ops @ [oper])"
  have run: "run_ok ops" using assms(1) by (auto simp: run_ok_def)
  note inv = store_run_inv [OF run, of C] and inv' = store_run_inv [OF assms(1), of C]
  note wf = store_invD(1) [OF inv] and wf' = store_invD(1) [OF inv']
  have step: "?s' = apply_op C oper ?s" by (simp add: store_run_def)
  have oper: "op_ok oper" "unat (seq ?s) + ids_drawn oper < 2 ^ 64"
    using assms(1) run_seq [OF run, of C] by (auto simp: run_ok_def)
  obtain me where me: "active_in ?s (dc_network_id c) i me" "Some (dc_config_epoch c) = network_epoch ?s (dc_network_id c)"
    using assms(2) wf assms(4) by (rule get_device_config_Inr)
  obtain me' where me': "active_in ?s' (dc_network_id c') i me'" "Some (dc_config_epoch c') = network_epoch ?s' (dc_network_id c')"
    using assms(3) wf' assms(5) by (rule get_device_config_Inr)
  have net: "dc_network_id c' = dc_network_id c"
    using dev_stableD [OF apply_op_stable [OF inv oper, of C], of i me] me(1) me'(1)
    unfolding step active_in_def by auto
  have "fmlookup (networks ?s) (dc_network_id c) \<noteq> None" using me(2)
    by (cases "fmlookup (networks ?s) (dc_network_id c)") (simp_all add: network_epoch_def)
  from apply_op_quiet [OF inv oper this, of C] have "same_slice ?s ?s' (dc_network_id c)"
    using me(2) me'(2) net assms(6) unfolding quiet_def step by simp
  then show ?thesis by (rule same_slice_config [OF _ net assms(6,2) wf assms(4,3) wf' assms(5)])
qed

theorem epoch_tracks_config_witness:
  "\<exists>c c'. get_device_config sorted_order (store_run toy_key_codec toy_requests) (show_id ''dev-'' 2) = Inr c \<and>
     get_device_config sorted_order (store_run toy_key_codec (toy_requests @ [OpSubscribe toy_net])) (show_id ''dev-'' 2) = Inr c' \<and>
     same_config c c'"
proof -
  have run: "run_ok (toy_requests @ [OpSubscribe toy_net])"
    by (simp add: run_ok_def toy_requests_def op_ok_def ids_drawn_def)
  obtain c where c: "get_device_config sorted_order (store_run toy_key_codec toy_requests) (show_id ''dev-'' 2) = Inr c"
      "dc_config_epoch c = 2"
    by (simp add: store_simps del: upt_Suc)
  obtain c' where c': "get_device_config sorted_order (store_run toy_key_codec (toy_requests @ [OpSubscribe toy_net]))
      (show_id ''dev-'' 2) = Inr c'" "dc_config_epoch c' = 2"
    by (simp add: store_simps subscribe_def del: upt_Suc)
  have "same_config c c'" by (rule epoch_tracks_config [OF run _ _ c(1) c'(1)]) (simp_all add: c c')
  then show ?thesis using c(1) c'(1) by blast
qed

end
