(* ===== verification/Control_Devices.thy ===== *)
theory Control_Devices
  imports Control_Sync
begin

text \<open>
  What the coordination store promises about devices: the addresses of the active ones are
  unique as long as addresses only come from enrolment and no device is revoked twice, and a
  revoked device is cut off.
\<close>

section \<open>Addresses are backed by the pool\<close>

definition device_has :: "device \<Rightarrow> u32 \<times> u128 \<Rightarrow> bool" where
  "device_has d a \<longleftrightarrow> address_v4 d = Some (show_ipv4 (fst a)) \<and> address_v6 d = Some (show_ipv6 (snd a))"

definition assigned :: "store \<Rightarrow> string \<Rightarrow> (string \<times> u32 \<times> u128) set" where
  "assigned s nid = {(wg_public_key d, a) |i d a. active_in s nid i d \<and> device_has d a}"

definition addressed :: "store \<Rightarrow> bool" where
  "addressed s \<longleftrightarrow>
     (\<forall>nid i d. active_in s nid i d \<longrightarrow> (\<exists>a. device_has d a)) \<and>
     (\<forall>nid pool. fmlookup (ipams s) nid = Some pool \<longrightarrow> ipam_pool.backed pool (assigned s nid))"

lemma addressedI:
  assumes "\<And>nid i d. active_in s nid i d \<Longrightarrow> \<exists>a. device_has d a"
    and "\<And>nid pool. fmlookup (ipams s) nid = Some pool \<Longrightarrow> ipam_pool.backed pool (assigned s nid)"
  shows "addressed s"
  unfolding addressed_def using assms by blast

lemma addressedD:
  assumes "addressed s"
  shows "active_in s nid i d \<Longrightarrow> \<exists>a. device_has d a"
    "fmlookup (ipams s) nid = Some pool \<Longrightarrow> ipam_pool.backed pool (assigned s nid)"
  using assms unfolding addressed_def by blast+

lemma active_in_cong: "devices s' = devices s \<Longrightarrow> active_in s' = active_in s"
  by (intro ext) (simp add: active_in_def)

lemma addressed_cong: "devices s' = devices s \<Longrightarrow> ipams s' = ipams s \<Longrightarrow> addressed s \<Longrightarrow> addressed s'"
  using active_in_cong [of s' s] by (simp add: addressed_def assigned_def)

lemma active_pool: "store_wf s \<Longrightarrow> active_in s nid i d \<Longrightarrow> \<exists>pool. fmlookup (ipams s) nid = Some pool"
  using store_wfD(1) [of s nid] store_wfD(6) [of s i d] by (auto simp: active_in_def)

lemma show_ip_inj:
  "show_ipv4 a = show_ipv4 b \<Longrightarrow> a = b" "show_ipv6 c = show_ipv6 d \<Longrightarrow> c = d"
  by (drule arg_cong [of _ _ parse_ipv4], unfold parse_ipv4_show, erule option.inject [THEN iffD1],
      drule arg_cong [of _ _ parse_ipv6], unfold parse_ipv6_show, erule option.inject [THEN iffD1])

lemma device_has_unique:
  assumes "device_has d a" "device_has d b"
  shows "a = b"
proof (rule prod_eqI)
  show "fst a = fst b" using assms unfolding device_has_def by (intro show_ip_inj(1)) simp
  show "snd a = snd b" using assms unfolding device_has_def by (intro show_ip_inj(2)) simp
qed

lemma device_has_new [simp]: "device_has (new_device s nid name k a) b \<longleftrightarrow> b = a"
  using device_has_unique [of "new_device s nid name k a" a b]
  by (auto simp: device_has_def new_device_def)

lemma new_device_simps [simp]:
  "dev_id (new_device s nid name k a) = show_id ''dev-'' (seq s)"
  "dev_network_id (new_device s nid name k a) = nid" "wg_public_key (new_device s nid name k a) = k"
  "dev_status (new_device s nid name k a) = Active"
  by (simp_all add: new_device_def)

lemma active_enrolled:
  "active_in (enrolled s nid code pool dev) n i d \<longleftrightarrow>
     (if i = dev_id dev then d = dev \<and> dev_network_id dev = n \<and> dev_status dev = Active else active_in s n i d)"
  by (auto simp: enrolled_def active_in_def)

lemma addressed_enrolled:
  assumes "addressed s" "store_wf s" "fmlookup (ipams s) nid = Some pool" "allocate pool k = Inr (pool', a)"
  shows "addressed (enrolled s nid code pool' (new_device s nid name k a))"
proof (rule addressedI)
  let ?s = "enrolled s nid code pool' (new_device s nid name k a)"
  show "\<exists>a. device_has d a" if "active_in ?s n i d" for n i d
    using that addressedD(1) [OF assms(1), of n i d]
    by (auto simp: active_enrolled simp del: split_paired_Ex split: if_splits)
  show "ipam_pool.backed q (assigned ?s n)" if q: "fmlookup (ipams ?s) n = Some q" for n q
  proof (cases "n = nid")
    case True
    have "assigned ?s nid \<subseteq> insert (k, a) (assigned s nid)"
      by (auto simp: assigned_def active_enrolled split: if_splits)
    moreover have "ipam_pool.backed pool' (insert (k, a) (assigned s nid))"
      by (rule ipam_pool.backed_alloc [OF addressedD(2) [OF assms(1,3)] assms(4)])
    ultimately show ?thesis using q True by (auto simp: enrolled_def intro: ipam_pool.backed_mono)
  next
    case False
    then have "assigned ?s n \<subseteq> assigned s n"
      by (auto simp: assigned_def active_enrolled split: if_splits)
    moreover have "ipam_pool.backed q (assigned s n)"
      using q False by (intro addressedD(2) [OF assms(1)]) (simp add: enrolled_def)
    ultimately show ?thesis by (rule ipam_pool.backed_mono [rotated])
  qed
qed

lemma addressed_revoke:
  assumes "addressed s" "store_inv s" "active_in s nid i d"
  shows "addressed (fst (revoke_device s i))"
proof -
  note d = assms(3) [unfolded active_in_def]
  obtain pool where pool: "fmlookup (ipams s) nid = Some pool"
    using active_pool [OF store_invD(1) [OF assms(2)] assms(3)] by blast
  obtain pool' b where r: "recycle pool (wg_public_key d) = (pool', b)" by (cases "recycle pool (wg_public_key d)")
  let ?s = "s\<lparr>ipams := fmupd nid pool' (ipams s), devices := fmupd i (d\<lparr>dev_status := Revoked\<rparr>) (devices s)\<rparr>"
  have act: "active_in s n j e \<and> j \<noteq> i" if "active_in ?s n j e" for n j e
    using that by (auto simp: active_in_def split: if_splits)
  have "addressed ?s"
  proof (rule addressedI)
    show "\<exists>a. device_has e a" if "active_in ?s n j e" for n j e
      using addressedD(1) [OF assms(1)] act [OF that] by blast
    show "ipam_pool.backed q (assigned ?s n)" if q: "fmlookup (ipams ?s) n = Some q" for n q
    proof (cases "n = nid")
      case True
      have "assigned ?s nid \<subseteq> {x \<in> assigned s nid. fst x \<noteq> wg_public_key d}"
        using act keys_uniqueD [OF store_invD(2) [OF assms(2)] _ assms(3)] unfolding assigned_def by fastforce
      moreover have "ipam_pool.backed pool' {x \<in> assigned s nid. fst x \<noteq> wg_public_key d}"
        by (rule ipam_pool.backed_free [OF addressedD(2) [OF assms(1) pool] r])
      ultimately show ?thesis using q True by (auto intro: ipam_pool.backed_mono)
    next
      case False
      have "assigned ?s n \<subseteq> assigned s n" using act unfolding assigned_def by blast
      moreover have "ipam_pool.backed q (assigned s n)"
        using q False by (intro addressedD(2) [OF assms(1)]) simp
      ultimately show ?thesis by (rule ipam_pool.backed_mono [rotated])
    qed
  qed
  then show ?thesis by (rule addressed_cong [rotated 2]) (use d pool r in \<open>simp_all add: revoke_device_eq\<close>)
qed

section \<open>Runs that keep addresses unique\<close>

text \<open>A request that neither imports addresses nor revokes a device a second time.\<close>

definition clean_op :: "store \<Rightarrow> store_op \<Rightarrow> bool" where
  "clean_op s oper =
     (case oper of
        OpImport _ _ \<Rightarrow> False
      | OpRevoke i \<Rightarrow> (case fmlookup (devices s) i of Some d \<Rightarrow> dev_status d = Active | None \<Rightarrow> True)
      | _ \<Rightarrow> True)"

fun clean_run :: "key_codec \<Rightarrow> store \<Rightarrow> store_op list \<Rightarrow> bool" where
  "clean_run C s [] = True"
| "clean_run C s (oper # ops) = (clean_op s oper \<and> clean_run C (apply_op C oper s) ops)"

lemma addressed_new_network:
  assumes "addressed s" "store_wf s"
  shows "addressed (fst (create_network s name random))"
proof (rule addressedI)
  let ?s = "fst (create_network s name random)" and ?n = "show_id ''net-'' (seq s)"
  have dev: "devices ?s = devices s" by (simp add: create_network_def next_seq_def Let_def)
  then have act: "active_in ?s n i d \<longleftrightarrow> active_in s n i d" for n i d by (simp add: active_in_def)
  then have same: "assigned ?s n = assigned s n" for n by (simp add: assigned_def)
  show "\<exists>a. device_has d a" if "active_in ?s n i d" for n i d
    using that addressedD(1) [OF assms(1)] act by blast
  show "ipam_pool.backed q (assigned ?s n)" if q: "fmlookup (ipams ?s) n = Some q" for n q
  proof (cases "n = ?n")
    case True
    have "fmlookup (networks s) ?n = None" using store_wfD(2) [OF assms(2), of ?n] by (metis drawn_fresh)
    then have "assigned ?s ?n = {}"
      using store_wfD(6) [OF assms(2)] unfolding same by (fastforce simp: assigned_def active_in_def)
    moreover have "ipam_ok q" using q True by (auto simp: create_network_def next_seq_def Let_def ipam_new_ok)
    ultimately show ?thesis using True ipam_pool.backed_empty by simp
  next
    case False
    then have "fmlookup (ipams s) n = Some q" using q by (simp add: create_network_def next_seq_def Let_def)
    then show ?thesis unfolding same by (rule addressedD(2) [OF assms(1)])
  qed
qed

fun other_op :: "store_op \<Rightarrow> bool" where
  "other_op (OpCreateNetwork _ _) = False"
| "other_op (OpEnroll _ _ _ _ _) = False"
| "other_op (OpImport _ _) = False"
| "other_op (OpRevoke _) = False"
| "other_op _ = True"

lemma other_op_frame:
  assumes "other_op oper"
  shows "devices (apply_op C oper s) = devices s" "ipams (apply_op C oper s) = ipams s"
  using assms
  by (cases oper; simp add: apply_op_def create_invite_def set_endpoints_def advertise_route_def approve_route_def
      delete_route_def register_relay_authenticated_def update_relay_def subscribe_def next_seq_def Let_def
      split: option.split)+

lemma apply_op_addressed:
  assumes "addressed s" "store_inv s" "op_ok oper" "clean_op s oper"
  shows "addressed (apply_op C oper s)"
proof (cases oper)
  case (OpEnroll ord code name key now)
  obtain s' r where e: "enroll C ord s code name key now = (s', r)" by (cases "enroll C ord s code name key now")
  have "iter_ok ord" using assms(3) OpEnroll by (simp add: op_ok_def)
  from this e have "addressed s'"
  proof (cases rule: enroll_cases)
    case (new k invt pool pool' a dev)
    show ?thesis unfolding new(9)
      by (rule addressed_cong [OF _ _ addressed_enrolled [OF assms(1) store_invD(1) [OF assms(2)] new(5,6)]])
        (simp_all add: new(7))
  qed (simp_all add: assms(1))
  then show ?thesis using e OpEnroll by (simp add: apply_op_def)
next
  case (OpRevoke i)
  show ?thesis
  proof (cases "fmlookup (devices s) i")
    case (Some d)
    then have "active_in s (dev_network_id d) i d" using assms(4) OpRevoke by (simp add: active_in_def clean_op_def)
    then show ?thesis using addressed_revoke [OF assms(1,2)] OpRevoke by (simp add: apply_op_def)
  qed (use assms(1) in \<open>simp add: OpRevoke apply_op_def revoke_device_def\<close>)
next
  case (OpCreateNetwork name random)
  then show ?thesis using addressed_new_network [OF assms(1) store_invD(1) [OF assms(2)]] by (simp add: apply_op_def)
next
  case (OpImport n devs)
  then show ?thesis using assms(4) by (simp add: clean_op_def)
qed (rule addressed_cong [OF other_op_frame assms(1)]; simp)+

lemma clean_run_addressed:
  assumes "list_all op_ok ops" "unat (seq s) + sum_list (map ids_drawn ops) < 2 ^ 64" "store_inv s" "addressed s"
    "clean_run C s ops"
  shows "addressed (fold (apply_op C) ops s)"
  using assms
proof (induction ops arbitrary: s)
  case (Cons oper ops)
  have o: "op_ok oper" "unat (seq s) + ids_drawn oper < 2 ^ 64" using Cons.prems by simp_all
  have "addressed (fold (apply_op C) ops (apply_op C oper s))"
    by (rule Cons.IH) (use Cons.prems step_room(1) [OF o(1)] apply_op_inv [OF Cons.prems(3) o]
        apply_op_addressed [OF Cons.prems(4,3) o(1)] in simp_all)
  then show ?case by simp
qed simp

lemma addressed_store_new: "addressed store_new"
  by (simp add: addressed_def active_in_def store_new_def)

section \<open>Revoked devices\<close>

lemma run_stable:
  assumes "list_all op_ok ops" "unat (seq s) + sum_list (map ids_drawn ops) < 2 ^ 64" "store_inv s"
  shows "dev_stable s (fold (apply_op C) ops s)"
  by (rule conjunct2 [OF run_relates [where R = dev_stable, OF _ dev_stable_trans apply_op_stable assms]])
    (simp_all add: dev_stableI)

lemma revoked_not_served:
  "fmlookup (devices s) i = Some d \<Longrightarrow> dev_status d = Revoked \<Longrightarrow> get_device_config ord s i = Inl DeviceNotFound"
  by (simp add: get_device_config_def)

lemma peers_active:
  assumes "iter_ok ord" "store_wf s" "get_device_config ord s i = Inr c" "k \<in> pc_public_key ` set (dc_peers c)"
  shows "\<exists>j d. active_in s (dc_network_id c) j d \<and> wg_public_key d = k"
proof -
  have "peer_view ` set (dc_peers c) =
      {peer_view_of s (dc_network_id c) j d |j d. active_in s (dc_network_id c) j d \<and> j \<noteq> i}"
    using assms(1-3) by (rule get_device_config_Inr)
  moreover obtain p where p: "p \<in> set (dc_peers c)" "k = pc_public_key p" using assms(4) by blast
  ultimately obtain j d where "active_in s (dc_network_id c) j d" "peer_view p = peer_view_of s (dc_network_id c) j d"
    by blast
  then show ?thesis using p(2) by (auto simp: peer_view_def peer_view_of_def)
qed

section \<open>Properties\<close>

text \<open>
  C14. Unique addresses: after any requests that import no addresses and revoke no device twice,
  every active device has an IPv4 and an IPv6 address, and two active devices of a network
  share neither.
\<close>

theorem store_addresses_unique:
  assumes "run_ok ops" "clean_run C store_new ops" "s = store_run C ops"
    "active_in s nid i d" "active_in s nid j e" "i \<noteq> j"
  shows "\<exists>a b. device_has d a \<and> device_has e b \<and> fst a \<noteq> fst b \<and> snd a \<noteq> snd b"
proof -
  note inv = store_run_inv [OF assms(1), of C, folded assms(3)]
  have ad: "addressed s"
    unfolding assms(3) store_run_def
    by (rule clean_run_addressed [OF _ _ store_inv_new addressed_store_new assms(2)])
      (use assms(1) in \<open>simp_all add: run_ok_def seq_store_new\<close>)
  obtain a b where ab: "device_has d a" "device_has e b" using addressedD(1) [OF ad] assms(4,5) by blast
  obtain pool where pool: "fmlookup (ipams s) nid = Some pool"
    using active_pool [OF store_invD(1) [OF inv] assms(4)] by blast
  note backed = addressedD(2) [OF ad pool]
  have hold: "address_of pool (wg_public_key d) = Some a" "address_of pool (wg_public_key e) = Some b"
    by (rule ipam_pool.backedD [OF backed]; use assms(4,5) ab in \<open>unfold assigned_def, blast\<close>)+
  have "wg_public_key d \<noteq> wg_public_key e"
    using keys_uniqueD [OF store_invD(2) [OF inv] assms(4,5)] assms(6) by blast
  then have "fst a \<noteq> fst b \<and> snd a \<noteq> snd b"
    using address_of_families [OF store_wfD(3) [OF store_invD(1) [OF inv] pool] hold] by blast
  then show ?thesis using ab by blast
qed

theorem store_addresses_unique_witness:
  "\<exists>d e a b. active_in (store_run toy_key_codec toy_requests) toy_net (show_id ''dev-'' 2) d \<and>
     active_in (store_run toy_key_codec toy_requests) toy_net (show_id ''dev-'' 3) e \<and>
     device_has d a \<and> device_has e b \<and> fst a \<noteq> fst b \<and> snd a \<noteq> snd b"
proof -
  let ?s = "store_run toy_key_codec toy_requests"
  obtain d where d: "active_in ?s toy_net (show_id ''dev-'' 2) d"
    by (simp add: active_in_def store_simps del: upt_Suc)
  obtain e where e: "active_in ?s toy_net (show_id ''dev-'' 3) e"
    by (simp add: active_in_def store_simps del: upt_Suc)
  have "clean_run toy_key_codec store_new toy_requests" by (simp add: toy_requests_def clean_op_def)
  moreover have "show_id ''dev-'' 2 \<noteq> show_id ''dev-'' 3" by (simp add: show_id_inj)
  ultimately have "\<exists>a b. device_has d a \<and> device_has e b \<and> fst a \<noteq> fst b \<and> snd a \<noteq> snd b"
    by (rule store_addresses_unique [OF toy_run_ok _ refl d e])
  then show ?thesis using d e by blast
qed

text \<open>
  C15. Revocation: once an active device is revoked its key is in no configuration the store serves
  in its network, and whatever requests follow, the device itself never gets a configuration again.
\<close>

theorem revocation_cuts_off:
  assumes "run_ok (ops @ OpRevoke i # later)" "iter_ok ord" "active_in (store_run C ops) nid i d"
  shows "get_device_config ord (store_run C (ops @ OpRevoke i # later)) i = Inl DeviceNotFound \<and>
    (\<forall>j c. get_device_config ord (store_run C (ops @ [OpRevoke i])) j = Inr c \<longrightarrow> dc_network_id c = nid \<longrightarrow>
       wg_public_key d \<notin> pc_public_key ` set (dc_peers c))"
proof (intro conjI allI impI)
  let ?s = "store_run C ops" and ?t = "store_run C (ops @ [OpRevoke i])"
  have run: "run_ok ops" "run_ok (ops @ [OpRevoke i])" using assms(1) by (auto simp: run_ok_def ids_drawn_def)
  note inv = store_run_inv [OF run(1), of C] and inv_t = store_run_inv [OF run(2), of C]
  have t: "?t = fst (revoke_device ?s i)" by (simp add: store_run_def apply_op_def)
  have dev: "devices ?t = fmupd i (d\<lparr>dev_status := Revoked\<rparr>) (devices ?s)"
    using assms(3) unfolding t active_in_def by (simp add: revoke_device_eq)
  show "get_device_config ord (store_run C (ops @ OpRevoke i # later)) i = Inl DeviceNotFound"
  proof -
    have "list_all op_ok later" "unat (seq ?t) + sum_list (map ids_drawn later) < 2 ^ 64"
      using assms(1) run_seq [OF run(2), of C] by (auto simp: run_ok_def ids_drawn_def)
    from run_stable [OF this inv_t, of C] have "dev_stable ?t (store_run C (ops @ OpRevoke i # later))"
      by (simp add: store_run_def)
    from dev_stableD [OF this, of i "d\<lparr>dev_status := Revoked\<rparr>"] show ?thesis
      by (auto simp: dev intro: revoked_not_served)
  qed
  show "wg_public_key d \<notin> pc_public_key ` set (dc_peers c)"
    if c: "get_device_config ord ?t j = Inr c" "dc_network_id c = nid" for j c
  proof
    assume "wg_public_key d \<in> pc_public_key ` set (dc_peers c)"
    then obtain k e where e: "active_in ?t nid k e" "wg_public_key e = wg_public_key d"
      using peers_active [OF assms(2) store_invD(1) [OF inv_t] c(1)] c(2) by blast
    then have "active_in ?s nid k e" "k \<noteq> i" unfolding active_in_def dev by (auto split: if_splits)
    then show False using keys_uniqueD [OF store_invD(2) [OF inv] _ assms(3) e(2)] by blast
  qed
qed

theorem revocation_cuts_off_witness:
  "get_device_config sorted_order (store_run toy_key_codec (toy_requests @ [OpRevoke (show_id ''dev-'' 2)]))
     (show_id ''dev-'' 2) = Inl DeviceNotFound"
proof -
  have run: "run_ok (toy_requests @ OpRevoke (show_id ''dev-'' 2) # [])"
    by (simp add: run_ok_def toy_requests_def op_ok_def ids_drawn_def)
  obtain d where d: "active_in (store_run toy_key_codec toy_requests) toy_net (show_id ''dev-'' 2) d"
    by (simp add: active_in_def store_simps del: upt_Suc)
  show ?thesis by (rule conjunct1 [OF revocation_cuts_off [OF run sorted_order_ok d]])
qed

text \<open>A device is revoked, its key enrols again, and the old device is revoked a second time.\<close>

definition revoked_twice :: "store_op list" where
  "revoked_twice =
     [OpCreateNetwork ''home'' 0, OpCreateInvite ''code'' toy_net None None,
      OpEnroll sorted_order ''code'' ''a'' toy_k 0, OpRevoke (show_id ''dev-'' 2),
      OpEnroll sorted_order ''code'' ''a'' toy_k 0, OpRevoke (show_id ''dev-'' 2),
      OpEnroll sorted_order ''code'' ''b'' toy_kk 0]"

lemma toy_dev_order:
  "show_id ''dev-'' 2 \<le> show_id ''dev-'' 3" "\<not> show_id ''dev-'' 3 \<le> show_id ''dev-'' 2"
proof -
  have "show_dec 2 = ''2''" "show_dec 3 = ''3''" by code_simp+
  moreover have "''dev-2'' < ''dev-3''" by (simp add: less_char_def)
  ultimately show "show_id ''dev-'' 2 \<le> show_id ''dev-'' 3" "\<not> show_id ''dev-'' 3 \<le> show_id ''dev-'' 2"
    by (simp_all add: show_id_def)
qed

text \<open>
  Revoking a device again after its key has enrolled a second time releases the address of the
  active device: the next device to enrol is given the same address.
\<close>

lemma second_revocation_frees_active_address:
  "run_ok revoked_twice \<and>
   (\<exists>d e. active_in (store_run toy_key_codec revoked_twice) toy_net (show_id ''dev-'' 3) d \<and>
      active_in (store_run toy_key_codec revoked_twice) toy_net (show_id ''dev-'' 4) e \<and>
      wg_public_key d = toy_k \<and> wg_public_key e = toy_kk \<and>
      address_v4 d = address_v4 e \<and> address_v6 d = address_v6 e)"
  by (rule conjI, simp add: run_ok_def revoked_twice_def op_ok_def ids_drawn_def)
    (simp add: active_in_def revoked_twice_def store_simps toy_dev_order insert_Diff_if v4_for_def v6_for_def del: upt_Suc)

end
