(* ===== verification/Disco_Codec.thy ===== *)
theory Disco_Codec
  imports Wire_Codec
begin

text \<open>
  The discovery messages (engine/net/fp-disco/src/lib.rs): frames
  \<^verbatim>\<open>[type:u8][len:u32 BE][body]\<close> for hole punching, with the socket addresses they carry, and the
  interpretation of the codec contract for them.
\<close>

section \<open>Model\<close>

text \<open>\<^verbatim>\<open>std::net::SocketAddr\<close>: an IPv6 socket address also has flow information and a scope id.\<close>

datatype socket_addr = SockV4 u32 u16 | SockV6 u128 u16 u32 u32

definition sa_ip :: "socket_addr \<Rightarrow> ip_addr" where
  "sa_ip a = (case a of SockV4 ip _ \<Rightarrow> IpV4 ip | SockV6 ip _ _ _ \<Rightarrow> IpV6 ip)"

definition sa_port :: "socket_addr \<Rightarrow> u16" where
  "sa_port a = (case a of SockV4 _ p \<Rightarrow> p | SockV6 _ p _ _ \<Rightarrow> p)"

text \<open>\<^verbatim>\<open>SocketAddr::new\<close>, which sets the flow information and the scope id to zero.\<close>

definition socket_addr_new :: "ip_addr \<Rightarrow> u16 \<Rightarrow> socket_addr" where
  "socket_addr_new ip port = (case ip of IpV4 a \<Rightarrow> SockV4 a port | IpV6 a \<Rightarrow> SockV6 a port 0 0)"

definition DT_PING :: byte where "DT_PING = 1"
definition DT_PONG :: byte where "DT_PONG = 2"
definition DT_CALL_ME_MAYBE :: byte where "DT_CALL_ME_MAYBE = 3"
definition DISCO_KEY_LEN :: nat where "DISCO_KEY_LEN = 32"
definition TXID_LEN :: nat where "TXID_LEN = 12"
definition DISCO_HEADER_LEN :: nat where "DISCO_HEADER_LEN = 1 + 4"
definition AF_V4 :: byte where "AF_V4 = 4"
definition AF_V6 :: byte where "AF_V6 = 6"
definition MAX_CANDIDATES :: nat where "MAX_CANDIDATES = 64"

lemmas disco_consts = DT_PING_def DT_PONG_def DT_CALL_ME_MAYBE_def DISCO_KEY_LEN_def TXID_LEN_def
  DISCO_HEADER_LEN_def AF_V4_def AF_V6_def MAX_CANDIDATES_def

datatype disco =
    DiscoPing bytes bytes
  | DiscoPong bytes socket_addr
  | CallMeMaybe "socket_addr list"

datatype disco_error =
    DiscoShortBuffer nat nat
  | DiscoUnknownType byte
  | Malformed
  | TooManyCandidates nat

definition put_addr :: "socket_addr \<Rightarrow> bytes" where
  "put_addr a =
     (case sa_ip a of
        IpV4 ip \<Rightarrow> AF_V4 # ip_octets (IpV4 ip)
      | IpV6 ip \<Rightarrow> AF_V6 # ip_octets (IpV6 ip)) @ to_be_bytes 2 (sa_port a)"

definition get_addr :: "bytes \<Rightarrow> disco_error + socket_addr \<times> nat" where
  "get_addr b =
     rbind (ok_or Malformed (get_at 0 b)) (\<lambda>af.
       if af = AF_V4 then
         (let need = 1 + 4 + 2
          in rbind (ok_or Malformed (get_slice 0 need b)) (\<lambda>s.
               Inr (socket_addr_new (ipv4_from (slice 1 5 s)) (from_be_bytes (slice 5 7 s)), need)))
       else if af = AF_V6 then
         (let need = 1 + 16 + 2
          in rbind (ok_or Malformed (get_slice 0 need b)) (\<lambda>s.
               Inr (socket_addr_new (ipv6_from (slice 1 17 s)) (from_be_bytes (slice 17 19 s)), need)))
       else Inl Malformed)"

definition disco_type_byte :: "disco \<Rightarrow> byte" where
  "disco_type_byte m = (case m of
      DiscoPing _ _ \<Rightarrow> DT_PING | DiscoPong _ _ \<Rightarrow> DT_PONG | CallMeMaybe _ \<Rightarrow> DT_CALL_ME_MAYBE)"

definition disco_body :: "disco \<Rightarrow> bytes" where
  "disco_body m = (case m of
      DiscoPing tx_id sender \<Rightarrow> tx_id @ sender
    | DiscoPong tx_id observed \<Rightarrow> tx_id @ put_addr observed
    | CallMeMaybe candidates \<Rightarrow>
        to_be_bytes 2 (word_of_nat (length candidates) :: u16) @ concat (map put_addr candidates))"

definition disco_encode :: "disco \<Rightarrow> bytes" where
  "disco_encode m =
     (let body = disco_body m
      in disco_type_byte m # to_be_bytes 4 (word_of_nat (length body) :: u32) @ body)"

text \<open>The loop over the candidates, from an offset into the body.\<close>

fun get_addrs :: "bytes \<Rightarrow> nat \<Rightarrow> nat \<Rightarrow> disco_error + socket_addr list \<times> nat" where
  "get_addrs body 0 off = Inr ([], off)"
| "get_addrs body (Suc count) off =
     rbind (get_addr (drop off body)) (\<lambda>(a, n).
       rbind (get_addrs body count (off + n)) (\<lambda>(candidates, off). Inr (a # candidates, off)))"

definition disco_decode_body :: "byte \<Rightarrow> bytes \<Rightarrow> disco_error + disco" where
  "disco_decode_body ty body =
     (if ty = DT_PING then
        (if length body \<noteq> TXID_LEN + DISCO_KEY_LEN then Inl Malformed
         else Inr (DiscoPing (take TXID_LEN body) (drop TXID_LEN body)))
      else if ty = DT_PONG then
        (if length body < TXID_LEN then Inl Malformed
         else rbind (get_addr (drop TXID_LEN body)) (\<lambda>(observed, n).
                if TXID_LEN + n \<noteq> length body then Inl Malformed
                else Inr (DiscoPong (take TXID_LEN body) observed)))
      else if ty = DT_CALL_ME_MAYBE then
        rbind (ok_or Malformed (get_at 0 body)) (\<lambda>b0.
        rbind (ok_or Malformed (get_at 1 body)) (\<lambda>b1.
          let count = unat (from_be_bytes [b0, b1] :: u16)
          in if MAX_CANDIDATES < count then Inl (TooManyCandidates count)
             else rbind (get_addrs body count 2) (\<lambda>(candidates, off).
                    if off \<noteq> length body then Inl Malformed else Inr (CallMeMaybe candidates))))
      else Inl (DiscoUnknownType ty))"

definition disco_decode :: "bytes \<Rightarrow> disco_error + disco \<times> nat" where
  "disco_decode buf =
     (if length buf < DISCO_HEADER_LEN then Inl (DiscoShortBuffer DISCO_HEADER_LEN (length buf))
      else
        let ty = buf ! 0;
            len = unat (from_be_bytes (slice 1 5 buf) :: u32);
            total = DISCO_HEADER_LEN + len
        in if length buf < total then Inl (DiscoShortBuffer total (length buf))
           else rbind (disco_decode_body ty (slice DISCO_HEADER_LEN total buf)) (\<lambda>msg. Inr (msg, total)))"

section \<open>Encoding and decoding\<close>

definition is_disco_short :: "disco_error \<Rightarrow> bool" where
  "is_disco_short e = (case e of DiscoShortBuffer _ _ \<Rightarrow> True | _ \<Rightarrow> False)"

text \<open>Addresses without flow information and scope, the ones the wire format can carry.\<close>

definition sock_plain :: "socket_addr \<Rightarrow> bool" where
  "sock_plain a = (case a of SockV4 _ _ \<Rightarrow> True | SockV6 _ _ flow scope \<Rightarrow> flow = 0 \<and> scope = 0)"

definition disco_wf :: "disco \<Rightarrow> bool" where
  "disco_wf m = (case m of
      DiscoPing tx_id sender \<Rightarrow> length tx_id = 12 \<and> length sender = 32
    | DiscoPong tx_id observed \<Rightarrow> length tx_id = 12 \<and> sock_plain observed
    | CallMeMaybe candidates \<Rightarrow> length candidates \<le> MAX_CANDIDATES \<and> list_all sock_plain candidates)"

lemma length_put_addr: "length (put_addr a) = (case a of SockV4 _ _ \<Rightarrow> 7 | SockV6 _ _ _ _ \<Rightarrow> 19)"
  by (simp add: put_addr_def sa_ip_def sa_port_def split: socket_addr.split)

lemma get_put_addr: "sock_plain a \<Longrightarrow> get_addr (put_addr a @ rest) = Inr (a, length (put_addr a))"
  by (cases a)
    (simp_all add: get_addr_def put_addr_def sa_ip_def sa_port_def socket_addr_new_def sock_plain_def get_at_def
      get_slice_def slice_def disco_consts ipv4_from_def ipv6_from_def Let_def)

lemma get_addrs_put:
  assumes "list_all sock_plain as" "drop off body = concat (map put_addr as) @ rest"
  shows "get_addrs body (length as) off = Inr (as, off + length (concat (map put_addr as)))"
  using assms
proof (induction "as" arbitrary: off)
  case (Cons a "as")
  have "drop (off + length (put_addr a)) body = concat (map put_addr as) @ rest"
    using arg_cong [OF Cons.prems(2), of "drop (length (put_addr a))"] by (simp add: add.commute)
  then show ?case using Cons.IH [of "off + length (put_addr a)"] Cons.prems by (simp add: get_put_addr)
qed simp

lemma length_put_addrs: "length (concat (map put_addr as)) \<le> 19 * length as"
proof (induction "as")
  case (Cons a "as")
  then show ?case by (cases a) (simp_all add: length_put_addr)
qed simp

lemma disco_body_bound: "disco_wf m \<Longrightarrow> length (disco_body m) < 2 ^ 32"
proof (cases m)
  case (CallMeMaybe cs)
  assume "disco_wf m"
  then show ?thesis using CallMeMaybe length_put_addrs [of cs]
    by (simp add: disco_wf_def disco_body_def disco_consts)
next
  case (DiscoPong tx a)
  assume "disco_wf m"
  then show ?thesis using DiscoPong by (cases a) (simp_all add: disco_wf_def disco_body_def length_put_addr)
qed (simp add: disco_wf_def disco_body_def)

lemma disco_decode_body_body:
  assumes "disco_wf m"
  shows "disco_decode_body (disco_type_byte m) (disco_body m) = Inr m"
proof (cases m)
  case (DiscoPing tx s)
  then show ?thesis using assms by (simp add: disco_decode_body_def disco_type_byte_def disco_body_def disco_wf_def disco_consts)
next
  case (DiscoPong tx a)
  then show ?thesis using assms get_put_addr [of a "[]"]
    by (simp add: disco_decode_body_def disco_type_byte_def disco_body_def disco_wf_def disco_consts)
next
  case (CallMeMaybe cs)
  let ?b = "disco_body m"
  have n: "length cs \<le> 64" "list_all sock_plain cs" using assms CallMeMaybe by (simp_all add: disco_wf_def disco_consts)
  have b: "?b = to_be_bytes 2 (word_of_nat (length cs) :: u16) @ concat (map put_addr cs)"
    by (simp add: CallMeMaybe disco_body_def)
  have "get_addrs ?b (length cs) 2 = Inr (cs, 2 + length (concat (map put_addr cs)))"
    by (rule get_addrs_put [OF n(2), where rest = "[]"]) (simp add: b)
  moreover have "[?b ! 0, ?b ! 1] = to_be_bytes 2 (word_of_nat (length cs) :: u16)"
    unfolding b by (simp add: to_be_bytes_def le_enc_numeral nth_append)
  then have "unat (from_be_bytes [?b ! 0, ?b ! 1] :: u16) = length cs" using n(1) by (simp add: unat_of_nat)
  ultimately show ?thesis
    using n(1) by (simp add: disco_decode_body_def disco_type_byte_def CallMeMaybe disco_consts get_at_def b [unfolded CallMeMaybe])
qed

lemma disco_decode_encode:
  assumes "disco_wf m"
  shows "disco_decode (disco_encode m @ rest) = Inr (m, length (disco_encode m))"
  using tlv_frame [OF disco_body_bound [OF assms] refl, of "disco_type_byte m" rest] disco_decode_body_body [OF assms]
  by (simp add: disco_decode_def disco_encode_def Let_def disco_consts)

lemma disco_decode_prefix:
  assumes "disco_wf m" "disco_encode m = p @ q" "q \<noteq> []"
  shows "\<exists>need. disco_decode p = Inl (DiscoShortBuffer need (length p))"
proof (cases "length p < 5")
  case False
  have p: "p = take (length p) (disco_type_byte m # to_be_bytes 4 (word_of_nat (length (disco_body m)) :: u32) @ disco_body m @ [])"
    using assms(2) by (simp add: disco_encode_def Let_def)
  note h = tlv_header [OF disco_body_bound [OF assms(1)], of "length p" "disco_type_byte m" "[]", folded p]
  have "length p < 5 + length (disco_body m)"
    using arg_cong [OF assms(2), of length] assms(3) by (simp add: disco_encode_def Let_def)
  then show ?thesis using False h by (simp add: disco_decode_def Let_def disco_consts)
qed (simp add: disco_decode_def disco_consts)

interpretation disco_wire: wire_codec disco_encode disco_decode disco_wf is_disco_short
proof
  show "disco_wf m \<Longrightarrow> disco_decode (disco_encode m @ rest) = Inr (m, length (disco_encode m))" for m rest
    by (rule disco_decode_encode)
  show "\<exists>e. disco_decode p = Inl e \<and> is_disco_short e"
    if "disco_wf m" "disco_encode m = p @ q" "q \<noteq> []" for m p q
    using disco_decode_prefix [OF that] by (auto simp: is_disco_short_def)
  show "\<exists>e. disco_decode [] = Inl e \<and> is_disco_short e"
    by (simp add: disco_decode_def disco_consts is_disco_short_def)
  show "disco_decode b = Inr (m, n) \<Longrightarrow> 0 < n \<and> n \<le> length b" for b m n
    by (auto simp: disco_decode_def Let_def disco_consts rbind_Inr_conv split: if_splits)
qed

end
