(* ===== verification/Disco_Probes.thy ===== *)
theory Disco_Probes
  imports Disco_Codec Replay_Filter Hash_Map Noise_Crypto Fp_Text
begin

text \<open>
  Authenticated discovery datagrams (node/src/util.rs) and the per-peer state that decides which
  probes are believed (node/src/disco.rs): a bounded cache of the ping identifiers seen, and the
  probes of our own that are still outstanding. The cache is a replay filter, so a captured ping
  is answered at most once; a pong counts only as the answer to an outstanding probe, from an
  address that probe was sent to, and only once.
\<close>

section \<open>Datagrams\<close>

type_synonym tx_id = bytes
type_synonym peer_key = bytes

definition DISCO_MAGIC :: bytes where "DISCO_MAGIC = [0x66, 0x70, 0x64, 0x31]"
definition DISCO_MAC_LEN :: nat where "DISCO_MAC_LEN = 16"
definition DISCO_REPLAY_WINDOW_SECS :: u64 where "DISCO_REPLAY_WINDOW_SECS = 30"

text \<open>\<^verbatim>\<open>u64::abs_diff\<close> and \<^verbatim>\<open>u64::saturating_add\<close>.\<close>

definition abs_diff :: "u64 \<Rightarrow> u64 \<Rightarrow> u64" where
  "abs_diff a b = (if a < b then b - a else a - b)"

definition saturating_add :: "u64 \<Rightarrow> u64 \<Rightarrow> u64" where
  "saturating_add a b = (if unat a + unat b < 2 ^ 64 then a + b else - 1)"

definition disco_dgram :: "disco \<Rightarrow> bytes" where
  "disco_dgram msg = DISCO_MAGIC @ disco_encode msg"

definition auth_disco_dgram :: "crypto \<Rightarrow> bytes \<Rightarrow> disco \<Rightarrow> bytes" where
  "auth_disco_dgram C disco_key msg = (let out = disco_dgram msg in out @ disco_mac C disco_key out)"

definition disco_authed :: "crypto \<Rightarrow> bytes \<Rightarrow> bytes \<Rightarrow> bytes \<Rightarrow> nat \<Rightarrow> bool" where
  "disco_authed C disco_key dgram body used =
     (case get_slice used (used + DISCO_MAC_LEN) body of
        None \<Rightarrow> False
      | Some tag \<Rightarrow>
          (case get_slice 0 (length DISCO_MAGIC + used) dgram of
             None \<Rightarrow> False
           | Some macced \<Rightarrow> ct_eq tag (disco_mac C disco_key macced)))"

definition disco_replay_ok :: "u64 \<Rightarrow> tx_id \<Rightarrow> bool" where
  "disco_replay_ok now tx_id = (abs_diff now (from_be_bytes (slice 0 8 tx_id)) \<le> DISCO_REPLAY_WINDOW_SECS)"

definition le_u32 :: "bytes \<Rightarrow> nat \<Rightarrow> u32 option" where
  "le_u32 b off = map_option from_le_bytes (get_slice off (off + 4) b)"

section \<open>Probes\<close>

definition CAPACITY :: nat where "CAPACITY = 128"

type_synonym disco_routes = "(tx_id, peer_key \<times> u64) fmap"

definition disco_owner :: "disco_routes \<Rightarrow> tx_id \<Rightarrow> u64 \<Rightarrow> peer_key option" where
  "disco_owner routes i now =
     (case fmlookup routes i of Some (peer, expiry) \<Rightarrow> if now \<le> expiry then Some peer else None | None \<Rightarrow> None)"

definition timestamp :: "tx_id \<Rightarrow> u64 option" where
  "timestamp i = map_option from_be_bytes (get_slice 0 8 i)"

record probes =
  seen :: "(tx_id, u64) fmap"
  pending_probes :: "(tx_id, socket_addr list \<times> u64) fmap"

definition probes_default :: probes where
  "probes_default = \<lparr>seen = fmempty, pending_probes = fmempty\<rparr>"

definition accept_ping :: "probes \<Rightarrow> tx_id \<Rightarrow> u64 \<Rightarrow> probes \<times> bool" where
  "accept_ping p i now =
     (let p = p\<lparr>seen := hm_retain (\<lambda>_ expires. now \<le> expires) (seen p)\<rparr>
      in case timestamp i of
           None \<Rightarrow> (p, False)
         | Some sent \<Rightarrow>
             if DISCO_REPLAY_WINDOW_SECS < abs_diff now sent \<or> fmlookup (seen p) i \<noteq> None \<or>
                CAPACITY \<le> hm_len (seen p)
             then (p, False)
             else (p\<lparr>seen := fmupd i (saturating_add sent DISCO_REPLAY_WINDOW_SECS) (seen p)\<rparr>, True))"

text \<open>The four random bytes of an identifier are an argument; \<open>None\<close> when the generator fails.\<close>

definition probe_start :: "probes \<Rightarrow> peer_key \<Rightarrow> socket_addr list \<Rightarrow> disco_routes \<Rightarrow> u64 \<Rightarrow> bytes option
    \<Rightarrow> probes \<times> disco_routes \<times> tx_id option" where
  "probe_start p peer targets routes now random =
     (let p = p\<lparr>pending_probes := hm_retain (\<lambda>_ (_, expires). now \<le> expires) (pending_probes p)\<rparr>
      in if targets = [] \<or> CAPACITY \<le> hm_len (pending_probes p) then (p, routes, None)
         else case random of
           None \<Rightarrow> (p, routes, None)
         | Some nonce \<Rightarrow>
             let i = to_be_bytes 8 now @ nonce;
                 routes = hm_retain (\<lambda>_ (_, expires). now \<le> expires) routes
             in if fmlookup routes i \<noteq> None then (p, routes, None)
                else let expires = saturating_add now DISCO_REPLAY_WINDOW_SECS
                     in (p\<lparr>pending_probes := fmupd i (targets, expires) (pending_probes p)\<rparr>,
                         fmupd i (peer, expires) routes, Some i))"

definition probe_pending :: "probes \<Rightarrow> tx_id \<Rightarrow> socket_addr \<Rightarrow> u64 \<Rightarrow> bool" where
  "probe_pending p i from now =
     (case fmlookup (pending_probes p) i of
        Some (targets, expires) \<Rightarrow> now \<le> expires \<and> from \<in> set targets
      | None \<Rightarrow> False)"

definition probe_finish :: "probes \<Rightarrow> tx_id \<Rightarrow> socket_addr \<Rightarrow> disco_routes \<Rightarrow> u64
    \<Rightarrow> probes \<times> disco_routes \<times> bool" where
  "probe_finish p i from routes now =
     (if \<not> probe_pending p i from now then (p, routes, False)
      else (p\<lparr>pending_probes := fmdrop i (pending_probes p)\<rparr>, fmdrop i routes, True))"

section \<open>The cache is a replay filter\<close>

lemma saturating_add_nat: "unat (saturating_add a b) = min (unat a + unat b) (2 ^ 64 - 1)"
  by (auto simp: saturating_add_def unat_word_ariths unsigned_minus_1_eq_mask mask_eq_exp_minus_1)

lemma abs_diff_nat: "unat (abs_diff a b) = (if unat a < unat b then unat b - unat a else unat a - unat b)"
  by (auto simp: abs_diff_def word_less_nat_alt unat_sub word_le_nat_alt)

definition cache_ok :: "probes \<Rightarrow> bool" where
  "cache_ok p \<longleftrightarrow> hm_len (seen p) \<le> CAPACITY \<and>
     (\<forall>i e. fmlookup (seen p) i = Some e \<longrightarrow>
        (\<exists>sent. timestamp i = Some sent \<and> e = saturating_add sent DISCO_REPLAY_WINDOW_SECS))"

text \<open>An identifier is spent when it is in the cache or too old to be accepted at the time of the
  last ping. The clock the cache is asked at does not go back.\<close>

definition probe_step :: "probes \<times> u64 \<Rightarrow> tx_id \<times> u64 \<Rightarrow> (probes \<times> u64) \<times> bool" where
  "probe_step s x = (let (p, ok) = accept_ping (fst s) (fst x) (snd x) in ((p, snd x), ok))"

definition ping_spent :: "probes \<times> u64 \<Rightarrow> tx_id \<Rightarrow> bool" where
  "ping_spent s i \<longleftrightarrow> fmlookup (seen (fst s)) i \<noteq> None \<or>
     (case timestamp i of Some sent \<Rightarrow> unat sent + unat DISCO_REPLAY_WINDOW_SECS < unat (snd s) | None \<Rightarrow> True)"

lemma accept_ping_cases:
  assumes "accept_ping p i now = (p', ok)"
  defines "kept \<equiv> hm_retain (\<lambda>_ expires. now \<le> expires) (seen p)"
  obtains (refused) "\<not> ok" "p' = p\<lparr>seen := kept\<rparr>"
  | (accepted) sent where "ok" "timestamp i = Some sent" "abs_diff now sent \<le> DISCO_REPLAY_WINDOW_SECS"
      "fmlookup kept i = None" "hm_len kept < CAPACITY"
      "p' = p\<lparr>seen := fmupd i (saturating_add sent DISCO_REPLAY_WINDOW_SECS) kept\<rparr>"
  using assms by (auto simp: accept_ping_def Let_def split: option.splits if_splits)

lemma cache_ok_step:
  assumes "cache_ok p" "accept_ping p i now = (p', ok)"
  shows "cache_ok p'"
  using assms(2)
proof (cases rule: accept_ping_cases)
  case refused
  then show ?thesis using assms(1) hm_len_retain [of _ "seen p"]
    by (auto simp: cache_ok_def hm_retain_Some intro: order_trans simp del: hm_retain_lookup)
next
  case (accepted sent)
  have "hm_len (seen p') \<le> CAPACITY"
    unfolding accepted(6) using accepted(5) by (simp add: order_trans [OF hm_len_upd] Suc_leI)
  then show ?thesis using assms(1) accepted(2) unfolding accepted(6)
    by (auto simp: cache_ok_def hm_retain_Some simp del: hm_retain_lookup)
qed

lemma kept_or_expired:
  assumes "cache_ok p" "fmlookup (seen p) i = Some e" "fmlookup (hm_retain (\<lambda>_ expires. now \<le> expires) (seen p)) i = None"
  shows "\<exists>sent. timestamp i = Some sent \<and> unat sent + unat DISCO_REPLAY_WINDOW_SECS < unat now"
proof -
  obtain sent where sent: "timestamp i = Some sent" "e = saturating_add sent DISCO_REPLAY_WINDOW_SECS"
    using assms(1,2) by (auto simp: cache_ok_def)
  have "e < now" using assms(2,3) by (auto split: if_splits)
  then have "unat e < unat now" by (simp add: word_less_nat_alt)
  moreover have "unat now \<le> 2 ^ 64 - 1" using unsigned_less [of now, where 'a = nat] by simp
  ultimately show ?thesis using sent by (auto simp: saturating_add_nat)
qed

interpretation ping_cache: replay_filter probe_step "\<lambda>s x. snd s \<le> snd x" fst "\<lambda>s. cache_ok (fst s)" ping_spent
proof
  fix s :: "probes \<times> u64" and x :: "tx_id \<times> u64" and k
  assume inv: "cache_ok (fst s)" and mono: "snd s \<le> snd x"
  obtain p' ok where a: "accept_ping (fst s) (fst x) (snd x) = (p', ok)" by (cases "accept_ping (fst s) (fst x) (snd x)")
  then have st: "probe_step s x = ((p', snd x), ok)" by (simp add: probe_step_def)
  have le: "unat (snd s) \<le> unat (snd x)" using mono by (simp add: word_le_nat_alt)
  show "cache_ok (fst (fst (probe_step s x)))" using cache_ok_step [OF inv a] by (simp add: st)
  show "\<not> ping_spent s (fst x)" if "snd (probe_step s x)"
    using a
  proof (cases rule: accept_ping_cases)
    case (accepted sent)
    have recent: "unat (snd x) \<le> unat sent + unat DISCO_REPLAY_WINDOW_SECS"
      using accepted(3) by (auto simp: word_le_nat_alt abs_diff_nat split: if_splits)
    then have "fmlookup (seen (fst s)) (fst x) = None"
      using kept_or_expired [OF inv _ accepted(4)] accepted(2) by (cases "fmlookup (seen (fst s)) (fst x)") auto
    then show ?thesis using accepted(2) recent le by (simp add: ping_spent_def)
  qed (use that in \<open>simp add: st\<close>)
  show "ping_spent (fst (probe_step s x)) (fst x)" if "snd (probe_step s x)"
    using a by (cases rule: accept_ping_cases) (use that in \<open>simp_all add: st ping_spent_def\<close>)
  show "ping_spent (fst (probe_step s x)) k" if "ping_spent s k"
  proof (cases "fmlookup (hm_retain (\<lambda>_ expires. snd x \<le> expires) (seen (fst s))) k")
    case (Some e)
    have "fmlookup (seen p') k \<noteq> None"
      using a by (cases rule: accept_ping_cases) (use Some in auto)
    then show ?thesis by (simp add: st ping_spent_def)
  next
    case None
    have "case timestamp k of Some sent \<Rightarrow> unat sent + unat DISCO_REPLAY_WINDOW_SECS < unat (snd x) | None \<Rightarrow> True"
      using that kept_or_expired [OF inv _ None] le by (auto simp: ping_spent_def split: option.splits)
    then show ?thesis unfolding st ping_spent_def fst_conv snd_conv by blast
  qed
qed

section \<open>Properties\<close>

text \<open>
  C27. While the clock does not go back, a captured discovery ping is of no use: over any sequence of
  pings that arrive at non-decreasing times, each identifier is accepted at most once, although the
  cache never holds more than 128 identifiers and forgets the ones that have expired. The source reads
  the system clock, which can be set back; the condition is needed.
\<close>

theorem ping_accepted_once:
  assumes "admissible_run probe_step (\<lambda>s x. snd s \<le> snd x) (probes_default, t) xs"
  shows "distinct (map fst (accepted_inputs probe_step (probes_default, t) xs))"
  by (rule ping_cache.at_most_once [OF _ assms]) (simp add: cache_ok_def probes_default_def)

theorem ping_accepted_once_witness:
  "distinct (map fst (accepted_inputs probe_step (probes_default, 0)
     [(to_be_bytes 8 (100 :: u64) @ [1, 2, 3, 4], 90), (to_be_bytes 8 (100 :: u64) @ [1, 2, 3, 4], 131)]))"
  by (rule ping_accepted_once) (simp add: probe_step_def split: prod.split)

end
