(* ===== verification/Route_Table.thy ===== *)
theory Route_Table
  imports Ip_Prefix "HOL-Library.List_Lexorder" "HOL-Library.Product_Lexorder"
begin

text \<open>
  Cryptokey routing: the addresses of an IP packet (engine/crypto/fp-crypto/src/lib.rs) and the
  route table of the data plane (\<^verbatim>\<open>RouteTable\<close>, node/src/worker.rs), a list sorted by prefix
  length and then by peer key, in which the first match is taken for egress and ingress alike.
\<close>

section \<open>Addresses of a packet\<close>

definition IPV4_MIN_HEADER_SIZE :: nat where "IPV4_MIN_HEADER_SIZE = 20"
definition IPV4_SRC_IP_OFF :: nat where "IPV4_SRC_IP_OFF = 12"
definition IPV4_DST_IP_OFF :: nat where "IPV4_DST_IP_OFF = 16"
definition IPV4_IP_SZ :: nat where "IPV4_IP_SZ = 4"
definition IPV6_MIN_HEADER_SIZE :: nat where "IPV6_MIN_HEADER_SIZE = 40"
definition IPV6_SRC_IP_OFF :: nat where "IPV6_SRC_IP_OFF = 8"
definition IPV6_DST_IP_OFF :: nat where "IPV6_DST_IP_OFF = 24"
definition IPV6_IP_SZ :: nat where "IPV6_IP_SZ = 16"

definition dst_address :: "bytes \<Rightarrow> ip_addr option" where
  "dst_address packet =
     (if packet = [] then None
      else if drop_bit 4 (packet ! 0) = 4 \<and> IPV4_MIN_HEADER_SIZE \<le> length packet
      then Some (ipv4_from (slice IPV4_DST_IP_OFF (IPV4_DST_IP_OFF + IPV4_IP_SZ) packet))
      else if drop_bit 4 (packet ! 0) = 6 \<and> IPV6_MIN_HEADER_SIZE \<le> length packet
      then Some (ipv6_from (slice IPV6_DST_IP_OFF (IPV6_DST_IP_OFF + IPV6_IP_SZ) packet))
      else None)"

definition src_address :: "bytes \<Rightarrow> ip_addr option" where
  "src_address packet =
     (if packet = [] then None
      else if drop_bit 4 (packet ! 0) = 4 \<and> IPV4_MIN_HEADER_SIZE \<le> length packet
      then Some (ipv4_from (slice IPV4_SRC_IP_OFF (IPV4_SRC_IP_OFF + IPV4_IP_SZ) packet))
      else if drop_bit 4 (packet ! 0) = 6 \<and> IPV6_MIN_HEADER_SIZE \<le> length packet
      then Some (ipv6_from (slice IPV6_SRC_IP_OFF (IPV6_SRC_IP_OFF + IPV6_IP_SZ) packet))
      else None)"

section \<open>The table\<close>

record route_entry =
  re_prefix :: ip_prefix
  re_peer :: bytes
  re_worker :: nat

record route_table =
  rt_routes :: "route_entry list"
  rt_conflicts :: "ip_prefix set"

definition route_table_default :: route_table where
  "route_table_default = \<lparr>rt_routes = [], rt_conflicts = {}\<rparr>"

definition route_for :: "route_table \<Rightarrow> ip_addr \<Rightarrow> route_entry option" where
  "route_for t a = List.find (\<lambda>r. prefix_contains (re_prefix r) a) (rt_routes t)"

definition accepts_source :: "route_table \<Rightarrow> bytes \<Rightarrow> bytes \<Rightarrow> bool" where
  "accepts_source t peer packet =
     (case src_address packet of
        None \<Rightarrow> False
      | Some source \<Rightarrow> (case route_for t source of None \<Rightarrow> False | Some r \<Rightarrow> re_peer r = peer))"

text \<open>The scan for prefixes claimed by two peers: who claimed a prefix first, the prefixes in
  conflict, and those to warn about because they were not in conflict before.\<close>

definition note_owner :: "ip_prefix set \<Rightarrow> route_entry
    \<Rightarrow> (ip_prefix \<rightharpoonup> bytes) \<times> ip_prefix set \<times> ip_prefix list
    \<Rightarrow> (ip_prefix \<rightharpoonup> bytes) \<times> ip_prefix set \<times> ip_prefix list" where
  "note_owner old entry st =
     (case st of (owners, conflicts, warned) \<Rightarrow>
        (case owners (re_prefix entry) of
           None \<Rightarrow> (owners(re_prefix entry \<mapsto> re_peer entry), conflicts, warned)
         | Some slot \<Rightarrow>
             if slot \<noteq> re_peer entry \<and> re_prefix entry \<notin> conflicts
             then (owners, insert (re_prefix entry) conflicts,
                   if re_prefix entry \<notin> old then warned @ [re_prefix entry] else warned)
             else (owners, conflicts, warned)))"

definition route_key :: "route_entry \<Rightarrow> int \<times> bytes" where
  "route_key r = (- int (pfx_length (re_prefix r)), re_peer r)"

definition with_peer_report :: "route_table \<Rightarrow> bytes \<Rightarrow> nat \<Rightarrow> string list \<Rightarrow> route_table \<times> ip_prefix list" where
  "with_peer_report t peer worker prefixes =
     (let routes = filter (\<lambda>r. re_peer r \<noteq> peer) (rt_routes t) @
            map (\<lambda>prefix. \<lparr>re_prefix = prefix, re_peer = peer, re_worker = worker\<rparr>)
              (List.map_filter (\<lambda>s. res_ok (prefix_from_str s)) prefixes);
          routes = sort_key route_key routes;
          (_, conflicts, warned) = fold (note_owner (rt_conflicts t)) routes (Map.empty, {}, [])
      in (\<lparr>rt_routes = routes, rt_conflicts = conflicts\<rparr>, warned))"

definition with_peer :: "route_table \<Rightarrow> bytes \<Rightarrow> nat \<Rightarrow> string list \<Rightarrow> route_table" where
  "with_peer t peer worker prefixes = fst (with_peer_report t peer worker prefixes)"

definition route_tun :: "bytes \<Rightarrow> route_table \<Rightarrow> (bytes \<times> nat) option" where
  "route_tun pkt t =
     Option.bind (dst_address pkt) (\<lambda>dst. map_option (\<lambda>r. (re_peer r, re_worker r)) (route_for t dst))"

section \<open>The first match is the best claim\<close>

definition parsed :: "string list \<Rightarrow> ip_prefix set" where
  "parsed prefixes = {p. \<exists>s \<in> set prefixes. prefix_from_str s = Inr p}"

lemma parsed_Cons: "parsed (s # ss) = (case prefix_from_str s of Inr p \<Rightarrow> insert p (parsed ss) | Inl _ \<Rightarrow> parsed ss)"
  by (auto simp: parsed_def split: sum.split)

lemma set_map_filter_parsed: "set (List.map_filter (\<lambda>s. res_ok (prefix_from_str s)) prefixes) = parsed prefixes"
proof (induction prefixes)
  case (Cons s ss)
  then show ?case by (cases "prefix_from_str s") (simp_all add: parsed_Cons List.map_filter_simps)
qed (simp add: parsed_def List.map_filter_simps)

lemma with_peer_routes:
  "rt_routes (with_peer t peer worker prefixes) =
     sort_key route_key (filter (\<lambda>r. re_peer r \<noteq> peer) (rt_routes t) @
       map (\<lambda>prefix. \<lparr>re_prefix = prefix, re_peer = peer, re_worker = worker\<rparr>)
         (List.map_filter (\<lambda>s. res_ok (prefix_from_str s)) prefixes))"
  by (simp add: with_peer_def with_peer_report_def Let_def split: prod.split)

lemma with_peer_mem:
  "r \<in> set (rt_routes (with_peer t peer worker prefixes)) \<longleftrightarrow>
     (if re_peer r = peer then re_worker r = worker \<and> re_prefix r \<in> parsed prefixes else r \<in> set (rt_routes t))"
  by (cases r) (auto simp: with_peer_routes set_map_filter_parsed)

lemma with_peer_sorted: "sorted (map route_key (rt_routes (with_peer t peer worker prefixes)))"
  by (simp add: with_peer_routes)

text \<open>In a list sorted by a key the first match has the least key of all matches.\<close>

lemma find_sorted_least:
  assumes "sorted (map f xs)" "List.find P xs = Some x" "y \<in> set xs" "P y"
  shows "f x \<le> f y"
  using assms by (induction xs) (auto split: if_splits)

text \<open>The updates applied to an empty table, and the claim each peer made last.\<close>

definition route_updates :: "(bytes \<times> nat \<times> string list) list \<Rightarrow> route_table" where
  "route_updates us = fold (\<lambda>(peer, worker, prefixes) t. with_peer t peer worker prefixes) us route_table_default"

definition last_claim :: "(bytes \<times> nat \<times> string list) list \<Rightarrow> bytes \<rightharpoonup> nat \<times> string list" where
  "last_claim us = map_of (rev us)"

definition best_claim :: "(bytes \<rightharpoonup> nat \<times> string list) \<Rightarrow> ip_addr \<Rightarrow> bytes \<Rightarrow> nat \<Rightarrow> bool" where
  "best_claim m a peer worker \<longleftrightarrow>
     (\<exists>prefixes p. m peer = Some (worker, prefixes) \<and> p \<in> parsed prefixes \<and> prefix_contains p a \<and>
        (\<forall>peer' worker' prefixes' p'.
           m peer' = Some (worker', prefixes') \<and> p' \<in> parsed prefixes' \<and> prefix_contains p' a \<longrightarrow>
           pfx_length p' \<le> pfx_length p \<and> (pfx_length p' = pfx_length p \<longrightarrow> peer \<le> peer')))"

lemma route_updates_mem:
  "r \<in> set (rt_routes (route_updates us)) \<longleftrightarrow>
     (\<exists>prefixes. last_claim us (re_peer r) = Some (re_worker r, prefixes) \<and> re_prefix r \<in> parsed prefixes)"
proof (induction us rule: rev_induct)
  case (snoc u us)
  obtain peer worker prefixes where u: "u = (peer, worker, prefixes)" by (rule prod_cases3)
  have "route_updates (us @ [u]) = with_peer (route_updates us) peer worker prefixes"
    by (simp add: route_updates_def u)
  moreover have "last_claim (us @ [u]) = (last_claim us)(peer \<mapsto> (worker, prefixes))"
    by (simp add: last_claim_def u)
  ultimately show ?case using snoc.IH by (auto simp: with_peer_mem)
qed (simp add: route_updates_def route_table_default_def last_claim_def)

lemma route_updates_sorted: "sorted (map route_key (rt_routes (route_updates us)))"
proof (cases us rule: rev_cases)
  case (snoc vs u)
  obtain peer worker prefixes where "u = (peer, worker, prefixes)" by (rule prod_cases3)
  then show ?thesis by (simp add: snoc route_updates_def with_peer_sorted)
qed (simp add: route_updates_def route_table_default_def)

lemma route_for_Some:
  assumes "route_for (route_updates us) a = Some r"
  shows "best_claim (last_claim us) a (re_peer r) (re_worker r)"
proof -
  have r: "r \<in> set (rt_routes (route_updates us))" "prefix_contains (re_prefix r) a"
    using assms find_Some_conv_hd unfolding route_for_def by fast+
  obtain prefixes where c: "last_claim us (re_peer r) = Some (re_worker r, prefixes)" "re_prefix r \<in> parsed prefixes"
    using r(1) unfolding route_updates_mem by blast
  have "pfx_length p' \<le> pfx_length (re_prefix r) \<and> (pfx_length p' = pfx_length (re_prefix r) \<longrightarrow> re_peer r \<le> peer')"
    if "last_claim us peer' = Some (worker', prefixes')" "p' \<in> parsed prefixes'" "prefix_contains p' a"
    for peer' worker' prefixes' p'
  proof -
    let ?r = "\<lparr>re_prefix = p', re_peer = peer', re_worker = worker'\<rparr>"
    have "?r \<in> set (rt_routes (route_updates us))" unfolding route_updates_mem using that by simp
    then have "route_key r \<le> route_key ?r"
      using find_sorted_least [OF route_updates_sorted assms [unfolded route_for_def]] that(3) by simp
    then show ?thesis by (auto simp: route_key_def less_eq_prod_def)
  qed
  then show ?thesis using c r(2) unfolding best_claim_def by blast
qed

lemma best_claim_unique:
  assumes "best_claim m a p w" "best_claim m a p' w'"
  shows "p = p' \<and> w = w'"
proof -
  obtain ps x where x: "m p = Some (w, ps)" "x \<in> parsed ps" "prefix_contains x a"
      "\<And>q v qs y. m q = Some (v, qs) \<Longrightarrow> y \<in> parsed qs \<Longrightarrow> prefix_contains y a \<Longrightarrow>
         pfx_length y \<le> pfx_length x \<and> (pfx_length y = pfx_length x \<longrightarrow> p \<le> q)"
    using assms(1) unfolding best_claim_def by blast
  obtain ps' x' where x': "m p' = Some (w', ps')" "x' \<in> parsed ps'" "prefix_contains x' a"
      "\<And>q v qs y. m q = Some (v, qs) \<Longrightarrow> y \<in> parsed qs \<Longrightarrow> prefix_contains y a \<Longrightarrow>
         pfx_length y \<le> pfx_length x' \<and> (pfx_length y = pfx_length x' \<longrightarrow> p' \<le> q)"
    using assms(2) unfolding best_claim_def by blast
  have "p = p'" using x(4) [OF x'(1-3)] x'(4) [OF x(1-3)] by (auto intro: order_antisym)
  then show ?thesis using x(1) x'(1) by simp
qed

lemma route_for_iff:
  "(\<exists>r. route_for (route_updates us) a = Some r \<and> re_peer r = peer \<and> re_worker r = worker) \<longleftrightarrow>
     best_claim (last_claim us) a peer worker"
proof
  assume b: "best_claim (last_claim us) a peer worker"
  then obtain prefixes p where "last_claim us peer = Some (worker, prefixes)" "p \<in> parsed prefixes" "prefix_contains p a"
    unfolding best_claim_def by blast
  then have "\<lparr>re_prefix = p, re_peer = peer, re_worker = worker\<rparr> \<in> set (rt_routes (route_updates us))"
    unfolding route_updates_mem by simp
  then have "route_for (route_updates us) a \<noteq> None"
    unfolding route_for_def find_None_iff using \<open>prefix_contains p a\<close> by force
  then obtain r where r: "route_for (route_updates us) a = Some r" by blast
  then show "\<exists>r. route_for (route_updates us) a = Some r \<and> re_peer r = peer \<and> re_worker r = worker"
    using best_claim_unique [OF route_for_Some [OF r] b] by blast
qed (use route_for_Some in blast)

section \<open>Properties\<close>

text \<open>
  C21. Cryptokey routing does what longest-prefix routing says, whatever the order in which peers
  came and changed: a packet from the tunnel interface goes to the peer whose last claim has the
  longest prefix that contains its destination, the one with the smallest key among equals, and a
  packet from a peer is let in exactly if a packet to its source address would go to that peer.
\<close>

theorem cryptokey_routing:
  "(route_tun pkt (route_updates us) = Some (peer, worker) \<longleftrightarrow>
      (\<exists>a. dst_address pkt = Some a \<and> best_claim (last_claim us) a peer worker)) \<and>
   (accepts_source (route_updates us) peer pkt \<longleftrightarrow>
      (\<exists>a worker. src_address pkt = Some a \<and> best_claim (last_claim us) a peer worker))"
proof
  have "route_tun pkt (route_updates us) = Some (peer, worker) \<longleftrightarrow>
      (\<exists>a. dst_address pkt = Some a \<and>
         (\<exists>r. route_for (route_updates us) a = Some r \<and> re_peer r = peer \<and> re_worker r = worker))"
    by (auto simp: route_tun_def bind_eq_Some_conv)
  then show "route_tun pkt (route_updates us) = Some (peer, worker) \<longleftrightarrow>
      (\<exists>a. dst_address pkt = Some a \<and> best_claim (last_claim us) a peer worker)"
    unfolding route_for_iff .
  have "accepts_source (route_updates us) peer pkt \<longleftrightarrow>
      (\<exists>a worker. src_address pkt = Some a \<and>
         (\<exists>r. route_for (route_updates us) a = Some r \<and> re_peer r = peer \<and> re_worker r = worker))"
    by (auto simp: accepts_source_def split: option.splits)
  then show "accepts_source (route_updates us) peer pkt \<longleftrightarrow>
      (\<exists>a worker. src_address pkt = Some a \<and> best_claim (last_claim us) a peer worker)"
    unfolding route_for_iff .
qed

end
