(* ===== verification/Index_Table.thy ===== *)
theory Index_Table
  imports Hash_Map
begin

text \<open>
  The receiver indices a data-plane worker has handed out (\<^verbatim>\<open>IndexTable\<close>, node/src/worker.rs): a
  local map from index to peer, the slots that say which indices of a peer are still of use, and
  the map from index to worker that all workers share, which is passed and returned.
\<close>

section \<open>Model\<close>

type_synonym index_owner = "(u32, nat) fmap"

record index_slots =
  current_idx :: "u32 option"
  previous_idx :: "u32 option"
  pending_idx :: "u32 option"

definition index_slots_default :: index_slots where
  "index_slots_default = \<lparr>current_idx = None, previous_idx = None, pending_idx = None\<rparr>"

record index_table =
  it_local :: "(u32, bytes) fmap"
  it_wid :: nat
  it_slots :: "(bytes, index_slots) fmap"

definition index_table_new :: "u32 iter_order \<Rightarrow> (u32, bytes) fmap \<Rightarrow> nat \<Rightarrow> index_table" where
  "index_table_new ord l wid =
     \<lparr>it_local = l, it_wid = wid,
      it_slots = fold (\<lambda>idx m. case fmlookup l idx of
          Some pk \<Rightarrow> fmupd pk (index_slots_default\<lparr>pending_idx := Some idx\<rparr>) m | None \<Rightarrow> m) (hm_keys ord l) fmempty\<rparr>"

definition slots_keep :: "index_slots \<Rightarrow> u32 \<Rightarrow> bool" where
  "slots_keep s idx = (Some idx \<in> set [current_idx s, previous_idx s, pending_idx s])"

definition index_prune :: "index_table \<Rightarrow> index_owner \<Rightarrow> bytes \<Rightarrow> index_table \<times> index_owner" where
  "index_prune t owner pk =
     (case fmlookup (it_slots t) pk of
        None \<Rightarrow> (t, owner)
      | Some slots \<Rightarrow>
          (t\<lparr>it_local := hm_retain (\<lambda>idx peer. peer \<noteq> pk \<or> slots_keep slots idx) (it_local t)\<rparr>,
           hm_retain (\<lambda>idx w. \<not> (fmlookup (it_local t) idx = Some pk \<and> \<not> slots_keep slots idx \<and> w = it_wid t)) owner))"

definition index_insert :: "index_table \<Rightarrow> index_owner \<Rightarrow> u32 \<Rightarrow> bytes \<Rightarrow> index_table \<times> index_owner" where
  "index_insert t owner idx pk =
     (let slots = (case fmlookup (it_slots t) pk of Some s \<Rightarrow> s | None \<Rightarrow> index_slots_default);
          t = t\<lparr>it_slots := fmupd pk (slots\<lparr>pending_idx := Some idx\<rparr>) (it_slots t)\<rparr>;
          (t, owner) = index_prune t owner pk
      in (t\<lparr>it_local := fmupd idx pk (it_local t)\<rparr>, fmupd idx (it_wid t) owner))"

definition index_confirm :: "index_table \<Rightarrow> index_owner \<Rightarrow> u32 \<Rightarrow> bytes \<Rightarrow> index_table \<times> index_owner" where
  "index_confirm t owner idx pk =
     (case fmlookup (it_slots t) pk of
        None \<Rightarrow> (t, owner)
      | Some slots \<Rightarrow>
          if pending_idx slots = Some idx
          then let slots = slots\<lparr>previous_idx := current_idx slots\<rparr>;
                   slots = slots\<lparr>current_idx := pending_idx slots, pending_idx := None\<rparr>
               in index_prune (t\<lparr>it_slots := fmupd pk slots (it_slots t)\<rparr>) owner pk
          else (t, owner))"

definition index_get :: "index_table \<Rightarrow> u32 \<Rightarrow> bytes option" where
  "index_get t idx = fmlookup (it_local t) idx"

definition index_remove_peer :: "index_table \<Rightarrow> index_owner \<Rightarrow> bytes \<Rightarrow> index_table \<times> index_owner" where
  "index_remove_peer t owner pk =
     (t\<lparr>it_slots := fmdrop pk (it_slots t), it_local := hm_retain (\<lambda>_ v. v \<noteq> pk) (it_local t)\<rparr>,
      hm_retain (\<lambda>idx _. fmlookup (it_local t) idx \<noteq> Some pk) owner)"

section \<open>Invariant\<close>

text \<open>Every index of a peer is in one of its three slots, and an index the shared map sends to this
  worker is known to it.\<close>

definition index_ok :: "index_table \<Rightarrow> index_owner \<Rightarrow> bool" where
  "index_ok t owner \<longleftrightarrow>
     (\<forall>idx pk. fmlookup (it_local t) idx = Some pk \<longrightarrow>
        (\<exists>s. fmlookup (it_slots t) pk = Some s \<and> slots_keep s idx)) \<and>
     (\<forall>idx. fmlookup owner idx = Some (it_wid t) \<longrightarrow> fmlookup (it_local t) idx \<noteq> None)"

lemma index_okD:
  "index_ok t owner \<Longrightarrow> fmlookup (it_local t) idx = Some pk \<Longrightarrow>
     \<exists>s. fmlookup (it_slots t) pk = Some s \<and> slots_keep s idx"
  unfolding index_ok_def by blast

text \<open>What pruning establishes: for the pruned peer from nothing but the slots it has.\<close>

definition index_ok_but :: "bytes \<Rightarrow> index_table \<Rightarrow> index_owner \<Rightarrow> bool" where
  "index_ok_but pk t owner \<longleftrightarrow>
     fmlookup (it_slots t) pk \<noteq> None \<and>
     (\<forall>idx pk'. fmlookup (it_local t) idx = Some pk' \<and> pk' \<noteq> pk \<longrightarrow>
        (\<exists>s. fmlookup (it_slots t) pk' = Some s \<and> slots_keep s idx)) \<and>
     (\<forall>idx. fmlookup owner idx = Some (it_wid t) \<longrightarrow> fmlookup (it_local t) idx \<noteq> None)"

lemma index_prune_ok:
  assumes "index_ok_but pk t owner" "index_prune t owner pk = (t', owner')"
  shows "index_ok t' owner'" "it_slots t' = it_slots t" "it_wid t' = it_wid t"
proof -
  obtain s where s: "fmlookup (it_slots t) pk = Some s" using assms(1) by (auto simp: index_ok_but_def)
  let ?l = "hm_retain (\<lambda>idx peer. peer \<noteq> pk \<or> slots_keep s idx) (it_local t)"
  let ?o = "hm_retain (\<lambda>idx w. \<not> (fmlookup (it_local t) idx = Some pk \<and> \<not> slots_keep s idx \<and> w = it_wid t)) owner"
  have t': "t' = t\<lparr>it_local := ?l\<rparr>" "owner' = ?o" using assms(2) s by (simp_all add: index_prune_def)
  show "it_slots t' = it_slots t" "it_wid t' = it_wid t" by (simp_all add: t'(1))
  have "\<exists>s'. fmlookup (it_slots t) pk' = Some s' \<and> slots_keep s' idx" if "fmlookup ?l idx = Some pk'" for idx pk'
    using that assms(1) s unfolding hm_retain_Some index_ok_but_def by (cases "pk' = pk") auto
  moreover have "fmlookup ?l idx \<noteq> None" if "fmlookup ?o idx = Some (it_wid t)" for idx
  proof -
    have o: "fmlookup owner idx = Some (it_wid t)" "\<not> (fmlookup (it_local t) idx = Some pk \<and> \<not> slots_keep s idx)"
      using that unfolding hm_retain_Some by auto
    then obtain pk' where "fmlookup (it_local t) idx = Some pk'" using assms(1) by (auto simp: index_ok_but_def)
    then show ?thesis using o(2) by auto
  qed
  ultimately show "index_ok t' owner'" unfolding index_ok_def t' by simp
qed

lemma index_ok_but_slots:
  assumes "index_ok t owner"
  shows "index_ok_but pk (t\<lparr>it_slots := fmupd pk s (it_slots t)\<rparr>) owner"
  using assms unfolding index_ok_def index_ok_but_def by auto

lemma index_insert_ok:
  assumes "index_ok t owner" "index_insert t owner idx pk = (t', owner')"
  shows "index_ok t' owner' \<and> it_wid t' = it_wid t"
proof -
  define s where "s = (case fmlookup (it_slots t) pk of Some s \<Rightarrow> s | None \<Rightarrow> index_slots_default)\<lparr>pending_idx := Some idx\<rparr>"
  obtain u o' where u: "index_prune (t\<lparr>it_slots := fmupd pk s (it_slots t)\<rparr>) owner pk = (u, o')"
    by (cases "index_prune (t\<lparr>it_slots := fmupd pk s (it_slots t)\<rparr>) owner pk")
  note p = index_prune_ok [OF index_ok_but_slots [OF assms(1)] u]
  have eq: "t' = u\<lparr>it_local := fmupd idx pk (it_local u)\<rparr>" "owner' = fmupd idx (it_wid u) o'"
    using assms(2) u by (simp_all add: index_insert_def s_def Let_def)
  have "slots_keep s idx" by (simp add: s_def slots_keep_def)
  then show ?thesis using p unfolding index_ok_def eq by auto
qed

lemma index_confirm_ok:
  assumes "index_ok t owner" "index_confirm t owner idx pk = (t', owner')"
  shows "index_ok t' owner' \<and> it_wid t' = it_wid t"
  using assms(2) index_prune_ok [OF index_ok_but_slots [OF assms(1)]] assms(1)
  by (auto simp: index_confirm_def Let_def split: option.splits if_splits)

lemma index_remove_peer_ok:
  assumes "index_ok t owner" "index_remove_peer t owner pk = (t', owner')"
  shows "index_ok t' owner' \<and> it_wid t' = it_wid t"
proof -
  have eq: "t' = t\<lparr>it_slots := fmdrop pk (it_slots t), it_local := hm_retain (\<lambda>_ v. v \<noteq> pk) (it_local t)\<rparr>"
      "owner' = hm_retain (\<lambda>idx _. fmlookup (it_local t) idx \<noteq> Some pk) owner"
    using assms(2) by (simp_all add: index_remove_peer_def)
  have "\<exists>s. fmlookup (fmdrop pk (it_slots t)) pk' = Some s \<and> slots_keep s idx"
    if "fmlookup (hm_retain (\<lambda>_ v. v \<noteq> pk) (it_local t)) idx = Some pk'" for idx pk'
    using that assms(1) unfolding hm_retain_Some index_ok_def by auto
  moreover have "fmlookup (hm_retain (\<lambda>_ v. v \<noteq> pk) (it_local t)) idx \<noteq> None"
    if "fmlookup owner' idx = Some (it_wid t)" for idx
    using that assms(1) unfolding eq hm_retain_Some index_ok_def by (auto split: option.splits)
  ultimately show ?thesis unfolding index_ok_def by (simp add: eq del: hm_retain_lookup)
qed

section \<open>Runs\<close>

text \<open>What the data plane does to the table of a worker.\<close>

datatype index_op = IndexInsert u32 bytes | IndexConfirm u32 bytes | IndexRemove bytes

definition index_apply :: "index_op \<Rightarrow> index_table \<times> index_owner \<Rightarrow> index_table \<times> index_owner" where
  "index_apply x st =
     (case x of
        IndexInsert idx pk \<Rightarrow> index_insert (fst st) (snd st) idx pk
      | IndexConfirm idx pk \<Rightarrow> index_confirm (fst st) (snd st) idx pk
      | IndexRemove pk \<Rightarrow> index_remove_peer (fst st) (snd st) pk)"

definition index_start :: "nat \<Rightarrow> index_table \<times> index_owner" where
  "index_start wid = (index_table_new sorted_order fmempty wid, fmempty)"

lemma index_apply_ok:
  assumes "index_ok (fst st) (snd st)"
  shows "index_ok (fst (index_apply x st)) (snd (index_apply x st)) \<and> it_wid (fst (index_apply x st)) = it_wid (fst st)"
  using index_insert_ok [OF assms] index_confirm_ok [OF assms] index_remove_peer_ok [OF assms]
  by (cases x) (simp_all add: index_apply_def prod_eq_iff)

lemma index_run_ok:
  "index_ok (fst st) (snd st) \<Longrightarrow>
     index_ok (fst (fold index_apply xs st)) (snd (fold index_apply xs st)) \<and>
     it_wid (fst (fold index_apply xs st)) = it_wid (fst st)"
  by (induction xs arbitrary: st) (use index_apply_ok in fastforce)+

lemma index_start_ok: "index_ok (fst (index_start wid)) (snd (index_start wid)) \<and> it_wid (fst (index_start wid)) = wid"
  by (simp add: index_start_def index_ok_def index_table_new_def)

lemma live_indices:
  assumes "index_ok t owner"
  shows "finite {idx. index_get t idx = Some pk} \<and> card {idx. index_get t idx = Some pk} \<le> 3"
proof (cases "fmlookup (it_slots t) pk")
  case None
  then have "index_get t idx \<noteq> Some pk" for idx
    using index_okD [OF assms, of idx pk] by (auto simp: index_get_def)
  then show ?thesis by simp
next
  case (Some s)
  let ?slots = "[current_idx s, previous_idx s, pending_idx s]"
  have sub: "{idx. index_get t idx = Some pk} \<subseteq> set (map the ?slots)"
  proof
    fix idx assume "idx \<in> {idx. index_get t idx = Some pk}"
    then have "Some idx \<in> set ?slots" using index_okD [OF assms, of idx pk] Some by (simp add: index_get_def slots_keep_def)
    from imageI [OF this, of the] show "idx \<in> set (map the ?slots)" by simp
  qed
  have "card {idx. index_get t idx = Some pk} \<le> card (set (map the ?slots))" by (rule card_mono [OF _ sub]) simp
  also have "\<dots> \<le> 3" using card_length [of "map the ?slots"] by simp
  finally show ?thesis using finite_subset [OF sub] by simp
qed

text \<open>
  C31. Receiver indices do not accumulate: whatever handshakes are started, confirmed and abandoned,
  a peer has at most three live indices, and the shared map sends no index to a worker that does
  not know it any more.
\<close>

theorem index_table_bounded:
  "let (t, owner) = fold index_apply xs (index_start wid)
   in (\<forall>pk. card {idx. index_get t idx = Some pk} \<le> 3) \<and>
      (\<forall>idx. \<not> (fmlookup owner idx = Some wid \<and> index_get t idx = None))"
proof -
  obtain t owner where run: "fold index_apply xs (index_start wid) = (t, owner)" by fastforce
  have "index_ok t owner \<and> it_wid t = wid"
    using index_run_ok [OF conjunct1 [OF index_start_ok], of xs wid] index_start_ok [of wid] by (simp add: run)
  then show ?thesis using live_indices [of t owner] by (auto simp: run index_ok_def index_get_def)
qed

end
