(* ===== verification/Gso.thy ===== *)
theory Gso
  imports Disco_Codec
begin

text \<open>
  The send side of segmentation offload (\<^verbatim>\<open>GsoBatch\<close>, node/src/gso.rs): equal-sized datagrams for
  one destination are gathered in a buffer that the kernel splits again. What reaches the wire is
  the sequence of datagrams each operation returns; how the kernel takes a segmented send is an
  argument. The theorem is that batching changes neither the datagrams nor their order.
\<close>

section \<open>Model\<close>

definition MAX_BATCH_BYTES :: nat where "MAX_BATCH_BYTES = 60 * 1024"

text \<open>The ways \<^verbatim>\<open>send_segmented\<close> ends: the kernel took the buffer, the socket is gone (also reported
  as success, so that nothing is sent twice), or the kernel rejected the request.\<close>

datatype segmented = Taken | SocketGone | Rejected

record gso_batch =
  gb_buf :: bytes
  gb_seg :: nat
  gb_dst :: "socket_addr option"
  gb_count :: nat
  gso_ok :: bool
  gso_disabled :: bool

definition gso_new :: "bool \<Rightarrow> gso_batch" where
  "gso_new disabled =
     \<lparr>gb_buf = [], gb_seg = 0, gb_dst = None, gb_count = 0, gso_ok = True, gso_disabled = disabled\<rparr>"

text \<open>\<^verbatim>\<open>slice::chunks\<close>, for a positive size.\<close>

function chunks :: "nat \<Rightarrow> 'a list \<Rightarrow> 'a list list" where
  "chunks n xs = (if n = 0 \<or> xs = [] then [] else take n xs # chunks n (drop n xs))"
  by pat_completeness auto
termination
  by (relation "measure (\<lambda>(n, xs). length xs)") auto

declare chunks.simps [simp del]

definition send_split :: "bytes \<Rightarrow> nat \<Rightarrow> socket_addr \<Rightarrow> (socket_addr \<times> bytes) list" where
  "send_split buf seg dst = map (\<lambda>chunk. (dst, chunk)) (chunks (max seg 1) buf)"

definition send_segmented :: "segmented \<Rightarrow> bytes \<Rightarrow> nat \<Rightarrow> socket_addr \<Rightarrow> (socket_addr \<times> bytes) list \<times> bool" where
  "send_segmented k buf seg dst =
     (case k of
        Taken \<Rightarrow> (map (\<lambda>chunk. (dst, chunk)) (chunks (unat (word_of_nat seg :: u16)) buf), True)
      | SocketGone \<Rightarrow> ([], True)
      | Rejected \<Rightarrow> ([], False))"

definition gso_flush :: "segmented \<Rightarrow> gso_batch \<Rightarrow> gso_batch \<times> (socket_addr \<times> bytes) list" where
  "gso_flush k b =
     (if gb_count b = 0 then (b, [])
      else case gb_dst b of
        None \<Rightarrow> (b\<lparr>gb_buf := [], gb_seg := 0, gb_count := 0\<rparr>, [])
      | Some dst \<Rightarrow>
          let b = b\<lparr>gb_dst := None\<rparr>;
              (b, out) =
                (if gb_count b = 1 then (b, [(dst, gb_buf b)])
                 else let (sent, accepted) = (if gso_ok b then send_segmented k (gb_buf b) (gb_seg b) dst else ([], False))
                      in if accepted then (b, sent)
                         else (b\<lparr>gso_ok := False\<rparr>, send_split (gb_buf b) (gb_seg b) dst))
          in (b\<lparr>gb_buf := [], gb_seg := 0, gb_count := 0\<rparr>, out))"

text \<open>Queueing can flush at two places, each with its own outcome.\<close>

definition gso_push :: "segmented \<Rightarrow> segmented \<Rightarrow> gso_batch \<Rightarrow> socket_addr \<Rightarrow> bytes
    \<Rightarrow> gso_batch \<times> (socket_addr \<times> bytes) list" where
  "gso_push k k' b dst pkt =
     (if gso_disabled b then (b, [(dst, pkt)])
      else
        let (b, out) =
              (if gb_dst b \<noteq> Some dst \<or> (0 < gb_count b \<and> length pkt \<noteq> gb_seg b) \<or>
                  MAX_BATCH_BYTES < length (gb_buf b) + length pkt
               then gso_flush k b else (b, []));
            b = (if gb_count b = 0 then b\<lparr>gb_seg := length pkt, gb_dst := Some dst\<rparr> else b);
            b = b\<lparr>gb_buf := gb_buf b @ pkt, gb_count := gb_count b + 1\<rparr>
        in if length pkt < gb_seg b
           then let (b, out') = gso_flush k' b in (b, out @ out')
           else (b, out))"

section \<open>The batch holds equal segments\<close>

text \<open>The datagrams a batch stands for.\<close>

definition gso_pending :: "gso_batch \<Rightarrow> (socket_addr \<times> bytes) list" where
  "gso_pending b = (case gb_dst b of
      Some dst \<Rightarrow> map (\<lambda>chunk. (dst, chunk)) (chunks (gb_seg b) (gb_buf b)) | None \<Rightarrow> [])"

definition gso_inv :: "gso_batch \<Rightarrow> bool" where
  "gso_inv b \<longleftrightarrow>
     (if gb_count b = 0 then gb_buf b = [] else gb_dst b \<noteq> None \<and> 0 < gb_seg b \<and> length (gb_buf b) = gb_count b * gb_seg b \<and>
        (1 < gb_count b \<longrightarrow> length (gb_buf b) \<le> MAX_BATCH_BYTES))"

lemma chunks_Nil [simp]: "chunks n [] = []"
  by (simp add: chunks.simps)

lemma chunks_step: "0 < n \<Longrightarrow> xs \<noteq> [] \<Longrightarrow> chunks n xs = take n xs # chunks n (drop n xs)"
  by (subst chunks.simps) simp

lemma chunks_append:
  assumes "0 < n" "length xs = k * n" "length ys = n"
  shows "chunks n (xs @ ys) = chunks n xs @ [ys]"
  using assms(2)
proof (induction k arbitrary: xs)
  case 0
  then show ?case using assms chunks_step [of n ys] by auto
next
  case (Suc k)
  then have "xs \<noteq> []" "length (drop n xs) = k * n" using assms(1) by auto
  then show ?case using Suc.IH [of "drop n xs"] Suc.prems assms(1) chunks_step [of n "xs @ ys"] chunks_step [of n xs] by simp
qed

lemma chunks_one: "xs \<noteq> [] \<Longrightarrow> chunks (length xs) xs = [xs]"
  by (simp add: chunks_step)

lemma gso_pending_idle: "gso_inv b \<Longrightarrow> gb_count b = 0 \<Longrightarrow> gso_pending b = []"
  by (auto simp: gso_inv_def gso_pending_def split: option.split)

lemma gso_flush_sends:
  assumes "gso_inv b" "k \<noteq> SocketGone" "gso_flush k b = (b', out)"
  shows "gso_inv b'" "gb_count b' = 0" "out = gso_pending b" "gso_disabled b' = gso_disabled b"
proof -
  have "gso_inv b' \<and> gb_count b' = 0 \<and> out = gso_pending b \<and> gso_disabled b' = gso_disabled b"
  proof (cases "gb_count b = 0")
    case True
    then show ?thesis using assms gso_pending_idle [OF assms(1) True] by (auto simp: gso_flush_def)
  next
    case False
    then obtain dst where d: "gb_dst b = Some dst" "0 < gb_seg b" "length (gb_buf b) = gb_count b * gb_seg b"
      using assms(1) by (auto simp: gso_inv_def)
    have "max (gb_seg b) 1 = gb_seg b" using d(2) by simp
    moreover have "gb_count b = 1 \<Longrightarrow> chunks (gb_seg b) (gb_buf b) = [gb_buf b]"
      using d(2,3) chunks_one [of "gb_buf b"] by (cases "gb_buf b = []") simp_all
    moreover have "unat (word_of_nat (gb_seg b) :: u16) = gb_seg b" if "gb_count b \<noteq> 1"
    proof -
      have "2 * gb_seg b \<le> gb_count b * gb_seg b" using that False by (intro mult_right_mono) auto
      also have "\<dots> \<le> 60 * 1024" using assms(1) that False d(3) by (simp add: gso_inv_def MAX_BATCH_BYTES_def)
      finally show ?thesis by (simp add: unat_of_nat)
    qed
    ultimately show ?thesis
      using assms(2,3) False d
      by (auto simp: gso_flush_def gso_pending_def gso_inv_def send_split_def send_segmented_def Let_def
          split: segmented.splits if_splits)
  qed
  then show "gso_inv b'" "gb_count b' = 0" "out = gso_pending b" "gso_disabled b' = gso_disabled b" by simp_all
qed

text \<open>Adding a datagram of the right size to a batch that can take it.\<close>

lemma gso_extend:
  assumes "gso_inv b" "pkt \<noteq> []" "gb_count b \<noteq> 0 \<Longrightarrow> gb_dst b = Some dst \<and> length pkt = gb_seg b \<and>
      length (gb_buf b) + length pkt \<le> MAX_BATCH_BYTES"
  defines "c \<equiv> (if gb_count b = 0 then b\<lparr>gb_seg := length pkt, gb_dst := Some dst\<rparr> else b)"
  defines "d \<equiv> c\<lparr>gb_buf := gb_buf c @ pkt, gb_count := gb_count c + 1\<rparr>"
  shows "gso_inv d" "gso_pending d = gso_pending b @ [(dst, pkt)]" "length pkt = gb_seg d"
proof -
  have "gso_inv d \<and> gso_pending d = gso_pending b @ [(dst, pkt)] \<and> length pkt = gb_seg d"
  proof (cases "gb_count b = 0")
    case True
    then show ?thesis using assms(1,2) gso_pending_idle [OF assms(1) True] chunks_one [OF assms(2)]
      unfolding d_def c_def by (simp add: gso_inv_def) (simp add: gso_pending_def)
  next
    case False
    then show ?thesis
      using assms(1-3) chunks_append [of "gb_seg b" "gb_buf b" "gb_count b" pkt]
      unfolding d_def c_def by (simp add: gso_inv_def gso_pending_def)
  qed
  then show "gso_inv d" "gso_pending d = gso_pending b @ [(dst, pkt)]" "length pkt = gb_seg d" by simp_all
qed

lemma gso_push_sends:
  assumes "gso_inv b" "pkt \<noteq> []" "k \<noteq> SocketGone" "gso_push k k' b dst pkt = (b', out)" "\<not> gso_disabled b"
  shows "gso_inv b' \<and> out @ gso_pending b' = gso_pending b @ [(dst, pkt)] \<and> gso_disabled b' = gso_disabled b"
proof -
  let ?full = "gb_dst b \<noteq> Some dst \<or> (0 < gb_count b \<and> length pkt \<noteq> gb_seg b) \<or>
      MAX_BATCH_BYTES < length (gb_buf b) + length pkt"
  obtain b1 out1 where f: "(if ?full then gso_flush k b else (b, [])) = (b1, out1)"
    by (cases "if ?full then gso_flush k b else (b, [])")
  have b1: "gso_inv b1" "out1 @ gso_pending b1 = gso_pending b" "gso_disabled b1 = gso_disabled b"
      "gb_count b1 \<noteq> 0 \<Longrightarrow> gb_dst b1 = Some dst \<and> length pkt = gb_seg b1 \<and>
         length (gb_buf b1) + length pkt \<le> MAX_BATCH_BYTES"
    using f gso_flush_sends [OF assms(1,3)] gso_pending_idle assms(1) by (auto split: if_splits)
  define c where "c = (if gb_count b1 = 0 then b1\<lparr>gb_seg := length pkt, gb_dst := Some dst\<rparr> else b1)"
  define d where "d = c\<lparr>gb_buf := gb_buf c @ pkt, gb_count := gb_count c + 1\<rparr>"
  note e = gso_extend [OF b1(1) assms(2) b1(4), folded c_def, folded d_def]
  have "gso_push k k' b dst pkt = (d, out1)"
    using assms(5) e(3) unfolding gso_push_def f Let_def prod.case c_def [symmetric] d_def [symmetric] by simp
  moreover have "gso_disabled d = gso_disabled b1" by (simp add: d_def c_def)
  ultimately show ?thesis using assms(4) e(1,2) b1(2,3) by (metis append_assoc prod.inject)
qed

section \<open>Runs\<close>

datatype gso_op = GsoPush segmented segmented socket_addr bytes | GsoFlush segmented

definition gso_step :: "gso_op \<Rightarrow> gso_batch \<times> (socket_addr \<times> bytes) list \<Rightarrow> gso_batch \<times> (socket_addr \<times> bytes) list" where
  "gso_step x st =
     (let (b, out) = (case x of
          GsoPush k k' dst pkt \<Rightarrow> gso_push k k' (fst st) dst pkt | GsoFlush k \<Rightarrow> gso_flush k (fst st))
      in (b, snd st @ out))"

definition gso_pushed :: "gso_op list \<Rightarrow> (socket_addr \<times> bytes) list" where
  "gso_pushed xs = concat (map (\<lambda>x. case x of GsoPush _ _ dst pkt \<Rightarrow> [(dst, pkt)] | GsoFlush _ \<Rightarrow> []) xs)"

definition gso_op_ok :: "gso_op \<Rightarrow> bool" where
  "gso_op_ok x = (case x of GsoPush k k' _ pkt \<Rightarrow> pkt \<noteq> [] \<and> k \<noteq> SocketGone | GsoFlush k \<Rightarrow> k \<noteq> SocketGone)"

text \<open>A batch that is switched off stays empty.\<close>

definition gso_state_ok :: "gso_batch \<Rightarrow> bool" where
  "gso_state_ok b \<longleftrightarrow> gso_inv b \<and> (gso_disabled b \<longrightarrow> gb_count b = 0)"

lemma gso_step_sends:
  assumes "gso_state_ok (fst st)" "gso_op_ok x"
  shows "gso_state_ok (fst (gso_step x st)) \<and>
    snd (gso_step x st) @ gso_pending (fst (gso_step x st)) = snd st @ gso_pending (fst st) @ gso_pushed [x]"
proof (cases x)
  case (GsoFlush k)
  obtain b out where f: "gso_flush k (fst st) = (b, out)" by (cases "gso_flush k (fst st)")
  note s = gso_flush_sends [OF _ _ f]
  show ?thesis using assms s gso_pending_idle
    by (simp add: GsoFlush gso_step_def f gso_pushed_def gso_state_ok_def gso_op_ok_def)
next
  case (GsoPush k k' dst pkt)
  obtain b out where f: "gso_push k k' (fst st) dst pkt = (b, out)" by (cases "gso_push k k' (fst st) dst pkt")
  show ?thesis
  proof (cases "gso_disabled (fst st)")
    case True
    then have "gso_pending (fst st) = []" using assms(1) gso_pending_idle by (simp add: gso_state_ok_def)
    then show ?thesis using True assms(1) f by (auto simp: GsoPush gso_step_def gso_pushed_def gso_push_def)
  next
    case False
    then show ?thesis using assms gso_push_sends [OF _ _ _ f]
      by (simp add: GsoPush gso_step_def f gso_pushed_def gso_state_ok_def gso_op_ok_def)
  qed
qed

lemma gso_run_sends:
  assumes "gso_state_ok (fst st)" "list_all gso_op_ok xs"
  shows "gso_state_ok (fst (fold gso_step xs st)) \<and>
    snd (fold gso_step xs st) @ gso_pending (fst (fold gso_step xs st)) = snd st @ gso_pending (fst st) @ gso_pushed xs"
  using assms
proof (induction xs arbitrary: st)
  case (Cons x xs)
  then have "gso_pushed (x # xs) = gso_pushed [x] @ gso_pushed xs" by (simp add: gso_pushed_def)
  then show ?case using Cons.IH [of "gso_step x st"] gso_step_sends [of st x] Cons.prems by simp
qed (simp add: gso_pushed_def)

text \<open>
  C29. Batching is invisible on the wire: whatever non-empty datagrams are queued for whatever
  destinations, once the batch has been flushed exactly those datagrams have been sent, in that
  order, whether the kernel splits the buffer or the program has to.
\<close>

theorem gso_preserves_datagrams:
  assumes "list_all gso_op_ok (xs @ [GsoFlush k])"
  shows "snd (fold gso_step (xs @ [GsoFlush k]) (gso_new disabled, [])) = gso_pushed xs"
proof -
  have new: "gso_state_ok (gso_new disabled)" "gso_pending (gso_new disabled) = []"
    by (simp_all add: gso_state_ok_def gso_inv_def gso_new_def gso_pending_def)
  let ?st = "fold gso_step xs (gso_new disabled, [])"
  have run: "gso_state_ok (fst ?st)" "snd ?st @ gso_pending (fst ?st) = gso_pushed xs"
    using gso_run_sends [of "(gso_new disabled, [])" xs] assms new by simp_all
  obtain b out where f: "gso_flush k (fst ?st) = (b, out)" by (cases "gso_flush k (fst ?st)")
  then show ?thesis using gso_flush_sends(3) [OF _ _ f] run assms by (simp add: gso_step_def gso_state_ok_def gso_op_ok_def)
qed

theorem gso_preserves_datagrams_witness:
  "snd (fold gso_step ([GsoPush Taken Taken (SockV4 1 2) [5, 6], GsoPush Taken Taken (SockV4 1 2) [7, 8],
      GsoPush Rejected Taken (SockV4 1 2) [9]] @ [GsoFlush Rejected]) (gso_new False, [])) =
     [(SockV4 1 2, [5, 6]), (SockV4 1 2, [7, 8]), (SockV4 1 2, [9])]"
  by (subst gso_preserves_datagrams) (simp_all add: gso_op_ok_def gso_pushed_def)

end
