(* ===== verification/Node_Peer.thy ===== *)
theory Node_Peer
  imports Noise_Cryptor Disco_Probes Index_Table Gso
begin

text \<open>
  A peer as the data plane of a node sees it (node/src/peer.rs): its crypto tunnel, its discovery
  probes and the state that decides over which path packets travel, with the handling of
  handshakes and data. Everything a handler sends is in the list of outputs it returns. A handler
  reads its environment (clocks, random bytes, whether the relay can be used) on several occasions;
  the argument \<open>E\<close> gives what it reads on each, so no two readings are related by assumption.
  Instants and durations are numbers of nanoseconds.
\<close>

section \<open>Status\<close>

definition ST_NONE :: byte where "ST_NONE = 0"
definition ST_UDP_DIRECT :: byte where "ST_UDP_DIRECT = 1"
definition ST_TCP_DIRECT :: byte where "ST_TCP_DIRECT = 2"
definition ST_RELAY :: byte where "ST_RELAY = 3"

record peer_stat =
  rx_bytes :: u64
  tx_bytes :: u64
  rx_source_drops :: u64
  last_handshake_unix :: u64
  rtt_us :: u64
  st_transport :: byte
  st_endpoint :: "socket_addr option"
  st_allowed_ips :: "string list"

definition peer_stat_new :: "string list \<Rightarrow> peer_stat" where
  "peer_stat_new allowed_ips =
     \<lparr>rx_bytes = 0, tx_bytes = 0, rx_source_drops = 0, last_handshake_unix = 0, rtt_us = 0,
      st_transport = ST_NONE, st_endpoint = None, st_allowed_ips = allowed_ips\<rparr>"

definition add_rx :: "peer_stat \<Rightarrow> nat \<Rightarrow> peer_stat" where
  "add_rx s n = s\<lparr>rx_bytes := rx_bytes s + word_of_nat n\<rparr>"

definition add_tx :: "peer_stat \<Rightarrow> nat \<Rightarrow> peer_stat" where
  "add_tx s n = s\<lparr>tx_bytes := tx_bytes s + word_of_nat n\<rparr>"

definition mark_handshake :: "u64 \<Rightarrow> peer_stat \<Rightarrow> peer_stat" where
  "mark_handshake now s = s\<lparr>last_handshake_unix := now\<rparr>"

section \<open>Environment and outputs\<close>

record env =
  e_rng :: rng
  e_now :: nat
  e_boot :: "nat \<Rightarrow> instant"
  e_unix :: u64
  e_stamper :: time_stamper
  e_relay :: bool
  e_seg :: segmented

datatype node_output =
    UdpTo socket_addr bytes
  | TcpTo nat bytes
  | RelayTo peer_key bytes
  | TunTo bytes

text \<open>The transport a packet arrived on.\<close>

datatype via = ViaUdp | ViaTcp | ViaRelay

definition T_HANDSHAKE_INIT :: byte where "T_HANDSHAKE_INIT = 1"
definition T_HANDSHAKE_RESP :: byte where "T_HANDSHAKE_RESP = 2"
definition T_DATA :: byte where "T_DATA = 4"
definition LIVENESS_DEAD_SECS :: nat where "LIVENESS_DEAD_SECS = 5"
definition REKEY_AFTER_SECS :: nat where "REKEY_AFTER_SECS = 120"

lemmas wg_types = T_HANDSHAKE_INIT_def T_HANDSHAKE_RESP_def T_DATA_def

definition from_secs :: "nat \<Rightarrow> nat" where "from_secs s = s * 1000000000"

definition first_byte :: "bytes \<Rightarrow> byte" where
  "first_byte bytes = (case bytes of b # _ \<Rightarrow> b | [] \<Rightarrow> 0)"

definition disco_shared :: "crypto \<Rightarrow> bytes \<Rightarrow> bytes \<Rightarrow> bytes" where
  "disco_shared C own_priv peer_pub = x25519_dh C own_priv peer_pub"

section \<open>Peers\<close>

record peer =
  p_probes :: probes
  p_pubkey :: peer_key
  p_disco_key :: bytes
  p_candidates :: "socket_addr list"
  p_raw :: "noise option"
  p_direct_addr :: "socket_addr option"
  p_prefer_relay :: bool
  p_prefer_tcp :: bool
  p_disco_validated :: bool
  p_handshaked :: bool
  p_init_packet :: "bytes option"
  p_last_init :: "bytes option"
  p_last_resp :: "bytes option"
  p_retries :: u32
  p_last_recv :: "nat option"
  p_relay_pinned :: bool
  p_last_recv_direct :: "nat option"
  p_pinned_at :: "nat option"
  p_last_upgrade :: "nat option"
  p_flaps :: u32
  p_tcp_out :: "nat option"
  p_tcp_gen :: u64
  p_handshake_at :: "nat option"
  p_rtt :: "nat option"
  p_init_sent_at :: "nat option"
  p_rekey_after :: "nat option"
  p_rekey_delay :: u64
  p_stat :: peer_stat

definition peer_fresh ::
    "crypto \<Rightarrow> peer_key \<Rightarrow> socket_addr list \<Rightarrow> bool \<Rightarrow> peer_stat \<Rightarrow> bytes \<Rightarrow> peer" where
  "peer_fresh C pubkey candidates force_relay st own_priv =
     \<lparr>p_probes = probes_default, p_pubkey = pubkey, p_disco_key = disco_shared C own_priv pubkey,
      p_candidates = candidates, p_raw = None,
      p_direct_addr = (if force_relay then None else (case candidates of a # _ \<Rightarrow> Some a | [] \<Rightarrow> None)),
      p_prefer_relay = force_relay, p_prefer_tcp = False, p_disco_validated = False, p_handshaked = False,
      p_init_packet = None, p_last_init = None, p_last_resp = None, p_retries = 0, p_last_recv = None,
      p_relay_pinned = False, p_last_recv_direct = None, p_pinned_at = None, p_last_upgrade = None,
      p_flaps = 0, p_tcp_out = None, p_tcp_gen = 0, p_handshake_at = None, p_rtt = None,
      p_init_sent_at = None, p_rekey_after = None, p_rekey_delay = 5, p_stat = st\<rparr>"

definition note_rekey :: "nat \<Rightarrow> peer \<Rightarrow> peer" where
  "note_rekey now p =
     p\<lparr>p_rekey_after := Some (now + from_secs (unat (p_rekey_delay p))),
       p_rekey_delay := min (p_rekey_delay p * 2) 120\<rparr>"

definition authenticated_data :: "peer \<Rightarrow> peer" where
  "authenticated_data p = p\<lparr>p_rekey_after := None, p_rekey_delay := 5\<rparr>"

definition disco_ping_to ::
    "crypto \<Rightarrow> env \<Rightarrow> disco_routes \<Rightarrow> peer \<Rightarrow> bytes \<Rightarrow> socket_addr list \<Rightarrow> peer \<times> disco_routes \<times> bytes option" where
  "disco_ping_to C e routes p own_pub targets =
     (let (pr, routes, tx_id) = probe_start (p_probes p) (p_pubkey p) targets routes (e_unix e) (e_rng e 0 4)
      in (p\<lparr>p_probes := pr\<rparr>, routes,
          map_option (\<lambda>tx_id. auth_disco_dgram C (p_disco_key p) (DiscoPing tx_id own_pub)) tx_id))"

definition disco_ping ::
    "crypto \<Rightarrow> env \<Rightarrow> disco_routes \<Rightarrow> peer \<Rightarrow> bytes \<Rightarrow> peer \<times> disco_routes \<times> bytes option" where
  "disco_ping C e routes p own_pub =
     (let targets = (case p_direct_addr p of
            Some addr \<Rightarrow> if addr \<in> set (p_candidates p) then p_candidates p else p_candidates p @ [addr]
          | None \<Rightarrow> p_candidates p)
      in disco_ping_to C e routes p own_pub targets)"

definition note_rtt :: "nat \<Rightarrow> peer \<Rightarrow> peer" where
  "note_rtt now p =
     (case p_init_sent_at p of
        None \<Rightarrow> p
      | Some t \<Rightarrow>
          let sample = now - t
          in p\<lparr>p_init_sent_at := None,
               p_rtt := Some (case p_rtt p of Some r \<Rightarrow> (r * 4 + sample) div 5 | None \<Rightarrow> sample)\<rparr>)"

text \<open>The ladder: UDP direct, TCP direct, relay, and UDP direct as the last resort.\<close>

definition send_to_peer :: "bool \<Rightarrow> peer \<Rightarrow> bool \<Rightarrow> bytes \<Rightarrow> node_output list" where
  "send_to_peer relay_up p force_relay bytes =
     (case (p_direct_addr p, p_tcp_out p) of (direct, tcp) \<Rightarrow>
        if \<not> force_relay \<and> \<not> p_prefer_relay p \<and> \<not> p_prefer_tcp p \<and> direct \<noteq> None
        then [UdpTo (the direct) bytes]
        else if \<not> force_relay \<and> \<not> p_prefer_relay p \<and> tcp \<noteq> None then [TcpTo (the tcp) bytes]
        else if relay_up then [RelayTo (p_pubkey p) bytes]
        else (case direct of Some addr \<Rightarrow> [UdpTo addr bytes] | None \<Rightarrow> []))"

definition set_path :: "nat \<Rightarrow> peer \<Rightarrow> socket_addr option \<Rightarrow> via \<Rightarrow> peer" where
  "set_path now p from via =
     (case via of
        ViaUdp \<Rightarrow>
          let p = (case from of Some f \<Rightarrow> p\<lparr>p_direct_addr := Some f\<rparr> | None \<Rightarrow> p);
              p = p\<lparr>p_last_recv_direct := Some now, p_prefer_tcp := False\<rparr>
          in if \<not> p_relay_pinned p then p\<lparr>p_prefer_relay := False\<rparr> else p
      | ViaTcp \<Rightarrow>
          let p = p\<lparr>p_prefer_tcp := True, p_last_recv_direct := Some now\<rparr>
          in if \<not> p_relay_pinned p then p\<lparr>p_prefer_relay := False\<rparr> else p
      | ViaRelay \<Rightarrow> p\<lparr>p_prefer_relay := True\<rparr>)"

section \<open>Handshakes and data\<close>

text \<open>Replacing the first element that satisfies a predicate.\<close>

fun upd_first :: "('a \<Rightarrow> bool) \<Rightarrow> 'a \<Rightarrow> 'a list \<Rightarrow> 'a list" where
  "upd_first P y [] = []"
| "upd_first P y (x # xs) = (if P x then y # xs else x # upd_first P y xs)"

definition insert_index :: "index_table \<Rightarrow> index_owner \<Rightarrow> bytes \<Rightarrow> peer_key \<Rightarrow> index_table \<times> index_owner" where
  "insert_index t owner packet pk =
     (case le_u32 packet 4 of Some idx \<Rightarrow> index_insert t owner idx pk | None \<Rightarrow> (t, owner))"

definition confirm_index :: "index_table \<Rightarrow> index_owner \<Rightarrow> bytes \<Rightarrow> nat \<Rightarrow> peer_key \<Rightarrow> index_table \<times> index_owner" where
  "confirm_index t owner packet off pk =
     (case le_u32 packet off of Some idx \<Rightarrow> index_confirm t owner idx pk | None \<Rightarrow> (t, owner))"

text \<open>What both ways of answering an initiation do once the tunnel has accepted it.\<close>

definition adopt_init ::
    "(nat \<Rightarrow> env) \<Rightarrow> bool \<Rightarrow> peer \<Rightarrow> index_table \<Rightarrow> index_owner \<Rightarrow> bytes \<Rightarrow> socket_addr option \<Rightarrow> via \<Rightarrow> bytes option
       \<Rightarrow> peer \<times> index_table \<times> index_owner \<times> node_output list" where
  "adopt_init E force_relay p t owner bytes from via resp_opt =
     (let p = set_path (e_now (E 1)) (p\<lparr>p_last_init := Some bytes\<rparr>) from via;
          p = p\<lparr>p_last_recv := Some (e_now (E 2)), p_handshake_at := Some (e_now (E 3)),
                p_stat := mark_handshake (e_unix (E 4)) (p_stat p)\<rparr>
      in case resp_opt of
           None \<Rightarrow> (p, t, owner, [])
         | Some resp \<Rightarrow>
             let p = p\<lparr>p_last_resp := Some resp\<rparr>;
                 (t, owner) = insert_index t owner resp (p_pubkey p)
             in (p, t, owner, send_to_peer (e_relay (E 5)) p force_relay resp))"

text \<open>The gapless answer on the existing tunnel; the flag says whether the initiation was taken.\<close>

definition accept_rekey ::
    "crypto \<Rightarrow> (nat \<Rightarrow> env) \<Rightarrow> bool \<Rightarrow> peer \<Rightarrow> index_table \<Rightarrow> index_owner \<Rightarrow> bytes \<Rightarrow> socket_addr option \<Rightarrow> via
       \<Rightarrow> (bool \<times> peer \<times> index_table \<times> index_owner \<times> node_output list) option" where
  "accept_rekey C E force_relay p t owner bytes from via =
     Option.bind (raw_rekey_respond C (e_rng (E 0)) (e_boot (E 0) 0) (p_raw p) bytes (replicate 256 0))
       (\<lambda>(raw, res).
          let p = p\<lparr>p_raw := raw\<rparr>
          in Some (case res of
               Inl _ \<Rightarrow> (False, p, t, owner, [])
             | Inr resp_opt \<Rightarrow> (True, adopt_init E force_relay p t owner bytes from via resp_opt)))"

text \<open>The answer with a fresh tunnel, for a peer the initiation names.\<close>

definition accept_fresh ::
    "crypto \<Rightarrow> (nat \<Rightarrow> env) \<Rightarrow> bool \<Rightarrow> peer list \<Rightarrow> u32 \<Rightarrow> bytes \<Rightarrow> bytes \<Rightarrow> index_table \<Rightarrow> index_owner \<Rightarrow> bytes
       \<Rightarrow> socket_addr option \<Rightarrow> via \<Rightarrow> (peer list \<times> u32 \<times> index_table \<times> index_owner \<times> node_output list) option" where
  "accept_fresh C E force_relay peers peer_index own_priv own_pub t owner bytes from via =
     Option.bind (raw_handle_handshake C (e_rng (E 0)) (e_boot (E 0) 0) (e_stamper (E 0)) peer_index None
         own_priv own_pub bytes)
       (\<lambda>(peer_index, fresh, res). Some (
          case res of
            Inl _ \<Rightarrow> (peers, peer_index, t, owner, [])
          | Inr resp_opt \<Rightarrow>
              (case raw_get_peer_public fresh of
                 Inl _ \<Rightarrow> (peers, peer_index, t, owner, [])
               | Inr pk \<Rightarrow>
                   (case List.find (\<lambda>p. p_pubkey p = pk) peers of
                      None \<Rightarrow> (peers, peer_index, t, owner, [])
                    | Some p \<Rightarrow>
                        let (t, owner) = index_remove_peer t owner pk;
                            (p, t, owner, out) = adopt_init E force_relay (p\<lparr>p_raw := fresh, p_handshaked := True\<rparr>)
                              t owner bytes from via resp_opt
                        in (upd_first (\<lambda>p. p_pubkey p = pk) p peers, peer_index, t, owner, out)))))"

definition accept_init ::
    "crypto \<Rightarrow> (nat \<Rightarrow> env) \<Rightarrow> bool \<Rightarrow> peer list \<Rightarrow> u32 \<Rightarrow> bytes \<Rightarrow> bytes \<Rightarrow> index_table \<Rightarrow> index_owner \<Rightarrow> bytes
       \<Rightarrow> socket_addr option \<Rightarrow> via \<Rightarrow> (peer list \<times> u32 \<times> index_table \<times> index_owner \<times> node_output list) option" where
  "accept_init C E force_relay peers peer_index own_priv own_pub t owner bytes from via =
     (case List.find (\<lambda>p. p_last_init p = Some bytes) peers of
        Some p \<Rightarrow>
          Some (peers, peer_index, t, owner,
            case p_last_resp p of Some resp \<Rightarrow> send_to_peer (e_relay (E 0)) p force_relay resp | None \<Rightarrow> [])
      | None \<Rightarrow>
          (case peek_init_pubkey C own_priv own_pub bytes of
             Some pk \<Rightarrow>
               (if list_ex (\<lambda>p. p_pubkey p = pk \<and> p_handshaked p) peers
                then case List.find (\<lambda>p. p_pubkey p = pk) peers of
                  Some p \<Rightarrow>
                    Option.bind (accept_rekey C E force_relay p t owner bytes from via)
                      (\<lambda>(taken, p, t, owner, out).
                         let peers = upd_first (\<lambda>p. p_pubkey p = pk) p peers
                         in if taken then Some (peers, peer_index, t, owner, out)
                            else accept_fresh C (\<lambda>i. E (i + 6)) force_relay peers peer_index own_priv own_pub t owner
                                   bytes from via)
                | None \<Rightarrow> accept_fresh C E force_relay peers peer_index own_priv own_pub t owner bytes from via
                else accept_fresh C E force_relay peers peer_index own_priv own_pub t owner bytes from via)
           | None \<Rightarrow> accept_fresh C E force_relay peers peer_index own_priv own_pub t owner bytes from via))"

definition wg_response ::
    "crypto \<Rightarrow> (nat \<Rightarrow> env) \<Rightarrow> bool \<Rightarrow> peer \<Rightarrow> index_table \<Rightarrow> index_owner \<Rightarrow> bytes \<Rightarrow> socket_addr option \<Rightarrow> via
       \<Rightarrow> peer \<times> index_table \<times> index_owner \<times> node_output list" where
  "wg_response C E force_relay p t owner bytes from via =
     (let (raw, res) = raw_handle_handshake_response C (e_boot (E 0) 0) (p_raw p) bytes;
          p = p\<lparr>p_raw := raw\<rparr>
      in case res of
           Inl _ \<Rightarrow> (p, t, owner, [])
         | Inr _ \<Rightarrow>
             let (t, owner) = confirm_index t owner bytes 8 (p_pubkey p);
                 p = set_path (e_now (E 1)) p from via;
                 p = p\<lparr>p_handshaked := True, p_last_recv := Some (e_now (E 2)), p_handshake_at := Some (e_now (E 3)),
                       p_stat := mark_handshake (e_unix (E 4)) (p_stat p)\<rparr>;
                 p = note_rtt (e_now (E 5)) p;
                 (raw, res) = raw_on_send C (e_rng (E 6)) (e_boot (E 6)) (p_raw p) [] (replicate 128 0);
                 p = p\<lparr>p_raw := raw\<rparr>
             in (p, t, owner, case res of Inr ka \<Rightarrow> send_to_peer (e_relay (E 7)) p force_relay ka | Inl _ \<Rightarrow> []))"

text \<open>Data goes into a buffer of 2048 bytes, of which only the size matters.\<close>

definition wg_data ::
    "crypto \<Rightarrow> (nat \<Rightarrow> env) \<Rightarrow> peer \<Rightarrow> index_table \<Rightarrow> index_owner \<Rightarrow> bytes \<Rightarrow> socket_addr option \<Rightarrow> via
       \<Rightarrow> (peer \<times> index_table \<times> index_owner \<times> bytes option) option" where
  "wg_data C E p t owner bytes from via =
     Option.bind (raw_on_recv C (e_rng (E 0)) (e_boot (E 0) 0) (p_raw p) bytes (replicate 2048 0)) (\<lambda>(raw, res).
       let p = p\<lparr>p_raw := raw\<rparr>
       in Some (case res of
            Inl _ \<Rightarrow> (p, t, owner, None)
          | Inr pkt \<Rightarrow>
              let packet = (if pkt = [] then None else Some pkt);
                  p = authenticated_data p;
                  (t, owner) = confirm_index t owner bytes 4 (p_pubkey p);
                  p = set_path (e_now (E 1)) p from via;
                  p = p\<lparr>p_last_recv := Some (e_now (E 2)), p_stat := add_rx (p_stat p) (length bytes)\<rparr>
              in (p, t, owner, packet)))"

definition handle_wg ::
    "crypto \<Rightarrow> (nat \<Rightarrow> env) \<Rightarrow> bool \<Rightarrow> peer \<Rightarrow> index_table \<Rightarrow> index_owner \<Rightarrow> bytes \<Rightarrow> socket_addr option \<Rightarrow> via
       \<Rightarrow> (peer \<times> index_table \<times> index_owner \<times> node_output list \<times> bytes option) option" where
  "handle_wg C E force_relay p t owner bytes from via =
     (if first_byte bytes = T_HANDSHAKE_RESP then
        (let (p, t, owner, out) = wg_response C E force_relay p t owner bytes from via
         in Some (p, t, owner, out, None))
      else if first_byte bytes = T_DATA then
        Option.bind (wg_data C E p t owner bytes from via) (\<lambda>(p, t, owner, packet). Some (p, t, owner, [], packet))
      else Some (p, t, owner, [], None))"

end
