(* ===== verification/Node_Worker.thy ===== *)
theory Node_Worker
  imports Node_Peer Route_Table
begin

text \<open>
  The data-plane worker of a node (node/src/worker.rs): it owns a share of the peers and handles
  one message at a time, from the sockets, the tunnel interface, the control plane and a clock that
  ticks every second. The parts of the state the workers share (the owners of probes and of
  receiver indices, the number of the next peer, the status registry and the route table) are
  fields of the same record; other workers can change them between two messages.
\<close>

section \<open>State and messages\<close>

record worker =
  w_peers :: "peer list"
  w_index :: index_table
  w_own_priv :: bytes
  w_own_pub :: bytes
  w_force_relay :: bool
  w_gso :: gso_batch
  w_routes :: disco_routes
  w_owner :: index_owner
  w_peer_index :: u32
  w_status :: "peer_key fset"
  w_allowed :: route_table

datatype worker_msg =
    MTick
  | MUdpIn socket_addr bytes
  | MRelayIn peer_key bytes
  | MTcpIn peer_key bytes
  | MTcpConn peer_key u64 "nat option"
  | MTunEgress peer_key bytes
  | MAddPeer peer_key "socket_addr list" "string list" bool
  | MRemovePeer peer_key
  | MUpdateCandidates peer_key "socket_addr list"

section \<open>Which worker a datagram goes to\<close>

definition strip_magic :: "bytes \<Rightarrow> bytes option" where
  "strip_magic bytes =
     (if take (length DISCO_MAGIC) bytes = DISCO_MAGIC then Some (drop (length DISCO_MAGIC) bytes) else None)"

text \<open>The receiver index of a response or a data packet. The dispatcher and the worker each read it on their
  own: this is the reading of \<open>route_udp\<close>, the one of \<open>on_udp_in\<close> is \<open>receiver_index\<close> below.\<close>

definition route_index :: "bytes \<Rightarrow> u32 option" where
  "route_index bytes = (if get_at 0 bytes = Some T_HANDSHAKE_RESP then le_u32 bytes 8 else le_u32 bytes 4)"

definition route_udp ::
    "crypto \<Rightarrow> u64 \<Rightarrow> bytes \<Rightarrow> (peer_key \<rightharpoonup> nat) \<Rightarrow> disco_routes \<Rightarrow> index_owner \<Rightarrow> bytes \<Rightarrow> bytes \<Rightarrow> nat option" where
  "route_udp C now bytes peer_to_wid routes owner own_priv own_pub =
     (case strip_magic bytes of
        Some body \<Rightarrow>
          (case disco_decode body of
             Inr (DiscoPing _ sender_key, _) \<Rightarrow> peer_to_wid sender_key
           | Inr (DiscoPong tx_id _, _) \<Rightarrow> Option.bind (disco_owner routes tx_id now) peer_to_wid
           | _ \<Rightarrow> None)
      | None \<Rightarrow>
          if first_byte bytes = T_HANDSHAKE_INIT
          then Option.bind (peek_init_pubkey C own_priv own_pub bytes) peer_to_wid
          else Option.bind (route_index bytes) (fmlookup owner))"

definition route_framed ::
    "crypto \<Rightarrow> bytes \<Rightarrow> peer_key \<Rightarrow> (peer_key \<rightharpoonup> nat) \<Rightarrow> bytes \<Rightarrow> bytes \<Rightarrow> nat option" where
  "route_framed C bytes src peer_to_wid own_priv own_pub =
     (if first_byte bytes = T_HANDSHAKE_INIT
      then Option.bind (peek_init_pubkey C own_priv own_pub bytes) peer_to_wid
      else peer_to_wid src)"

section \<open>The tick\<close>

text \<open>What the body of the loop over the peers works on: the peer, and what the worker shares.\<close>

record tick_state =
  k_peer :: peer
  k_index :: index_table
  k_owner :: index_owner
  k_routes :: disco_routes
  k_out :: "node_output list"

definition emit :: "node_output list \<Rightarrow> tick_state \<Rightarrow> tick_state" where
  "emit out k = k\<lparr>k_out := k_out k @ out\<rparr>"

definition dead_after :: "peer \<Rightarrow> nat" where
  "dead_after p = (case p_rtt p of None \<Rightarrow> from_secs LIVENESS_DEAD_SECS | Some r \<Rightarrow> max (r * 8) (from_secs LIVENESS_DEAD_SECS))"

definition rekey_due :: "peer \<Rightarrow> bytes \<Rightarrow> nat \<Rightarrow> bool \<Rightarrow> bool" where
  "rekey_due p own_pub now relay_available =
     (if p_pubkey p \<le> own_pub \<or> \<not> p_handshaked p \<or> (case p_rekey_after p of Some t \<Rightarrow> now < t | None \<Rightarrow> False) then False
      else if (case p_init_sent_at p of Some t \<Rightarrow> now - t < dead_after p | None \<Rightarrow> False) then False
      else
        let aged = (case p_handshake_at p of Some t \<Rightarrow> from_secs REKEY_AFTER_SECS \<le> now - t | None \<Rightarrow> False);
            silent = (case p_last_recv p of Some t \<Rightarrow> dead_after p \<le> now - t | None \<Rightarrow> False)
        in aged \<or> (\<not> relay_available \<and> silent))"

definition keepalive_send ::
    "crypto \<Rightarrow> (nat \<Rightarrow> env) \<Rightarrow> bytes \<Rightarrow> bool \<Rightarrow> bytes \<Rightarrow> tick_state \<Rightarrow> tick_state" where
  "keepalive_send C E own_pub force_relay ka k =
     (let p = k_peer k;
          k = emit (send_to_peer (e_relay (E 0)) p force_relay ka) k
      in if p_relay_pinned p \<and> \<not> force_relay
         then let (p, routes, ping) = disco_ping C (E 1) (k_routes k) p own_pub;
                  k = k\<lparr>k_peer := p, k_routes := routes\<rparr>
              in case ping of
                   None \<Rightarrow> k
                 | Some ping \<Rightarrow>
                     emit ((case p_direct_addr p of Some addr \<Rightarrow> [UdpTo addr ka, UdpTo addr ping] | None \<Rightarrow> []) @
                           map (\<lambda>c. UdpTo c ping) (p_candidates p)) k
         else k)"

definition emit_rekey :: "crypto \<Rightarrow> (nat \<Rightarrow> env) \<Rightarrow> bool \<Rightarrow> tick_state \<Rightarrow> tick_state \<times> bool" where
  "emit_rekey C E force_relay k =
     (let (raw, res) = raw_rekey_init C (e_rng (E 0)) (e_boot (E 0)) (p_raw (k_peer k)) (replicate 256 0);
          p = (k_peer k)\<lparr>p_raw := raw\<rparr>
      in case res of
           Inl _ \<Rightarrow> (k\<lparr>k_peer := p\<rparr>, False)
         | Inr init \<Rightarrow>
             let (t, owner) = insert_index (k_index k) (k_owner k) init (p_pubkey p);
                 p = note_rekey (e_now (E 1)) p
             in (emit (send_to_peer (e_relay (E 2)) p force_relay init)
                   (k\<lparr>k_peer := p, k_index := t, k_owner := owner\<rparr>), True))"

definition tick_transport :: "bool \<Rightarrow> bool \<Rightarrow> peer \<Rightarrow> byte" where
  "tick_transport force_relay relay_up p =
     (if \<not> p_handshaked p then ST_NONE
      else if \<not> force_relay \<and> \<not> p_prefer_relay p \<and> \<not> p_prefer_tcp p \<and> p_direct_addr p \<noteq> None then ST_UDP_DIRECT
      else if \<not> force_relay \<and> p_tcp_out p \<noteq> None then ST_TCP_DIRECT
      else if relay_up then ST_RELAY
      else if p_direct_addr p \<noteq> None then ST_UDP_DIRECT
      else ST_NONE)"

definition tick_publish :: "env \<Rightarrow> bool \<Rightarrow> tick_state \<Rightarrow> tick_state" where
  "tick_publish e force_relay k =
     (let p = k_peer k
      in k\<lparr>k_peer := p\<lparr>p_stat := (p_stat p)\<lparr>
           st_transport := tick_transport force_relay (e_relay e) p,
           rtt_us := (case p_rtt p of Some r \<Rightarrow> word_of_nat (r div 1000) | None \<Rightarrow> 0),
           st_endpoint := p_direct_addr p\<rparr>\<rparr>\<rparr>)"

definition tick_probe :: "crypto \<Rightarrow> env \<Rightarrow> bytes \<Rightarrow> bool \<Rightarrow> tick_state \<Rightarrow> tick_state" where
  "tick_probe C e own_pub force_relay k =
     (if \<not> force_relay \<and> \<not> p_disco_validated (k_peer k)
      then let (p, routes, ping) = disco_ping C e (k_routes k) (k_peer k) own_pub;
               k = k\<lparr>k_peer := p, k_routes := routes\<rparr>
           in (case ping of Some ping \<Rightarrow> emit (map (\<lambda>c. UdpTo c ping) (p_candidates p)) k | None \<Rightarrow> k)
      else k)"

definition tick_handshaking :: "(nat \<Rightarrow> env) \<Rightarrow> nat \<Rightarrow> bool \<Rightarrow> tick_state \<Rightarrow> tick_state" where
  "tick_handshaking E now force_relay k =
     (let p = (k_peer k)\<lparr>p_retries := p_retries (k_peer k) + 1\<rparr>;
          p = (if \<not> force_relay \<and> \<not> p_disco_validated p \<and> \<not> p_prefer_relay p \<and> e_relay (E 0) \<and> 6 \<le> p_retries p
               then p\<lparr>p_prefer_relay := True\<rparr> else p)
      in case p_init_packet p of
           Some init \<Rightarrow> emit (send_to_peer (e_relay (E 1)) p force_relay init) (k\<lparr>k_peer := p\<lparr>p_init_sent_at := Some now\<rparr>\<rparr>)
         | None \<Rightarrow> k\<lparr>k_peer := p\<rparr>)"

definition tick_keepalive :: "crypto \<Rightarrow> (nat \<Rightarrow> env) \<Rightarrow> bytes \<Rightarrow> bool \<Rightarrow> tick_state \<Rightarrow> tick_state" where
  "tick_keepalive C E own_pub force_relay k =
     (let (raw, res) = raw_on_send C (e_rng (E 0)) (e_boot (E 0)) (p_raw (k_peer k)) [] (replicate 2048 0);
          p = (k_peer k)\<lparr>p_raw := raw\<rparr>;
          k = k\<lparr>k_peer := p\<rparr>
      in case res of
           Inl _ \<Rightarrow> k
         | Inr out \<Rightarrow>
             if get_at 0 out = Some T_DATA
             then keepalive_send C (\<lambda>i. E (i + 1)) own_pub force_relay out
                    (k\<lparr>k_peer := p\<lparr>p_stat := add_tx (p_stat p) (length out)\<rparr>\<rparr>)
             else if get_at 0 out = Some T_HANDSHAKE_INIT \<and> own_pub < p_pubkey p
             then (case le_u32 out 4 of
                     Some idx \<Rightarrow>
                       let (t, owner) = index_insert (k_index k) (k_owner k) idx (p_pubkey p)
                       in emit (send_to_peer (e_relay (E 1)) p force_relay out) (k\<lparr>k_index := t, k_owner := owner\<rparr>)
                   | None \<Rightarrow> k)
             else k)"

definition path_silent :: "nat \<Rightarrow> peer \<Rightarrow> bool" where
  "path_silent now p = (case p_last_recv_direct p of Some t \<Rightarrow> dead_after p \<le> now - t | None \<Rightarrow> True)"

definition tick_silent :: "crypto \<Rightarrow> (nat \<Rightarrow> env) \<Rightarrow> nat \<Rightarrow> bytes \<Rightarrow> bool \<Rightarrow> tick_state \<Rightarrow> tick_state" where
  "tick_silent C E now own_pub force_relay k =
     (let p = k_peer k
      in if path_silent now p \<and> \<not> p_prefer_relay p \<and> \<not> force_relay \<and> e_relay (E 0)
         then let p = p\<lparr>p_prefer_relay := True, p_relay_pinned := True,
                  p_flaps := (case p_last_upgrade p of
                      Some up \<Rightarrow> if now - up < from_secs 20 then min (p_flaps p + 1) 5 else 0 | None \<Rightarrow> 0),
                  p_pinned_at := Some now, p_last_recv := Some now, p_last_recv_direct := None\<rparr>;
                  k = k\<lparr>k_peer := p\<rparr>
              in if own_pub < p_pubkey p
                 then let (k, sent) = emit_rekey C (\<lambda>i. E (i + 1)) force_relay k
                      in if sent then k\<lparr>k_peer := (k_peer k)\<lparr>p_init_sent_at := Some now\<rparr>\<rparr> else k
                 else k
         else k)"

definition min_pin :: "peer \<Rightarrow> nat" where
  "min_pin p = from_secs (2 ^ unat (min (p_flaps p) 5))"

definition tick_upgrade :: "nat \<Rightarrow> tick_state \<Rightarrow> tick_state" where
  "tick_upgrade now k =
     (let p = k_peer k
      in if p_relay_pinned p \<and>
            (case p_last_recv_direct p of Some t \<Rightarrow> now - t < from_secs LIVENESS_DEAD_SECS | None \<Rightarrow> False) \<and>
            (case p_pinned_at p of Some t \<Rightarrow> min_pin p \<le> now - t | None \<Rightarrow> True)
         then k\<lparr>k_peer := p\<lparr>p_relay_pinned := False, p_prefer_relay := False, p_last_upgrade := Some now\<rparr>\<rparr>
         else k)"

definition tick_rekey :: "crypto \<Rightarrow> (nat \<Rightarrow> env) \<Rightarrow> nat \<Rightarrow> bytes \<Rightarrow> bool \<Rightarrow> tick_state \<Rightarrow> tick_state" where
  "tick_rekey C E now own_pub force_relay k =
     (if rekey_due (k_peer k) own_pub now (e_relay (E 0))
      then let (k, sent) = emit_rekey C (\<lambda>i. E (i + 1)) force_relay k
           in if sent then k\<lparr>k_peer := (k_peer k)\<lparr>p_init_sent_at := Some now, p_handshake_at := Some now\<rparr>\<rparr> else k
      else k)"

definition tick_peer :: "crypto \<Rightarrow> (nat \<Rightarrow> env) \<Rightarrow> nat \<Rightarrow> bytes \<Rightarrow> bool \<Rightarrow> tick_state \<Rightarrow> tick_state" where
  "tick_peer C E now own_pub force_relay k =
     (let k = tick_probe C (E 1) own_pub force_relay (tick_publish (E 0) force_relay k)
      in if \<not> p_handshaked (k_peer k) then tick_handshaking (\<lambda>i. E (i + 2)) now force_relay k
         else tick_rekey C (\<lambda>i. E (i + 11)) now own_pub force_relay
                (tick_upgrade now
                  (tick_silent C (\<lambda>i. E (i + 6)) now own_pub force_relay
                    (tick_keepalive C (\<lambda>i. E (i + 2)) own_pub force_relay k))))"

text \<open>The loop over the peers; each peer reads its own part of the environment.\<close>

fun tick_peers :: "crypto \<Rightarrow> (nat \<Rightarrow> env) \<Rightarrow> nat \<Rightarrow> bytes \<Rightarrow> bool \<Rightarrow> peer list
    \<Rightarrow> index_table \<times> index_owner \<times> disco_routes
    \<Rightarrow> peer list \<times> (index_table \<times> index_owner \<times> disco_routes) \<times> node_output list" where
  "tick_peers C E now own_pub force_relay [] sh = ([], sh, [])"
| "tick_peers C E now own_pub force_relay (p # ps) (t, owner, routes) =
     (let k = tick_peer C E now own_pub force_relay
            \<lparr>k_peer = p, k_index = t, k_owner = owner, k_routes = routes, k_out = []\<rparr>;
          (ps, sh, out) = tick_peers C (\<lambda>i. E (i + 16)) now own_pub force_relay ps (k_index k, k_owner k, k_routes k)
      in (k_peer k # ps, sh, k_out k @ out))"

definition on_tick :: "crypto \<Rightarrow> (nat \<Rightarrow> env) \<Rightarrow> worker \<Rightarrow> worker \<times> node_output list" where
  "on_tick C E w =
     (let now = e_now (E 0);
          (ps, (t, owner, routes), out) = tick_peers C (\<lambda>i. E (i + 1)) now (w_own_pub w) (w_force_relay w)
            (w_peers w) (w_index w, w_owner w, w_routes w)
      in (w\<lparr>w_peers := ps, w_index := t, w_owner := owner, w_routes := routes\<rparr>, out))"

section \<open>Packets from the network\<close>

definition worker_accept ::
    "crypto \<Rightarrow> (nat \<Rightarrow> env) \<Rightarrow> worker \<Rightarrow> bytes \<Rightarrow> socket_addr option \<Rightarrow> via \<Rightarrow> (worker \<times> node_output list) option" where
  "worker_accept C E w bytes from via =
     Option.bind (accept_init C E (w_force_relay w) (w_peers w) (w_peer_index w) (w_own_priv w) (w_own_pub w)
         (w_index w) (w_owner w) bytes from via)
       (\<lambda>(peers, peer_index, t, owner, out).
          Some (w\<lparr>w_peers := peers, w_peer_index := peer_index, w_index := t, w_owner := owner\<rparr>, out))"

definition deliver_wg ::
    "crypto \<Rightarrow> (nat \<Rightarrow> env) \<Rightarrow> worker \<Rightarrow> peer_key \<Rightarrow> bytes \<Rightarrow> socket_addr option \<Rightarrow> via
       \<Rightarrow> (worker \<times> node_output list) option" where
  "deliver_wg C E w pk bytes from via =
     (case List.find (\<lambda>p. p_pubkey p = pk) (w_peers w) of
        None \<Rightarrow> Some (w, [])
      | Some p \<Rightarrow>
          Option.bind (handle_wg C E (w_force_relay w) p (w_index w) (w_owner w) bytes from via)
            (\<lambda>(p, t, owner, out, packet).
               let (p, delivered) = (case packet of
                     None \<Rightarrow> (p, [])
                   | Some pkt \<Rightarrow>
                       if \<not> accepts_source (w_allowed w) (p_pubkey p) pkt
                       then (p\<lparr>p_stat := (p_stat p)\<lparr>rx_source_drops := rx_source_drops (p_stat p) + 1\<rparr>\<rparr>, [])
                       else (p, [TunTo pkt]))
               in Some (w\<lparr>w_peers := upd_first (\<lambda>p. p_pubkey p = pk) p (w_peers w), w_index := t, w_owner := owner\<rparr>,
                        out @ delivered)))"

definition on_disco_ping ::
    "crypto \<Rightarrow> (nat \<Rightarrow> env) \<Rightarrow> worker \<Rightarrow> socket_addr \<Rightarrow> bytes \<Rightarrow> bytes \<Rightarrow> nat \<Rightarrow> tx_id \<Rightarrow> peer_key
       \<Rightarrow> worker \<times> node_output list" where
  "on_disco_ping C E w from dgram body used tx_id sender_key =
     (case List.find (\<lambda>p. p_pubkey p = sender_key) (w_peers w) of
        None \<Rightarrow> (w, [])
      | Some p \<Rightarrow>
          if \<not> disco_authed C (p_disco_key p) dgram body used then (w, [])
          else
            let (pr, accepted) = accept_ping (p_probes p) tx_id (e_unix (E 0));
                p = p\<lparr>p_probes := pr\<rparr>
            in if \<not> accepted then (w\<lparr>w_peers := upd_first (\<lambda>p. p_pubkey p = sender_key) p (w_peers w)\<rparr>, [])
               else
                 let pong = auth_disco_dgram C (p_disco_key p) (DiscoPong tx_id from);
                     (p, routes, ping) =
                       (if \<not> p_disco_validated p \<or> p_direct_addr p \<noteq> Some from
                        then disco_ping_to C (E 1) (w_routes w) p (w_own_pub w) [from]
                        else (p, w_routes w, None))
                 in (w\<lparr>w_peers := upd_first (\<lambda>p. p_pubkey p = sender_key) p (w_peers w), w_routes := routes\<rparr>,
                     UdpTo from pong # (case ping of Some ping \<Rightarrow> [UdpTo from ping] | None \<Rightarrow> [])))"

definition on_disco_pong ::
    "crypto \<Rightarrow> (nat \<Rightarrow> env) \<Rightarrow> worker \<Rightarrow> socket_addr \<Rightarrow> bytes \<Rightarrow> bytes \<Rightarrow> nat \<Rightarrow> tx_id \<Rightarrow> worker" where
  "on_disco_pong C E w from dgram body used tx_id =
     (let now = e_unix (E 0)
      in case List.find (\<lambda>p. probe_pending (p_probes p) tx_id from now) (w_peers w) of
           None \<Rightarrow> w
         | Some p \<Rightarrow>
             if \<not> disco_authed C (p_disco_key p) dgram body used \<or> \<not> disco_replay_ok (e_unix (E 1)) tx_id then w
             else
               let (pr, routes, finished) = probe_finish (p_probes p) tx_id from (w_routes w) now
               in if \<not> finished then w
                  else
                    let p' = p\<lparr>p_probes := pr, p_direct_addr := Some from,
                          p_prefer_relay := (if \<not> p_relay_pinned p then False else p_prefer_relay p),
                          p_disco_validated := True\<rparr>
                    in w\<lparr>w_peers := upd_first (\<lambda>p. probe_pending (p_probes p) tx_id from now) p' (w_peers w),
                         w_routes := routes\<rparr>)"

definition on_disco :: "crypto \<Rightarrow> (nat \<Rightarrow> env) \<Rightarrow> worker \<Rightarrow> socket_addr \<Rightarrow> bytes \<Rightarrow> worker \<times> node_output list" where
  "on_disco C E w from dgram =
     (case strip_magic dgram of
        None \<Rightarrow> (w, [])
      | Some body \<Rightarrow>
          (case disco_decode body of
             Inl _ \<Rightarrow> (w, [])
           | Inr (msg, used) \<Rightarrow>
               (case msg of
                  DiscoPing tx_id sender_key \<Rightarrow> on_disco_ping C E w from dgram body used tx_id sender_key
                | DiscoPong tx_id _ \<Rightarrow> (on_disco_pong C E w from dgram body used tx_id, [])
                | _ \<Rightarrow> (w, []))))"

definition receiver_index :: "bytes \<Rightarrow> u32 option" where
  "receiver_index bytes = (if get_at 0 bytes = Some T_HANDSHAKE_RESP then le_u32 bytes 8 else le_u32 bytes 4)"

definition on_udp_in ::
    "crypto \<Rightarrow> (nat \<Rightarrow> env) \<Rightarrow> worker \<Rightarrow> socket_addr \<Rightarrow> bytes \<Rightarrow> (worker \<times> node_output list) option" where
  "on_udp_in C E w from bytes =
     (if strip_magic bytes \<noteq> None then Some (on_disco C E w from bytes)
      else if first_byte bytes = T_HANDSHAKE_INIT then worker_accept C E w bytes (Some from) ViaUdp
      else case Option.bind (receiver_index bytes) (index_get (w_index w)) of
             Some pk \<Rightarrow> deliver_wg C E w pk bytes (Some from) ViaUdp
           | None \<Rightarrow> Some (w, []))"

text \<open>A frame from the relay or from a direct TCP connection.\<close>

definition on_framed_in ::
    "crypto \<Rightarrow> (nat \<Rightarrow> env) \<Rightarrow> worker \<Rightarrow> peer_key \<Rightarrow> bytes \<Rightarrow> via \<Rightarrow> (worker \<times> node_output list) option" where
  "on_framed_in C E w src bytes via =
     (if first_byte bytes = T_HANDSHAKE_INIT then worker_accept C E w bytes None via
      else deliver_wg C E w src bytes None via)"

section \<open>Control messages and egress\<close>

definition on_tcp_conn :: "worker \<Rightarrow> peer_key \<Rightarrow> u64 \<Rightarrow> nat option \<Rightarrow> worker" where
  "on_tcp_conn w pk conn_gen out =
     (case List.find (\<lambda>p. p_pubkey p = pk) (w_peers w) of
        None \<Rightarrow> w
      | Some p \<Rightarrow>
          let p = (case out of
                Some tx \<Rightarrow> p\<lparr>p_tcp_out := Some tx, p_tcp_gen := conn_gen\<rparr>
              | None \<Rightarrow> if p_tcp_gen p = conn_gen then p\<lparr>p_tcp_out := None\<rparr> else p)
          in w\<lparr>w_peers := upd_first (\<lambda>p. p_pubkey p = pk) p (w_peers w)\<rparr>)"

text \<open>Probing the candidates of a peer, unless everything goes over the relay.\<close>

definition probe_peer :: "crypto \<Rightarrow> env \<Rightarrow> worker \<Rightarrow> peer \<Rightarrow> worker \<times> peer \<times> node_output list" where
  "probe_peer C e w p =
     (if \<not> w_force_relay w
      then let (p, routes, ping) = disco_ping C e (w_routes w) p (w_own_pub w)
           in (w\<lparr>w_routes := routes\<rparr>, p, case ping of Some ping \<Rightarrow> map (\<lambda>c. UdpTo c ping) (p_candidates p) | None \<Rightarrow> [])
      else (w, p, []))"

definition start_handshake :: "crypto \<Rightarrow> (nat \<Rightarrow> env) \<Rightarrow> worker \<Rightarrow> peer \<Rightarrow> worker \<times> peer \<times> node_output list" where
  "start_handshake C E w p =
     (let (peer_index, raw, res) = raw_init_handshake C (e_rng (E 0)) (e_boot (E 0)) (e_stamper (E 0))
            (w_peer_index w) (p_raw p) (w_own_priv w) (p_pubkey p);
          w = w\<lparr>w_peer_index := peer_index\<rparr>;
          p = p\<lparr>p_raw := raw\<rparr>
      in case res of
           Inl _ \<Rightarrow> (w, p, [])
         | Inr init \<Rightarrow>
             let (t, owner) = insert_index (w_index w) (w_owner w) init (p_pubkey p)
             in (w\<lparr>w_index := t, w_owner := owner\<rparr>,
                 p\<lparr>p_init_sent_at := Some (e_now (E 2)), p_init_packet := Some init\<rparr>,
                 send_to_peer (e_relay (E 1)) p (w_force_relay w) init))"

definition on_add_peer ::
    "crypto \<Rightarrow> (nat \<Rightarrow> env) \<Rightarrow> worker \<Rightarrow> peer_key \<Rightarrow> socket_addr list \<Rightarrow> string list \<Rightarrow> bool
       \<Rightarrow> worker \<times> node_output list" where
  "on_add_peer C E w pubkey candidates allowed_ips initiator =
     (if list_ex (\<lambda>p. p_pubkey p = pubkey) (w_peers w) then (w, [])
      else
        let w = w\<lparr>w_status := finsert pubkey (w_status w)\<rparr>;
            p = peer_fresh C pubkey candidates (w_force_relay w) (peer_stat_new allowed_ips) (w_own_priv w);
            (w, p, pings) = probe_peer C (E 0) w p;
            (w, p, inits) = (if initiator then start_handshake C (\<lambda>i. E (i + 1)) w p else (w, p, []))
        in (w\<lparr>w_peers := w_peers w @ [p]\<rparr>, pings @ inits))"

text \<open>A dropped peer takes its outstanding probes out of the shared map.\<close>

definition on_remove_peer :: "worker \<Rightarrow> peer_key \<Rightarrow> worker" where
  "on_remove_peer w pk =
     (let peers = filter (\<lambda>p. p_pubkey p \<noteq> pk) (w_peers w)
      in if length peers \<noteq> length (w_peers w)
         then let (t, owner) = index_remove_peer (w_index w) (w_owner w) pk
              in w\<lparr>w_peers := peers, w_routes := hm_retain (\<lambda>_ (peer, _). peer \<noteq> pk) (w_routes w),
                   w_index := t, w_owner := owner, w_status := w_status w |-| {|pk|}\<rparr>
         else w)"

definition on_update_candidates ::
    "crypto \<Rightarrow> env \<Rightarrow> worker \<Rightarrow> peer_key \<Rightarrow> socket_addr list \<Rightarrow> worker \<times> node_output list" where
  "on_update_candidates C e w pubkey candidates =
     (case List.find (\<lambda>p. p_pubkey p = pubkey) (w_peers w) of
        None \<Rightarrow> (w, [])
      | Some p \<Rightarrow>
          let (w, p, pings) = probe_peer C e w (p\<lparr>p_candidates := candidates, p_disco_validated := False\<rparr>)
          in (w\<lparr>w_peers := upd_first (\<lambda>p. p_pubkey p = pubkey) p (w_peers w)\<rparr>, pings))"

definition udp_outputs :: "(socket_addr \<times> bytes) list \<Rightarrow> node_output list" where
  "udp_outputs ds = map (\<lambda>(dst, bytes). UdpTo dst bytes) ds"

definition flush_gso :: "env \<Rightarrow> worker \<Rightarrow> worker \<times> node_output list" where
  "flush_gso e w = (let (b, ds) = gso_flush (e_seg e) (w_gso w) in (w\<lparr>w_gso := b\<rparr>, udp_outputs ds))"

definition on_tun_egress ::
    "crypto \<Rightarrow> (nat \<Rightarrow> env) \<Rightarrow> worker \<Rightarrow> peer_key \<Rightarrow> bytes \<Rightarrow> worker \<times> node_output list" where
  "on_tun_egress C E w pk pkt =
     (case List.find (\<lambda>p. p_pubkey p = pk \<and> p_handshaked p) (w_peers w) of
        None \<Rightarrow> (w, [])
      | Some p \<Rightarrow>
          let (raw, res) = raw_on_send C (e_rng (E 0)) (e_boot (E 0)) (p_raw p) pkt (replicate 2048 0);
              p = p\<lparr>p_raw := raw\<rparr>;
              put = (\<lambda>p w. w\<lparr>w_peers := upd_first (\<lambda>p. p_pubkey p = pk \<and> p_handshaked p) p (w_peers w)\<rparr>);
              w = put p w
          in case res of
               Inl _ \<Rightarrow> (w, [])
             | Inr enc \<Rightarrow>
                 if get_at 0 enc = Some T_HANDSHAKE_INIT
                 then (if w_own_pub w < p_pubkey p
                       then let (t, owner) = insert_index (w_index w) (w_owner w) enc pk;
                                (w, out) = flush_gso (E 1) (w\<lparr>w_index := t, w_owner := owner\<rparr>)
                            in (w, out @ send_to_peer (e_relay (E 2)) p (w_force_relay w) enc)
                       else (w, []))
                 else
                   let p = p\<lparr>p_stat := add_tx (p_stat p) (length enc)\<rparr>;
                       w = put p w
                   in (case p_direct_addr p of
                         Some addr \<Rightarrow>
                           if \<not> w_force_relay w \<and> \<not> p_prefer_relay p
                           then let (b, ds) = gso_push (e_seg (E 1)) (e_seg (E 2)) (w_gso w) addr enc
                                in (w\<lparr>w_gso := b\<rparr>, udp_outputs ds)
                           else let (w, out) = flush_gso (E 1) w
                                in (w, out @ send_to_peer (e_relay (E 2)) p (w_force_relay w) enc)
                       | None \<Rightarrow>
                           let (w, out) = flush_gso (E 1) w
                           in (w, out @ send_to_peer (e_relay (E 2)) p (w_force_relay w) enc)))"

section \<open>The message loop\<close>

text \<open>Handling that may itself send flushes the batch first.\<close>

definition flush_then ::
    "env \<Rightarrow> worker \<Rightarrow> (worker \<Rightarrow> (worker \<times> node_output list) option) \<Rightarrow> (worker \<times> node_output list) option" where
  "flush_then e w f =
     (let (w, out) = flush_gso e w in Option.bind (f w) (\<lambda>(w, out'). Some (w, out @ out')))"

definition worker_handle :: "crypto \<Rightarrow> (nat \<Rightarrow> env) \<Rightarrow> worker \<Rightarrow> worker_msg \<Rightarrow> (worker \<times> node_output list) option" where
  "worker_handle C E w msg =
     (let F = (\<lambda>i. E (i + 1))
      in case msg of
           MTunEgress pk pkt \<Rightarrow> Some (on_tun_egress C F w pk pkt)
         | MTcpConn pk conn_gen out \<Rightarrow> Some (on_tcp_conn w pk conn_gen out, [])
         | MAddPeer pubkey candidates allowed_ips initiator \<Rightarrow>
             flush_then (E 0) w (\<lambda>w. Some (on_add_peer C F w pubkey candidates allowed_ips initiator))
         | MRemovePeer pk \<Rightarrow> Some (on_remove_peer w pk, [])
         | MUpdateCandidates pubkey candidates \<Rightarrow>
             flush_then (E 0) w (\<lambda>w. Some (on_update_candidates C (F 0) w pubkey candidates))
         | MTick \<Rightarrow> flush_then (E 0) w (\<lambda>w. Some (on_tick C F w))
         | MUdpIn from bytes \<Rightarrow> flush_then (E 0) w (\<lambda>w. on_udp_in C F w from bytes)
         | MRelayIn src bytes \<Rightarrow> flush_then (E 0) w (\<lambda>w. on_framed_in C F w src bytes ViaRelay)
         | MTcpIn src bytes \<Rightarrow> flush_then (E 0) w (\<lambda>w. on_framed_in C F w src bytes ViaTcp))"

text \<open>One round of the loop: the messages of a burst, then a flush.\<close>

fun worker_burst :: "crypto \<Rightarrow> worker \<Rightarrow> ((nat \<Rightarrow> env) \<times> worker_msg) list \<Rightarrow> env \<Rightarrow> (worker \<times> node_output list) option" where
  "worker_burst C w [] e = Some (flush_gso e w)"
| "worker_burst C w ((E, msg) # msgs) e =
     Option.bind (worker_handle C E w msg) (\<lambda>(w, out).
       Option.bind (worker_burst C w msgs e) (\<lambda>(w, out'). Some (w, out @ out')))"

end
