(* ===== verification/Peer_Invariants.thy ===== *)
theory Peer_Invariants
  imports Node_Peer
begin

text \<open>
  What the data plane keeps of a peer: its tunnel is well formed and belongs to the peer's key, a
  peer that has shaken hands has a tunnel, its probes are bounded, its probe key is the one derived
  from both static keys, and the counters that pace rekeying and path changes stay in their range.
\<close>

section \<open>Tunnels\<close>

text \<open>No operation changes whose tunnel it is.\<close>

lemma inc_index_keeps_params: "inc_index hs = (hs', i) \<Longrightarrow> params hs' = params hs"
  by (auto simp: inc_index_def Let_def)

lemma initiation_params:
  "params (fst (format_handshake_initiation C r now hs dst)) = params hs"
  by (auto simp: format_handshake_initiation_def Let_def inc_index_keeps_params
      split: prod.splits option.splits sum.splits if_splits)

lemma received_init_params:
  "params (fst (receive_handshake_initialization C r hs p dst)) = params hs"
  by (auto simp: receive_handshake_initialization_def format_handshake_response_def Let_def
      split: prod.splits sum.splits if_splits option.splits handshake_state.splits dest!: inc_index_keeps_params)

lemma received_response_params:
  "params (fst (receive_handshake_response C now hs p)) = params hs"
  by (auto simp: receive_handshake_response_def Let_def split: prod.splits sum.splits option.splits)

definition tunnel_ok :: "peer_key \<Rightarrow> noise \<Rightarrow> bool" where
  "tunnel_ok pk n \<longleftrightarrow> noise_ok n \<and> peer_static_public (params (handshake n)) = pk"

definition raw_ok :: "peer_key \<Rightarrow> noise option \<Rightarrow> bool" where
  "raw_ok pk raw \<longleftrightarrow> (case raw of None \<Rightarrow> True | Some n \<Rightarrow> tunnel_ok pk n)"

lemma raw_ok_simps [simp]: "raw_ok pk None" "raw_ok pk (Some n) = tunnel_ok pk n"
  by (simp_all add: raw_ok_def)

lemma tunnel_new_ok: "tunnel_ok pk (noise_new C priv pk psk i vf st)"
  by (simp add: tunnel_ok_def noise_ok_def sessions_ok_def noise_new_def handshake_new_def noise_params_new_def Let_def)

lemma format_packet_data_session_ok:
  "session_ok s \<Longrightarrow> session_ok (fst (format_packet_data C r s src n))"
  by (auto simp: format_packet_data_def session_ok_def Let_def split: prod.splits sum.splits option.splits if_splits)

lemma queue_packet_keeps [simp]:
  "handshake (queue_packet n src) = handshake n" "sessions (queue_packet n src) = sessions n"
  by (simp_all add: queue_packet_def)

lemma encapsulate_ok:
  assumes "tunnel_ok pk n"
  shows "tunnel_ok pk (fst (encapsulate C r now n src dst))"
proof (cases "sessions n ! (current n mod N_SESSIONS)")
  case None
  then show ?thesis
    using assms initiation_params [of C r now "handshake n" dst]
    by (auto simp: encapsulate_def noise_format_handshake_initiation_def tunnel_ok_def noise_ok_def
        Let_def split: prod.splits)
next
  case (Some s)
  then have "Some s \<in> set (sessions n)"
    using assms by (metis mod_N_SESSIONS noise_ok_def nth_mem sessions_ok_def tunnel_ok_def)
  then have "session_ok (fst (format_packet_data C r s src (length dst)))"
    using assms by (intro format_packet_data_session_ok) (simp add: tunnel_ok_def noise_ok_def sessions_ok_def)
  then show ?thesis using assms Some
    by (auto simp: encapsulate_def tunnel_ok_def noise_ok_def sessions_ok_update split: prod.splits)
qed

lemma handshake_response_ok:
  assumes "tunnel_ok pk n"
  shows "tunnel_ok pk (fst (noise_handle_handshake_response C now n p))"
proof -
  have "params (handshake (fst (noise_handle_handshake_response C now n p))) = params (handshake n)"
    using received_response_params [of C now "handshake n" p]
    by (auto simp: noise_handle_handshake_response_def Let_def split: prod.splits sum.splits)
  then show ?thesis using assms noise_handle_handshake_response_ok [of n C now p] by (simp add: tunnel_ok_def)
qed

lemma verified_packet_params:
  assumes "handle_verified_packet C r now n p dst = Some (n', res)"
  shows "params (handshake n') = params (handshake n)"
proof (cases p)
  case (PkHandshakeInit q)
  then show ?thesis using assms received_init_params [of C r "handshake n" q dst]
    by (auto simp: handle_verified_packet_def handle_handshake_init_def Let_def split: prod.splits sum.splits)
next
  case (PkHandshakeResponse q)
  then show ?thesis using assms received_response_params [of C now "handshake n" q]
    by (auto simp: handle_verified_packet_def noise_handle_handshake_response_def Let_def
        split: prod.splits sum.splits if_splits)
next
  case (PkPacketData q)
  then show ?thesis using assms
    by (auto simp: handle_verified_packet_def handle_data_def Let_def
        split: option.splits sum.splits Option.bind_splits if_splits)
qed

lemma verified_packet_tunnel_ok:
  assumes "tunnel_ok pk n"
  obtains n' res where "handle_verified_packet C r now n p dst = Some (n', res)" "tunnel_ok pk n'"
proof -
  from assms obtain n' res where h: "handle_verified_packet C r now n p dst = Some (n', res)" "noise_ok n'"
    using handle_verified_packet_ok [of n C r now p dst] by (auto simp: tunnel_ok_def)
  with verified_packet_params [OF h(1)] assms show thesis by (intro that [of n' res]) (simp_all add: tunnel_ok_def)
qed

section \<open>The operations of the interface\<close>

lemma raw_on_send_ok:
  assumes "raw_ok pk raw" "raw_on_send C r now raw src dst = (raw', res)"
  shows "raw_ok pk raw' \<and> (raw' = None \<longleftrightarrow> raw = None)"
  using assms encapsulate_ok [of pk "the raw" C r now src dst]
  by (cases raw) (auto simp: raw_on_send_def cr_on_send_def Let_def split: prod.splits)

lemma raw_rekey_init_ok:
  assumes "raw_ok pk raw" "raw_rekey_init C r now raw dst = (raw', res)"
  shows "raw_ok pk raw' \<and> (raw' = None \<longleftrightarrow> raw = None)"
  using assms initiation_params [of C r now "handshake (the raw)" dst]
  by (cases raw) (auto simp: raw_rekey_init_def cr_rekey_init_def tunnel_ok_def noise_ok_def Let_def split: prod.splits)

lemma raw_handle_handshake_response_ok:
  assumes "raw_ok pk raw" "raw_handle_handshake_response C now raw m = (raw', res)"
  shows "raw_ok pk raw' \<and> (raw' = None \<longleftrightarrow> raw = None) \<and> (is_ok res \<longrightarrow> raw' \<noteq> None)"
proof (cases raw)
  case (Some n)
  show ?thesis
    using assms Some handshake_response_ok [of pk n C now]
    by (auto simp: raw_handle_handshake_response_def cr_handle_handshake_response_def Let_def
        split: prod.splits sum.splits packet.splits) (metis fst_conv)
qed (use assms in \<open>auto simp: raw_handle_handshake_response_def\<close>)

lemma raw_on_recv_ok:
  assumes "raw_ok pk raw"
  obtains raw' res where "raw_on_recv C r now raw m dst = Some (raw', res)" "raw_ok pk raw'" "raw' = None \<longleftrightarrow> raw = None"
proof (cases raw)
  case (Some n)
  show thesis
  proof (cases "verify_packet C (noise_verifier n) m")
    case (Inr p)
    obtain n' res where "handle_verified_packet C r now n p dst = Some (n', res)" "tunnel_ok pk n'"
      using verified_packet_tunnel_ok [of pk n C r now p dst] assms Some by auto
    with Some Inr show thesis by (intro that) (auto simp: raw_on_recv_def cr_on_recv_def)
  qed (use that assms Some in \<open>auto simp: raw_on_recv_def cr_on_recv_def\<close>)
qed (use that in \<open>auto simp: raw_on_recv_def\<close>)

lemma raw_rekey_respond_ok:
  assumes "raw_ok pk raw"
  obtains raw' res where "raw_rekey_respond C r now raw m dst = Some (raw', res)" "raw_ok pk raw'" "raw' = None \<longleftrightarrow> raw = None"
proof (cases raw)
  case (Some n)
  show thesis
  proof (cases "verify_packet C (noise_verifier n) m")
    case (Inr p)
    obtain n' res where "handle_verified_packet C r now n p dst = Some (n', res)" "tunnel_ok pk n'"
      using verified_packet_tunnel_ok [of pk n C r now p dst] assms Some by auto
    with Some Inr show thesis by (intro that) (auto simp: raw_rekey_respond_def cr_rekey_respond_def)
  qed (use that assms Some in \<open>auto simp: raw_rekey_respond_def cr_rekey_respond_def\<close>)
qed (use that in \<open>auto simp: raw_rekey_respond_def\<close>)

lemma raw_init_handshake_ok:
  assumes "raw_init_handshake C r now st i None priv pk = (i', raw', res)"
  shows "raw_ok pk raw'"
  using assms initiation_params [of C r now "handshake (noise_new C priv pk None (snd (next_session_base i))
      (Some (verifier_new C (x25519_public C priv))) st)" "replicate 148 0"]
    tunnel_new_ok [of pk C priv None "snd (next_session_base i)" "Some (verifier_new C (x25519_public C priv))" st]
  by (auto simp: raw_init_handshake_def cr_init_handshake_def rbind_Inr_conv tunnel_ok_def noise_ok_def Let_def
      split: prod.splits sum.splits)

lemma raw_handle_handshake_ok:
  obtains i' raw' res where "raw_handle_handshake C r now st i None priv pub m = Some (i', raw', res)"
    "raw_get_peer_public raw' = Inr pk \<Longrightarrow> raw_ok pk raw' \<and> raw' \<noteq> None"
proof -
  have "\<exists>i' raw' res. raw_handle_handshake C r now st i None priv pub m = Some (i', raw', res) \<and>
      (raw_get_peer_public raw' = Inr pk \<longrightarrow> raw_ok pk raw' \<and> raw' \<noteq> None)"
  proof (cases "\<exists>p key. verify_packet C (verifier_new C pub) m = Inr (PkHandshakeInit p) \<and>
      parse_handshake_anon C priv pub p = Inr key")
    case True
    then obtain p key where p: "verify_packet C (verifier_new C pub) m = Inr (PkHandshakeInit p)"
      "parse_handshake_anon C priv pub p = Inr key" by blast
    obtain i' base where i: "next_session_base i = (i', base)" by (cases "next_session_base i")
    let ?n = "noise_new C priv key None base (Some (verifier_new C pub)) st"
    obtain n' res where "handle_verified_packet C r now ?n (PkHandshakeInit p) (replicate 148 0) = Some (n', res)"
        "tunnel_ok key n'"
      using verified_packet_tunnel_ok [OF tunnel_new_ok] by blast
    with p i show ?thesis
      by (auto simp: raw_handle_handshake_def cr_handle_handshake_def raw_get_peer_public_def ok_or_def
          cr_get_peer_public_def tunnel_ok_def rbind_Inr_conv split: sum.splits)
  next
    case False
    then have "\<exists>e. raw_handle_handshake C r now st i None priv pub m = Some (i, None, Inl e)"
      by (auto simp: raw_handle_handshake_def cr_handle_handshake_def Let_def split: sum.splits packet.splits)
    then show ?thesis by (auto simp: raw_get_peer_public_def ok_or_def)
  qed
  with that show thesis by blast
qed

section \<open>Probes\<close>

definition probes_ok :: "probes \<Rightarrow> bool" where
  "probes_ok p \<longleftrightarrow> cache_ok p \<and> hm_len (pending_probes p) \<le> CAPACITY"

lemma cache_ok_pending [simp]: "cache_ok (p\<lparr>pending_probes := m\<rparr>) = cache_ok p"
  by (simp add: cache_ok_def)

lemma hm_len_upd_less: "\<not> n \<le> hm_len m \<Longrightarrow> hm_len (fmupd k v m) \<le> n"
  using hm_len_upd [of k v m] by simp

lemma accept_ping_pending: "pending_probes (fst (accept_ping p i now)) = pending_probes p"
  by (auto simp: accept_ping_def Let_def split: option.splits)

lemma accept_ping_ok: "probes_ok p \<Longrightarrow> accept_ping p i now = (p', ok) \<Longrightarrow> probes_ok p'"
  using cache_ok_step [of p i now p' ok] accept_ping_pending [of p i now] by (simp add: probes_ok_def)

lemma probe_start_ok: "probes_ok p \<Longrightarrow> probe_start p peer targets routes now random = (p', routes', i) \<Longrightarrow> probes_ok p'"
  using hm_len_retain [of "\<lambda>_ (_, expires). now \<le> expires" "pending_probes p"]
  by (auto simp: probe_start_def probes_ok_def Let_def split: if_splits option.splits
      intro: hm_len_upd_less)

lemma probe_finish_ok: "probes_ok p \<Longrightarrow> probe_finish p i from routes now = (p', routes', ok) \<Longrightarrow> probes_ok p'"
  by (auto simp: probe_finish_def probes_ok_def split: if_splits intro: order_trans [OF hm_len_drop])

section \<open>The invariant\<close>

definition peer_ok :: "crypto \<Rightarrow> bytes \<Rightarrow> peer \<Rightarrow> bool" where
  "peer_ok C own_priv p \<longleftrightarrow>
     raw_ok (p_pubkey p) (p_raw p) \<and> (p_handshaked p \<longrightarrow> p_raw p \<noteq> None) \<and> probes_ok (p_probes p) \<and>
     p_disco_key p = disco_shared C own_priv (p_pubkey p) \<and>
     (p_relay_pinned p \<longrightarrow> p_prefer_relay p) \<and> p_flaps p \<le> 5 \<and> 5 \<le> p_rekey_delay p \<and> p_rekey_delay p \<le> 120"

text \<open>What an operation on a peer does to it: the key stays, and so does the invariant.\<close>

definition evolves :: "crypto \<Rightarrow> bytes \<Rightarrow> peer \<Rightarrow> peer \<Rightarrow> bool" where
  "evolves C own_priv p p' \<longleftrightarrow> p_pubkey p' = p_pubkey p \<and> (peer_ok C own_priv p \<longrightarrow> peer_ok C own_priv p')"

lemma evolves_refl [simp]: "evolves C own_priv p p"
  by (simp add: evolves_def)

lemma evolves_trans: "evolves C own_priv p q \<Longrightarrow> evolves C own_priv q r \<Longrightarrow> evolves C own_priv p r"
  by (simp add: evolves_def)

lemma evolves_raw:
  assumes "\<And>pk. raw_ok pk (p_raw p) \<Longrightarrow> raw_ok pk raw \<and> (raw = None \<longleftrightarrow> p_raw p = None)"
  shows "evolves C own_priv p (p\<lparr>p_raw := raw\<rparr>)"
  using assms by (auto simp: evolves_def peer_ok_def)

lemma peer_fresh_ok: "peer_ok C own_priv (peer_fresh C pk candidates force_relay st own_priv)"
  by (simp add: peer_ok_def peer_fresh_def probes_ok_def probes_default_def cache_ok_def)

lemma note_rekey_evolves: "evolves C own_priv p (note_rekey now p)"
proof -
  have "5 \<le> min (d * 2) 120" if "5 \<le> d" "d \<le> 120" for d :: u64
    using that by (auto simp: min_def word_le_nat_alt unat_word_ariths)
  then show ?thesis by (auto simp: evolves_def peer_ok_def note_rekey_def)
qed

lemma authenticated_data_evolves: "evolves C own_priv p (authenticated_data p)"
  by (auto simp: evolves_def peer_ok_def authenticated_data_def)

lemma note_rtt_evolves: "evolves C own_priv p (note_rtt now p)"
  by (auto simp: evolves_def peer_ok_def note_rtt_def Let_def split: option.splits)

lemma set_path_evolves: "evolves C own_priv p (set_path now p from via)"
  by (auto simp: evolves_def peer_ok_def set_path_def Let_def split: option.splits via.splits)

lemma disco_ping_to_evolves:
  "disco_ping_to C e routes p own_pub targets = (p', routes', ping) \<Longrightarrow> evolves C own_priv p p'"
  by (auto simp: disco_ping_to_def evolves_def peer_ok_def Let_def probe_start_ok split: prod.splits)

lemma disco_ping_evolves:
  "disco_ping C e routes p own_pub = (p', routes', ping) \<Longrightarrow> evolves C own_priv p p'"
  by (auto simp: disco_ping_def Let_def dest: disco_ping_to_evolves)

section \<open>Tables and outputs\<close>

text \<open>The indices of a worker name peers it knows.\<close>

definition table_ok :: "peer_key set \<Rightarrow> index_table \<times> index_owner \<Rightarrow> bool" where
  "table_ok K st \<longleftrightarrow> index_ok (fst st) (snd st) \<and> (\<forall>idx pk. index_get (fst st) idx = Some pk \<longrightarrow> pk \<in> K)"

definition table_step :: "peer_key set \<Rightarrow> index_table \<times> index_owner \<Rightarrow> index_table \<times> index_owner \<Rightarrow> bool" where
  "table_step K st st' \<longleftrightarrow> (table_ok K st \<longrightarrow> table_ok K st') \<and> it_wid (fst st') = it_wid (fst st)"

lemma table_step_refl [simp]: "table_step K st st"
  by (simp add: table_step_def)

lemma table_step_trans: "table_step K st st' \<Longrightarrow> table_step K st' st'' \<Longrightarrow> table_step K st st''"
  by (simp add: table_step_def)

lemma index_prune_get: "index_get (fst (index_prune t owner pk)) idx = Some pk' \<Longrightarrow> index_get t idx = Some pk'"
  by (auto simp: index_prune_def index_get_def hm_retain_Some split: option.splits simp del: hm_retain_lookup)

lemma index_prune_wid: "it_wid (fst (index_prune t owner pk)) = it_wid t"
  by (auto simp: index_prune_def split: option.splits)

lemma index_get_slots [simp]: "index_get (t\<lparr>it_slots := m\<rparr>) = index_get t"
  by (simp add: index_get_def fun_eq_iff)

lemma index_insert_wid: "index_insert t owner idx pk = (t', owner') \<Longrightarrow> it_wid t' = it_wid t"
  by (auto simp: index_insert_def index_prune_def Let_def split: prod.splits option.splits)

lemma index_insert_get:
  assumes "index_insert t owner idx pk = (t', owner')" "index_get t' i = Some pk'"
  shows "pk' = pk \<or> index_get t i = Some pk'"
proof -
  define u where "u = t\<lparr>it_slots := fmupd pk ((case fmlookup (it_slots t) pk of Some s \<Rightarrow> s
      | None \<Rightarrow> index_slots_default)\<lparr>pending_idx := Some idx\<rparr>) (it_slots t)\<rparr>"
  have "t' = (fst (index_prune u owner pk))\<lparr>it_local := fmupd idx pk (it_local (fst (index_prune u owner pk)))\<rparr>"
    using assms(1) by (auto simp: index_insert_def u_def Let_def split: prod.splits)
  moreover have "index_get u i = index_get t i" by (simp add: u_def index_get_def)
  ultimately show ?thesis
    using assms(2) index_prune_get [of u owner pk i pk'] by (auto simp: index_get_def split: if_splits)
qed

lemma insert_index_step:
  assumes "pk \<in> K" "insert_index t owner m pk = (t', owner')"
  shows "table_step K (t, owner) (t', owner')"
proof (cases "le_u32 m 4")
  case (Some idx)
  then have "index_insert t owner idx pk = (t', owner')" using assms(2) by (simp add: insert_index_def)
  then show ?thesis
    using index_insert_ok [of t owner idx pk t' owner'] index_insert_get [of t owner idx pk t' owner'] assms(1)
      index_insert_wid [of t owner idx pk]
    by (auto simp: table_step_def table_ok_def)
qed (use assms in \<open>simp add: insert_index_def\<close>)

lemma index_confirm_get:
  assumes "index_confirm t owner idx pk = (t', owner')"
  shows "it_wid t' = it_wid t" "index_get t' i = Some pk' \<Longrightarrow> index_get t i = Some pk'"
proof -
  have "t' = t \<or> (\<exists>m. t' = fst (index_prune (t\<lparr>it_slots := m\<rparr>) owner pk))"
    using assms by (auto simp: index_confirm_def Let_def split: option.splits if_splits) (metis fst_conv)
  then show "it_wid t' = it_wid t" "index_get t' i = Some pk' \<Longrightarrow> index_get t i = Some pk'"
    by (auto simp: index_prune_wid dest: index_prune_get)
qed

lemma confirm_index_step:
  assumes "confirm_index t owner m off pk = (t', owner')"
  shows "table_step K (t, owner) (t', owner')"
proof (cases "le_u32 m off")
  case (Some idx)
  then have c: "index_confirm t owner idx pk = (t', owner')" using assms by (simp add: confirm_index_def)
  then show ?thesis using index_confirm_ok [of t owner idx pk t' owner'] index_confirm_get [OF c]
    by (auto simp: table_step_def table_ok_def)
qed (use assms in \<open>simp add: confirm_index_def\<close>)

lemma index_remove_peer_get:
  assumes "index_remove_peer t owner pk = (t', owner')"
  shows "it_wid t' = it_wid t" "index_get t' i = Some pk' \<longleftrightarrow> index_get t i = Some pk' \<and> pk' \<noteq> pk"
  using assms by (auto simp: index_remove_peer_def index_get_def hm_retain_Some simp del: hm_retain_lookup)

lemma index_remove_peer_step:
  assumes "index_remove_peer t owner pk = (t', owner')"
  shows "table_step K (t, owner) (t', owner')" "table_ok K (t, owner) \<Longrightarrow> table_ok (K - {pk}) (t', owner')"
  using index_remove_peer_ok [of t owner pk t' owner'] index_remove_peer_get [OF assms] assms
  by (auto simp: table_step_def table_ok_def)

text \<open>Outputs to the network only, and over the relay only to known peers.\<close>

definition sends_for :: "peer_key set \<Rightarrow> node_output list \<Rightarrow> bool" where
  "sends_for K out \<longleftrightarrow> list_all (\<lambda>x. case x of TunTo _ \<Rightarrow> False | RelayTo pk _ \<Rightarrow> pk \<in> K | _ \<Rightarrow> True) out"

lemma sends_for_simps [simp]:
  "sends_for K []" "sends_for K (UdpTo a m # out) = sends_for K out"
  "sends_for K (out @ out') \<longleftrightarrow> sends_for K out \<and> sends_for K out'"
  "sends_for K (map (\<lambda>c. UdpTo c m) cs)"
  by (auto simp: sends_for_def list_all_iff)

lemma send_to_peer_sends: "p_pubkey p \<in> K \<Longrightarrow> sends_for K (send_to_peer relay_up p force_relay m)"
  by (auto simp: send_to_peer_def sends_for_def split: option.splits)

section \<open>Handshakes and data keep the invariant\<close>

lemma evolves_other:
  assumes "p_pubkey q = p_pubkey p" "p_raw q = p_raw p" "p_handshaked q = p_handshaked p" "p_probes q = p_probes p"
    "p_disco_key q = p_disco_key p" "p_relay_pinned q = p_relay_pinned p" "p_prefer_relay q = p_prefer_relay p"
    "p_flaps q = p_flaps p" "p_rekey_delay q = p_rekey_delay p"
  shows "evolves C own_priv p q"
  using assms by (simp add: evolves_def peer_ok_def)

lemma adopt_init_ok:
  assumes "p_pubkey p \<in> K" "adopt_init E force_relay p t owner m from via resp = (p', t', owner', out)"
  shows "evolves C own_priv p p' \<and> table_step K (t, owner) (t', owner') \<and> sends_for K out"
proof -
  define p1 where "p1 = p\<lparr>p_last_init := Some m\<rparr>"
  define p2 where "p2 = set_path (e_now (E 1)) p1 from via"
  define p3 where "p3 = p2\<lparr>p_last_recv := Some (e_now (E 2)), p_handshake_at := Some (e_now (E 3)),
                p_stat := mark_handshake (e_unix (E 4)) (p_stat p2)\<rparr>"
  have "evolves C own_priv p p1" unfolding p1_def by (rule evolves_other) simp_all
  moreover have "evolves C own_priv p1 p2" unfolding p2_def by (rule set_path_evolves)
  moreover have "evolves C own_priv p2 p3" unfolding p3_def by (rule evolves_other) simp_all
  ultimately have e: "evolves C own_priv p p3" by (blast intro: evolves_trans)
  then have k: "p_pubkey p3 \<in> K" using assms(1) by (simp add: evolves_def)
  show ?thesis
  proof (cases resp)
    case None
    then show ?thesis using e assms(2) by (simp add: adopt_init_def p3_def p2_def p1_def Let_def)
  next
    case (Some r)
    then have *: "insert_index t owner r (p_pubkey p3) = (t', owner')" "p' = p3\<lparr>p_last_resp := Some r\<rparr>"
        "out = send_to_peer (e_relay (E 5)) p' force_relay r"
      using assms(2) by (auto simp: adopt_init_def p3_def p2_def p1_def Let_def split: prod.splits)
    have "evolves C own_priv p3 p'" unfolding *(2) by (rule evolves_other) simp_all
    then show ?thesis
      using e insert_index_step [OF k *(1)] send_to_peer_sends [of p' K] k by (simp add: *(3) evolves_def)
  qed
qed

lemma accept_rekey_ok:
  assumes "peer_ok C own_priv p" "p_pubkey p \<in> K"
  obtains taken p' t' owner' out where "accept_rekey C E force_relay p t owner m from via = Some (taken, p', t', owner', out)"
    "evolves C own_priv p p'" "table_step K (t, owner) (t', owner')" "sends_for K out"
proof -
  have "raw_ok (p_pubkey p) (p_raw p)" using assms(1) by (simp add: peer_ok_def)
  from raw_rekey_respond_ok [OF this] obtain raw res where
    r: "raw_rekey_respond C (e_rng (E 0)) (e_boot (E 0) 0) (p_raw p) m (replicate 256 0) = Some (raw, res)"
      "raw_ok (p_pubkey p) raw" "raw = None \<longleftrightarrow> p_raw p = None" .
  have e: "evolves C own_priv p (p\<lparr>p_raw := raw\<rparr>)" using r assms(1) by (auto simp: evolves_def peer_ok_def)
  show thesis
  proof (cases res)
    case (Inl x)
    then show thesis using r(1) e by (intro that [of False "p\<lparr>p_raw := raw\<rparr>" t owner "[]"]) (simp_all add: accept_rekey_def)
  next
    case (Inr resp)
    obtain p' t' owner' out where a: "adopt_init E force_relay (p\<lparr>p_raw := raw\<rparr>) t owner m from via resp = (p', t', owner', out)"
      by (metis prod_cases4)
    have "p_pubkey (p\<lparr>p_raw := raw\<rparr>) \<in> K" using assms(2) by simp
    from adopt_init_ok [OF this a] have b: "evolves C own_priv (p\<lparr>p_raw := raw\<rparr>) p'"
        "table_step K (t, owner) (t', owner')" "sends_for K out" by blast+
    show thesis
      by (rule that [OF _ evolves_trans [OF e b(1)] b(2,3)]) (simp add: accept_rekey_def r(1) Inr a)
  qed
qed

text \<open>Lists of peers evolve pointwise.\<close>

abbreviation evolve_all :: "crypto \<Rightarrow> bytes \<Rightarrow> peer list \<Rightarrow> peer list \<Rightarrow> bool" where
  "evolve_all C own_priv \<equiv> list_all2 (evolves C own_priv)"

lemma evolve_all_refl [simp]: "evolve_all C own_priv ps ps"
  by (simp add: list.rel_refl)

lemma evolve_all_trans: "evolve_all C own_priv ps qs \<Longrightarrow> evolve_all C own_priv qs rs \<Longrightarrow> evolve_all C own_priv ps rs"
  by (rule list_all2_trans [of "evolves C own_priv" "evolves C own_priv"]) (auto intro: evolves_trans)

lemma evolve_all_keys: "evolve_all C own_priv ps qs \<Longrightarrow> map p_pubkey qs = map p_pubkey ps"
  by (induction rule: list_all2_induct) (simp_all add: evolves_def)

lemma evolve_all_ok: "evolve_all C own_priv ps qs \<Longrightarrow> list_all (peer_ok C own_priv) ps \<Longrightarrow> list_all (peer_ok C own_priv) qs"
  by (induction rule: list_all2_induct) (simp_all add: evolves_def)

lemma evolve_all_upd_first:
  "List.find P ps = Some p \<Longrightarrow> evolves C own_priv p p' \<Longrightarrow> evolve_all C own_priv ps (upd_first P p' ps)"
  by (induction ps) (auto split: if_splits)

lemma find_peer:
  assumes "List.find P ps = Some p" "list_all (peer_ok C own_priv) ps"
  shows "peer_ok C own_priv p \<and> p_pubkey p \<in> p_pubkey ` set ps \<and> p \<in> set ps \<and> P p"
  using assms by (induction ps) (auto split: if_splits)

lemma accept_fresh_ok:
  obtains peers' i' t' owner' out where
    "accept_fresh C E force_relay peers i own_priv own_pub t owner m from via = Some (peers', i', t', owner', out)"
    "evolve_all C own_priv peers peers'" "table_step (p_pubkey ` set peers) (t, owner) (t', owner')"
    "sends_for (p_pubkey ` set peers) out"
proof -
  let ?K = "p_pubkey ` set peers"
  obtain i' fresh res where
    r: "raw_handle_handshake C (e_rng (E 0)) (e_boot (E 0) 0) (e_stamper (E 0)) i None own_priv own_pub m = Some (i', fresh, res)"
      "\<And>pk. raw_get_peer_public fresh = Inr pk \<Longrightarrow> raw_ok pk fresh \<and> fresh \<noteq> None"
    by (metis raw_handle_handshake_ok option.inject prod.inject)
  show thesis
  proof (cases "\<exists>resp pk p. res = Inr resp \<and> raw_get_peer_public fresh = Inr pk \<and>
      List.find (\<lambda>p. p_pubkey p = pk) peers = Some p")
    case False
    then have "accept_fresh C E force_relay peers i own_priv own_pub t owner m from via = Some (peers, i', t, owner, [])"
      by (auto simp: accept_fresh_def r(1) split: sum.splits option.splits)
    then show thesis by (rule that) simp_all
  next
    case True
    then obtain resp pk p where c: "res = Inr resp" "raw_get_peer_public fresh = Inr pk"
      "List.find (\<lambda>p. p_pubkey p = pk) peers = Some p" by blast
    then have p: "p_pubkey p = pk" "p_pubkey p \<in> ?K" by (auto simp: find_Some_iff)
    let ?p = "p\<lparr>p_raw := fresh, p_handshaked := True\<rparr>"
    obtain t1 o1 where t1: "index_remove_peer t owner pk = (t1, o1)" by (cases "index_remove_peer t owner pk")
    obtain p' t' owner' out where a: "adopt_init E force_relay ?p t1 o1 m from via resp = (p', t', owner', out)"
      by (metis prod_cases4)
    have "p_pubkey ?p \<in> ?K" using p(2) by simp
    note b = adopt_init_ok [OF this a, of C own_priv]
    have "evolves C own_priv p ?p" using r(2) [OF c(2)] p(1) by (auto simp: evolves_def peer_ok_def)
    then have "evolves C own_priv p p'" using b evolves_trans by blast
    then have e: "evolve_all C own_priv peers (upd_first (\<lambda>p. p_pubkey p = pk) p' peers)"
      by (rule evolve_all_upd_first [OF c(3)])
    have "table_step ?K (t, owner) (t', owner')"
      using index_remove_peer_step(1) [OF t1] b by (blast intro: table_step_trans)
    from that [OF _ e this] b show thesis by (simp add: accept_fresh_def r(1) c t1 a)
  qed
qed

lemma accept_init_ok:
  assumes "list_all (peer_ok C own_priv) peers"
  obtains peers' i' t' owner' out where
    "accept_init C E force_relay peers i own_priv own_pub t owner m from via = Some (peers', i', t', owner', out)"
    "evolve_all C own_priv peers peers'" "table_step (p_pubkey ` set peers) (t, owner) (t', owner')"
    "sends_for (p_pubkey ` set peers) out"
proof (cases "List.find (\<lambda>p. p_last_init p = Some m) peers")
  case (Some p)
  then have "p_pubkey p \<in> p_pubkey ` set peers" by (auto simp: find_Some_iff)
  from send_to_peer_sends [OF this] show thesis
    using that [of peers i t owner] Some by (auto simp: accept_init_def split: option.splits)
next
  case new: None
  let ?K = "p_pubkey ` set peers"
  show thesis
  proof (cases "\<exists>pk p. peek_init_pubkey C own_priv own_pub m = Some pk \<and>
      list_ex (\<lambda>p. p_pubkey p = pk \<and> p_handshaked p) peers \<and> List.find (\<lambda>p. p_pubkey p = pk) peers = Some p")
    case False
    then have "accept_init C E force_relay peers i own_priv own_pub t owner m from via =
        accept_fresh C E force_relay peers i own_priv own_pub t owner m from via"
      using new by (auto simp: accept_init_def split: option.splits)
    with that show thesis using accept_fresh_ok [of C E force_relay peers i own_priv own_pub t owner m "from" via] by metis
  next
    case True
    then obtain pk p where k: "peek_init_pubkey C own_priv own_pub m = Some pk"
      "list_ex (\<lambda>p. p_pubkey p = pk \<and> p_handshaked p) peers" "List.find (\<lambda>p. p_pubkey p = pk) peers = Some p" by blast
    note p = find_peer [OF k(3) assms]
    obtain taken p' t1 o1 out where a: "accept_rekey C E force_relay p t owner m from via = Some (taken, p', t1, o1, out)"
        "evolves C own_priv p p'" "table_step ?K (t, owner) (t1, o1)" "sends_for ?K out"
      using accept_rekey_ok p by metis
    let ?ps = "upd_first (\<lambda>p. p_pubkey p = pk) p' peers"
    have e: "evolve_all C own_priv peers ?ps" by (rule evolve_all_upd_first [OF k(3) a(2)])
    have K: "p_pubkey ` set ?ps = ?K" using arg_cong [OF evolve_all_keys [OF e], of set] by simp
    obtain qs i' t' owner' out' where b:
      "accept_fresh C (\<lambda>i. E (i + 6)) force_relay ?ps i own_priv own_pub t1 o1 m from via = Some (qs, i', t', owner', out')"
      "evolve_all C own_priv ?ps qs" "table_step ?K (t1, o1) (t', owner')" "sends_for ?K out'"
      using accept_fresh_ok [of C "\<lambda>i. E (i + 6)" force_relay ?ps i own_priv own_pub t1 o1 m "from" via] K by metis
    show thesis
    proof (cases taken)
      case True
      then have "accept_init C E force_relay peers i own_priv own_pub t owner m from via = Some (?ps, i, t1, o1, out)"
        using new k a(1) by (simp add: accept_init_def)
      from that [OF this e a(3,4)] show thesis .
    next
      case False
      then have "accept_init C E force_relay peers i own_priv own_pub t owner m from via = Some (qs, i', t', owner', out')"
        using new k a(1) b(1) by (simp add: accept_init_def)
      from that [OF this evolve_all_trans [OF e b(2)] table_step_trans [OF a(3) b(3)] b(4)] show thesis .
    qed
  qed
qed

lemma wg_response_ok:
  assumes p: "peer_ok C own_priv p" "p_pubkey p \<in> K"
    and w: "wg_response C E force_relay p t owner m from via = (p', t', owner', out)"
  shows "evolves C own_priv p p' \<and> table_step K (t, owner) (t', owner') \<and> sends_for K out"
proof -
  obtain raw res where r: "raw_handle_handshake_response C (e_boot (E 0) 0) (p_raw p) m = (raw, res)" by (metis surj_pair)
  have rk: "raw_ok (p_pubkey p) (p_raw p)" using p(1) by (simp add: peer_ok_def)
  note ro = raw_handle_handshake_response_ok [OF rk r]
  have e0: "evolves C own_priv p (p\<lparr>p_raw := raw\<rparr>)" using ro p(1) by (auto simp: evolves_def peer_ok_def)
  show ?thesis
  proof (cases res)
    case (Inl x)
    then show ?thesis using w r e0 by (auto simp: wg_response_def)
  next
    case (Inr u)
    define p1 where "p1 = set_path (e_now (E 1)) (p\<lparr>p_raw := raw\<rparr>) from via"
    define p2 where "p2 = p1\<lparr>p_handshaked := True, p_last_recv := Some (e_now (E 2)), p_handshake_at := Some (e_now (E 3)),
                       p_stat := mark_handshake (e_unix (E 4)) (p_stat p1)\<rparr>"
    define p3 where "p3 = note_rtt (e_now (E 5)) p2"
    obtain raw' res' where s: "raw_on_send C (e_rng (E 6)) (e_boot (E 6)) (p_raw p3) [] (replicate 128 0) = (raw', res')"
      by (metis surj_pair)
    have w': "confirm_index t owner m 8 (p_pubkey p) = (t', owner')" "p' = p3\<lparr>p_raw := raw'\<rparr>"
        "out = (case res' of Inr ka \<Rightarrow> send_to_peer (e_relay (E 7)) p' force_relay ka | Inl _ \<Rightarrow> [])"
      using w r s Inr by (auto simp: wg_response_def p3_def p2_def p1_def Let_def split: prod.splits)
    have "p_raw p1 = raw" unfolding p1_def by (auto simp: set_path_def Let_def split: via.splits option.splits)
    then have "evolves C own_priv p1 p2" using ro Inr by (auto simp: evolves_def peer_ok_def p2_def)
    moreover have "evolves C own_priv (p\<lparr>p_raw := raw\<rparr>) p1" unfolding p1_def by (rule set_path_evolves)
    moreover have "evolves C own_priv p2 p3" unfolding p3_def by (rule note_rtt_evolves)
    moreover have "evolves C own_priv p3 p'" unfolding w'(2) by (rule evolves_raw) (rule raw_on_send_ok [OF _ s])
    ultimately have "evolves C own_priv p p'" using e0 by (meson evolves_trans)
    then show ?thesis
      using confirm_index_step [OF w'(1)] p(2) send_to_peer_sends [of p' K]
      by (auto simp: w'(3) evolves_def split: sum.split)
  qed
qed

lemma wg_data_ok:
  assumes p: "peer_ok C own_priv p"
  obtains p' t' owner' packet where "wg_data C E p t owner m from via = Some (p', t', owner', packet)"
    "evolves C own_priv p p'" "table_step K (t, owner) (t', owner')"
    "\<And>pkt. packet = Some pkt \<Longrightarrow> \<exists>raw'. raw_on_recv C (e_rng (E 0)) (e_boot (E 0) 0) (p_raw p) m (replicate 2048 0) = Some (raw', Inr pkt)"
proof -
  have "raw_ok (p_pubkey p) (p_raw p)" using p by (simp add: peer_ok_def)
  from raw_on_recv_ok [OF this] obtain raw res where
    r: "raw_on_recv C (e_rng (E 0)) (e_boot (E 0) 0) (p_raw p) m (replicate 2048 0) = Some (raw, res)"
      "raw_ok (p_pubkey p) raw" "raw = None \<longleftrightarrow> p_raw p = None" .
  define p1 where "p1 = p\<lparr>p_raw := raw\<rparr>"
  have e0: "evolves C own_priv p p1" using r p by (auto simp: p1_def evolves_def peer_ok_def)
  show thesis
  proof (cases res)
    case (Inl x)
    then show thesis using r(1) e0 by (intro that [of p1 t owner None]) (simp_all add: wg_data_def p1_def)
  next
    case (Inr pkt)
    define p2 where "p2 = set_path (e_now (E 1)) (authenticated_data p1) from via"
    define p3 where "p3 = p2\<lparr>p_last_recv := Some (e_now (E 2)), p_stat := add_rx (p_stat p2) (length m)\<rparr>"
    obtain t' owner' where c: "confirm_index t owner m 4 (p_pubkey (authenticated_data p1)) = (t', owner')"
      by (metis surj_pair)
    have "evolves C own_priv p1 p2" unfolding p2_def
      by (rule evolves_trans [OF authenticated_data_evolves set_path_evolves])
    moreover have "evolves C own_priv p2 p3" unfolding p3_def by (rule evolves_other) simp_all
    ultimately have e: "evolves C own_priv p p3" using e0 by (blast intro: evolves_trans)
    show thesis
      by (rule that [OF _ e confirm_index_step [OF c], of "if pkt = [] then None else Some pkt"])
        (use r(1) Inr c in \<open>auto simp: wg_data_def p1_def p2_def p3_def Let_def split: if_splits\<close>)
  qed
qed

lemma handle_wg_ok:
  assumes p: "peer_ok C own_priv p" "p_pubkey p \<in> K"
  obtains p' t' owner' out packet where "handle_wg C E force_relay p t owner m from via = Some (p', t', owner', out, packet)"
    "evolves C own_priv p p'" "table_step K (t, owner) (t', owner')" "sends_for K out"
    "\<And>pkt. packet = Some pkt \<Longrightarrow> \<exists>raw'. raw_on_recv C (e_rng (E 0)) (e_boot (E 0) 0) (p_raw p) m (replicate 2048 0) = Some (raw', Inr pkt)"
proof -
  obtain q t1 o1 out1 where r: "wg_response C E force_relay p t owner m from via = (q, t1, o1, out1)" by (metis prod_cases4)
  note ro = wg_response_ok [OF p r]
  from wg_data_ok [OF p(1)] obtain d t2 o2 packet where
    d: "wg_data C E p t owner m from via = Some (d, t2, o2, packet)" "evolves C own_priv p d"
      "table_step K (t, owner) (t2, o2)"
      "\<And>pkt. packet = Some pkt \<Longrightarrow> \<exists>raw'. raw_on_recv C (e_rng (E 0)) (e_boot (E 0) 0) (p_raw p) m (replicate 2048 0) = Some (raw', Inr pkt)"
    by blast
  consider "first_byte m = T_HANDSHAKE_RESP" | "first_byte m = T_DATA" | "first_byte m \<noteq> T_HANDSHAKE_RESP" "first_byte m \<noteq> T_DATA"
    by blast
  then show thesis
  proof cases
    case 1
    then show thesis using r ro by (intro that [of q t1 o1 out1 None]) (simp_all add: handle_wg_def)
  next
    case 2
    then show thesis using d by (intro that [of d t2 o2 "[]" packet]) (simp_all add: handle_wg_def wg_types)
  next
    case 3
    then show thesis by (intro that [of p t owner "[]" None]) (simp_all add: handle_wg_def)
  qed
qed

end
