(* ===== verification/Worker_Invariants.thy ===== *)
theory Worker_Invariants
  imports Node_Worker Peer_Invariants
begin

text \<open>
  The invariant of a worker: its peers have distinct keys and satisfy the invariant of a peer, its
  receiver indices name peers it knows and are registered for it, and its peers are in the status
  registry. Every message is handled, whatever it contains, and the invariant holds afterwards.
\<close>

section \<open>The tick\<close>

text \<open>What a piece of the tick does: the peer evolves at the address it had, the tables stay
  consistent and the outputs go to known peers.\<close>

definition tick_keeps :: "crypto \<Rightarrow> bytes \<Rightarrow> peer_key set \<Rightarrow> tick_state \<Rightarrow> tick_state \<Rightarrow> bool" where
  "tick_keeps C own_priv K k k' \<longleftrightarrow>
     evolves C own_priv (k_peer k) (k_peer k') \<and> p_direct_addr (k_peer k') = p_direct_addr (k_peer k) \<and>
     table_step K (k_index k, k_owner k) (k_index k', k_owner k') \<and> (sends_for K (k_out k) \<longrightarrow> sends_for K (k_out k'))"

lemma tick_keeps_refl [simp]: "tick_keeps C own_priv K k k"
  by (simp add: tick_keeps_def)

lemma tick_keeps_trans: "tick_keeps C own_priv K k k' \<Longrightarrow> tick_keeps C own_priv K k' k'' \<Longrightarrow> tick_keeps C own_priv K k k''"
  unfolding tick_keeps_def by (auto intro: evolves_trans table_step_trans)

lemma tick_keeps_key: "tick_keeps C own_priv K k k' \<Longrightarrow> p_pubkey (k_peer k') = p_pubkey (k_peer k)"
  by (simp add: tick_keeps_def evolves_def)

lemma tick_keeps_emit: "sends_for K out \<Longrightarrow> tick_keeps C own_priv K k (emit out k)"
  by (simp add: tick_keeps_def emit_def)

lemma tick_keeps_peer:
  "evolves C own_priv (k_peer k) p \<Longrightarrow> p_direct_addr p = p_direct_addr (k_peer k) \<Longrightarrow> tick_keeps C own_priv K k (k\<lparr>k_peer := p\<rparr>)"
  by (simp add: tick_keeps_def)

lemma tick_keeps_send:
  "p_pubkey (k_peer k) \<in> K \<Longrightarrow> p_pubkey p = p_pubkey (k_peer k) \<Longrightarrow>
     tick_keeps C own_priv K k (emit (send_to_peer relay_up p force_relay m) k)"
  by (rule tick_keeps_emit) (simp add: send_to_peer_sends)

lemma disco_ping_direct:
  "disco_ping C e routes p own_pub = (p', routes', ping) \<Longrightarrow> p_direct_addr p' = p_direct_addr p \<and> p_candidates p' = p_candidates p"
  by (auto simp: disco_ping_def disco_ping_to_def Let_def split: prod.splits)

lemma tick_keeps_ping:
  assumes "disco_ping C e (k_routes k) (k_peer k) own_pub = (p, routes, ping)"
  shows "tick_keeps C own_priv K k (k\<lparr>k_peer := p, k_routes := routes\<rparr>)"
  using disco_ping_evolves [OF assms] disco_ping_direct [OF assms] by (simp add: tick_keeps_def)

lemma tick_publish_keeps: "tick_keeps C own_priv K k (tick_publish e force_relay k)"
  unfolding tick_publish_def Let_def by (rule tick_keeps_peer) (rule evolves_other, simp_all)

lemma tick_probe_keeps: "tick_keeps C own_priv K k (tick_probe C e own_pub force_relay k)"
proof -
  obtain p routes ping where d: "disco_ping C e (k_routes k) (k_peer k) own_pub = (p, routes, ping)" by (metis prod_cases3)
  from tick_keeps_ping [OF d] show ?thesis
    by (auto simp: tick_probe_def d Let_def intro: tick_keeps_trans [OF _ tick_keeps_emit] split: option.split)
qed

lemma tick_handshaking_keeps:
  assumes "p_pubkey (k_peer k) \<in> K"
  shows "tick_keeps C own_priv K k (tick_handshaking E now force_relay k)"
proof -
  define p0 where "p0 = (k_peer k)\<lparr>p_retries := p_retries (k_peer k) + 1\<rparr>"
  define p where "p = (if \<not> force_relay \<and> \<not> p_disco_validated p0 \<and> \<not> p_prefer_relay p0 \<and> e_relay (E 0) \<and> 6 \<le> p_retries p0
               then p0\<lparr>p_prefer_relay := True\<rparr> else p0)"
  have eq: "tick_handshaking E now force_relay k = (case p_init_packet p of
      Some init \<Rightarrow> emit (send_to_peer (e_relay (E 1)) p force_relay init) (k\<lparr>k_peer := p\<lparr>p_init_sent_at := Some now\<rparr>\<rparr>)
    | None \<Rightarrow> k\<lparr>k_peer := p\<rparr>)"
    unfolding tick_handshaking_def Let_def p_def p0_def by (rule refl)
  have "evolves C own_priv (k_peer k) p0" unfolding p0_def by (rule evolves_other) simp_all
  moreover have "evolves C own_priv p0 p" by (auto simp: p_def evolves_def peer_ok_def)
  moreover have "evolves C own_priv p (p\<lparr>p_init_sent_at := Some now\<rparr>)" by (rule evolves_other) simp_all
  ultimately have "evolves C own_priv (k_peer k) p" "evolves C own_priv (k_peer k) (p\<lparr>p_init_sent_at := Some now\<rparr>)"
    by (blast intro: evolves_trans)+
  moreover have "p_direct_addr p = p_direct_addr (k_peer k)" by (simp add: p_def p0_def)
  moreover have "p_pubkey p \<in> K" using assms by (simp add: p_def p0_def)
  ultimately show ?thesis
    unfolding eq by (auto simp: tick_keeps_def emit_def send_to_peer_sends split: option.split)
qed

lemma emit_rekey_keeps:
  assumes "p_pubkey (k_peer k) \<in> K" "emit_rekey C E force_relay k = (k', sent)"
  shows "tick_keeps C own_priv K k k'"
proof -
  obtain raw res where r: "raw_rekey_init C (e_rng (E 0)) (e_boot (E 0)) (p_raw (k_peer k)) (replicate 256 0) = (raw, res)"
    by (metis surj_pair)
  let ?p = "(k_peer k)\<lparr>p_raw := raw\<rparr>"
  have e: "evolves C own_priv (k_peer k) ?p" by (rule evolves_raw) (rule raw_rekey_init_ok [OF _ r])
  show ?thesis
  proof (cases res)
    case (Inl x)
    then show ?thesis using assms(2) r e by (auto simp: emit_rekey_def intro: tick_keeps_peer)
  next
    case (Inr init)
    let ?q = "note_rekey (e_now (E 1)) ?p"
    obtain t owner where i: "insert_index (k_index k) (k_owner k) init (p_pubkey (k_peer k)) = (t, owner)" by (metis surj_pair)
    have "evolves C own_priv (k_peer k) ?q" using e note_rekey_evolves by (rule evolves_trans)
    moreover have "p_direct_addr ?q = p_direct_addr (k_peer k)" "p_pubkey ?q = p_pubkey (k_peer k)" by (simp_all add: note_rekey_def)
    ultimately show ?thesis
      using insert_index_step [OF assms(1) i] assms r i Inr send_to_peer_sends [of ?q K]
      by (auto simp: emit_rekey_def tick_keeps_def emit_def Let_def)
  qed
qed

lemma keepalive_send_keeps:
  assumes "p_pubkey (k_peer k) \<in> K"
  shows "tick_keeps C own_priv K k (keepalive_send C E own_pub force_relay ka k)"
proof -
  let ?k = "emit (send_to_peer (e_relay (E 0)) (k_peer k) force_relay ka) k"
  obtain p routes ping where d: "disco_ping C (E 1) (k_routes ?k) (k_peer ?k) own_pub = (p, routes, ping)" by (metis prod_cases3)
  have a: "tick_keeps C own_priv K k ?k" using assms by (intro tick_keeps_send) simp_all
  have b: "tick_keeps C own_priv K k (?k\<lparr>k_peer := p, k_routes := routes\<rparr>)"
    by (rule tick_keeps_trans [OF a tick_keeps_ping [OF d]])
  show ?thesis
    using a b d unfolding keepalive_send_def Let_def
    by (auto simp: emit_def split: option.splits)
      (auto simp: tick_keeps_def)
qed

lemma tick_keepalive_keeps:
  assumes K: "p_pubkey (k_peer k) \<in> K"
  shows "tick_keeps C own_priv K k (tick_keepalive C E own_pub force_relay k)"
proof -
  obtain raw res where r: "raw_on_send C (e_rng (E 0)) (e_boot (E 0)) (p_raw (k_peer k)) [] (replicate 2048 0) = (raw, res)"
    by (metis surj_pair)
  let ?p = "(k_peer k)\<lparr>p_raw := raw\<rparr>"
  let ?k = "k\<lparr>k_peer := ?p\<rparr>"
  have e: "evolves C own_priv (k_peer k) ?p" by (rule evolves_raw) (rule raw_on_send_ok [OF _ r])
  then have k: "tick_keeps C own_priv K k ?k" by (intro tick_keeps_peer) simp_all
  show ?thesis
  proof (cases res)
    case (Inl x)
    then show ?thesis using r k by (simp add: tick_keepalive_def Let_def)
  next
    case (Inr out)
    let ?q = "?p\<lparr>p_stat := add_tx (p_stat ?p) (length out)\<rparr>"
    have "evolves C own_priv ?p ?q" by (rule evolves_other) simp_all
    then have "tick_keeps C own_priv K k (k\<lparr>k_peer := ?q\<rparr>)" using e by (intro tick_keeps_peer) (auto intro: evolves_trans)
    moreover have "p_pubkey (k_peer (k\<lparr>k_peer := ?q\<rparr>)) \<in> K" using K by simp
    ultimately have ka: "tick_keeps C own_priv K k (keepalive_send C (\<lambda>i. E (i + 1)) own_pub force_relay out (k\<lparr>k_peer := ?q\<rparr>))"
      by (blast intro: tick_keeps_trans keepalive_send_keeps)
    have init: "tick_keeps C own_priv K k (emit (send_to_peer (e_relay (E 1)) ?p force_relay out) (?k\<lparr>k_index := t, k_owner := owner\<rparr>))"
      if "index_insert (k_index k) (k_owner k) idx (p_pubkey (k_peer k)) = (t, owner)" "le_u32 out 4 = Some idx" for idx t owner
    proof -
      have "insert_index (k_index k) (k_owner k) out (p_pubkey (k_peer k)) = (t, owner)" using that by (simp add: insert_index_def)
      then show ?thesis using insert_index_step [OF K] e send_to_peer_sends [of ?p K] K by (simp add: tick_keeps_def emit_def)
    qed
    show ?thesis using r Inr ka init k
      by (auto simp: tick_keepalive_def Let_def split: option.split prod.split)
  qed
qed

lemma tick_rekeyed_keeps:
  assumes "p_pubkey (k_peer k) \<in> K" "emit_rekey C E force_relay k = (k', sent)"
    "\<And>p. p_pubkey (f p) = p_pubkey p \<and> evolves C own_priv p (f p) \<and> p_direct_addr (f p) = p_direct_addr p"
  shows "tick_keeps C own_priv K k (if sent then k'\<lparr>k_peer := f (k_peer k')\<rparr> else k')"
  using emit_rekey_keeps [OF assms(1,2), of own_priv] assms(3) [of "k_peer k'"]
  by (auto intro: tick_keeps_trans [OF _ tick_keeps_peer])

lemma tick_silent_keeps:
  assumes K: "p_pubkey (k_peer k) \<in> K"
  shows "tick_keeps C own_priv K k (tick_silent C E now own_pub force_relay k)"
proof -
  let ?p = "k_peer k"
  define p where "p = ?p\<lparr>p_prefer_relay := True, p_relay_pinned := True,
      p_flaps := (case p_last_upgrade ?p of
          Some up \<Rightarrow> if now - up < from_secs 20 then min (p_flaps ?p + 1) 5 else 0 | None \<Rightarrow> 0),
      p_pinned_at := Some now, p_last_recv := Some now, p_last_recv_direct := None\<rparr>"
  have e: "evolves C own_priv ?p p" by (auto simp: p_def evolves_def peer_ok_def split: option.split)
  then have k: "tick_keeps C own_priv K k (k\<lparr>k_peer := p\<rparr>)" by (rule tick_keeps_peer) (simp add: p_def)
  obtain k' sent where s: "emit_rekey C (\<lambda>i. E (i + 1)) force_relay (k\<lparr>k_peer := p\<rparr>) = (k', sent)" by (metis surj_pair)
  have K': "p_pubkey (k_peer (k\<lparr>k_peer := p\<rparr>)) \<in> K" using K by (simp add: p_def)
  have "tick_keeps C own_priv K (k\<lparr>k_peer := p\<rparr>)
      (if sent then k'\<lparr>k_peer := (k_peer k')\<lparr>p_init_sent_at := Some now\<rparr>\<rparr> else k')"
    by (rule tick_rekeyed_keeps [OF K' s]) (auto intro: evolves_other)
  from tick_keeps_trans [OF k this] k show ?thesis
    unfolding tick_silent_def Let_def p_def [symmetric] s prod.case by simp
qed

lemma tick_upgrade_keeps: "tick_keeps C own_priv K k (tick_upgrade now k)"
  unfolding tick_upgrade_def Let_def
  by (cases "p_relay_pinned (k_peer k)") (auto intro!: tick_keeps_peer simp: evolves_def peer_ok_def)

lemma tick_rekey_keeps:
  assumes K: "p_pubkey (k_peer k) \<in> K"
  shows "tick_keeps C own_priv K k (tick_rekey C E now own_pub force_relay k)"
proof -
  obtain k' sent where s: "emit_rekey C (\<lambda>i. E (i + 1)) force_relay k = (k', sent)" by (metis surj_pair)
  have "tick_keeps C own_priv K k (if sent then k'\<lparr>k_peer := (k_peer k')\<lparr>p_init_sent_at := Some now, p_handshake_at := Some now\<rparr>\<rparr> else k')"
    by (rule tick_rekeyed_keeps [OF K s]) (auto intro: evolves_other)
  with s show ?thesis by (simp add: tick_rekey_def)
qed

lemma tick_peer_keeps:
  assumes K: "p_pubkey (k_peer k) \<in> K"
  shows "tick_keeps C own_priv K k (tick_peer C E now own_pub force_relay k)"
proof -
  define k1 where "k1 = tick_probe C (E 1) own_pub force_relay (tick_publish (E 0) force_relay k)"
  define k2 where "k2 = tick_keepalive C (\<lambda>i. E (i + 2)) own_pub force_relay k1"
  define k3 where "k3 = tick_silent C (\<lambda>i. E (i + 6)) now own_pub force_relay k2"
  define k4 where "k4 = tick_upgrade now k3"
  have 1: "tick_keeps C own_priv K k k1" unfolding k1_def by (rule tick_keeps_trans [OF tick_publish_keeps tick_probe_keeps])
  then have K1: "p_pubkey (k_peer k1) \<in> K" using K by (simp add: tick_keeps_key)
  have 2: "tick_keeps C own_priv K k1 k2" unfolding k2_def by (rule tick_keepalive_keeps [OF K1])
  then have K2: "p_pubkey (k_peer k2) \<in> K" using K1 by (simp add: tick_keeps_key)
  have 3: "tick_keeps C own_priv K k2 k4"
    unfolding k3_def k4_def by (rule tick_keeps_trans [OF tick_silent_keeps [OF K2] tick_upgrade_keeps])
  then have K4: "p_pubkey (k_peer k4) \<in> K" using K2 by (simp add: tick_keeps_key)
  have "tick_keeps C own_priv K k (tick_rekey C (\<lambda>i. E (i + 11)) now own_pub force_relay k4)"
    by (rule tick_keeps_trans [OF tick_keeps_trans [OF tick_keeps_trans [OF 1 2] 3] tick_rekey_keeps [OF K4]])
  moreover have "tick_keeps C own_priv K k (tick_handshaking (\<lambda>i. E (i + 2)) now force_relay k1)"
    by (rule tick_keeps_trans [OF 1 tick_handshaking_keeps [OF K1]])
  ultimately show ?thesis
    unfolding tick_peer_def Let_def k1_def [symmetric] k2_def [symmetric] k3_def [symmetric] k4_def [symmetric] by simp
qed

lemma tick_peers_keep:
  assumes "p_pubkey ` set ps \<subseteq> K"
    "tick_peers C E now own_pub force_relay ps (t, owner, routes) = (ps', (t', owner', routes'), out)"
  shows "evolve_all C own_priv ps ps' \<and> map p_direct_addr ps' = map p_direct_addr ps \<and>
    table_step K (t, owner) (t', owner') \<and> sends_for K out"
  using assms
proof (induction ps arbitrary: E t owner routes ps' out)
  case Nil
  then show ?case by simp
next
  case (Cons p ps)
  let ?k = "\<lparr>k_peer = p, k_index = t, k_owner = owner, k_routes = routes, k_out = []\<rparr>"
  define k where "k = tick_peer C E now own_pub force_relay ?k"
  obtain qs out2 where q: "tick_peers C (\<lambda>i. E (i + 16)) now own_pub force_relay ps (k_index k, k_owner k, k_routes k) =
      (qs, (t', owner', routes'), out2)" "ps' = k_peer k # qs" "out = k_out k @ out2"
    using Cons.prems(2) by (auto simp: k_def Let_def split: prod.splits)
  have 1: "tick_keeps C own_priv K ?k k" unfolding k_def using Cons.prems(1) by (intro tick_peer_keeps) simp
  have 2: "evolve_all C own_priv ps qs \<and> map p_direct_addr qs = map p_direct_addr ps \<and>
      table_step K (k_index k, k_owner k) (t', owner') \<and> sends_for K out2"
    using Cons.prems(1) by (intro Cons.IH [OF _ q(1)]) simp
  show ?case using 1 2 table_step_trans [of K "(t, owner)" "(k_index k, k_owner k)" "(t', owner')"]
    unfolding q(2,3) tick_keeps_def by simp
qed

section \<open>Workers\<close>

definition worker_keys :: "worker \<Rightarrow> peer_key set" where
  "worker_keys w = p_pubkey ` set (w_peers w)"

definition worker_wf :: "crypto \<Rightarrow> worker \<Rightarrow> bool" where
  "worker_wf C w \<longleftrightarrow>
     distinct (map p_pubkey (w_peers w)) \<and> list_all (peer_ok C (w_own_priv w)) (w_peers w) \<and>
     table_ok (worker_keys w) (w_index w, w_owner w) \<and> worker_keys w \<subseteq> fset (w_status w)"

text \<open>What every message but those that add or remove a peer does to a worker.\<close>

definition worker_evolves :: "crypto \<Rightarrow> worker \<Rightarrow> worker \<Rightarrow> bool" where
  "worker_evolves C w w' \<longleftrightarrow>
     evolve_all C (w_own_priv w) (w_peers w) (w_peers w') \<and>
     table_step (worker_keys w) (w_index w, w_owner w) (w_index w', w_owner w') \<and>
     w_own_priv w' = w_own_priv w \<and> w_own_pub w' = w_own_pub w \<and> w_force_relay w' = w_force_relay w \<and>
     w_status w' = w_status w \<and> w_allowed w' = w_allowed w"

lemma worker_evolves_keys: "worker_evolves C w w' \<Longrightarrow> map p_pubkey (w_peers w') = map p_pubkey (w_peers w) \<and> worker_keys w' = worker_keys w"
  unfolding worker_evolves_def worker_keys_def
  by (metis evolve_all_keys list.set_map)

lemma worker_evolves_wf: "worker_evolves C w w' \<Longrightarrow> worker_wf C w \<Longrightarrow> worker_wf C w'"
  using worker_evolves_keys [of C w w'] evolve_all_ok [of C "w_own_priv w" "w_peers w" "w_peers w'"]
  by (auto simp: worker_wf_def worker_evolves_def table_step_def)

lemma worker_evolves_refl [simp]: "worker_evolves C w w"
  by (simp add: worker_evolves_def)

lemma worker_evolves_trans: "worker_evolves C w w' \<Longrightarrow> worker_evolves C w' w'' \<Longrightarrow> worker_evolves C w w''"
  using worker_evolves_keys [of C w w']
  unfolding worker_evolves_def by (auto intro: evolve_all_trans table_step_trans)

lemma worker_evolves_upd:
  assumes "List.find P (w_peers w) = Some p" "evolves C (w_own_priv w) p p'" "w_peers w' = upd_first P p' (w_peers w)"
    "table_step (worker_keys w) (w_index w, w_owner w) (w_index w', w_owner w')"
    "w_own_priv w' = w_own_priv w" "w_own_pub w' = w_own_pub w" "w_force_relay w' = w_force_relay w"
    "w_status w' = w_status w" "w_allowed w' = w_allowed w"
  shows "worker_evolves C w w'"
  using assms evolve_all_upd_first [OF assms(1,2)] by (simp add: worker_evolves_def)

lemma worker_evolves_put:
  assumes "List.find P (w_peers w) = Some p" "evolves C (w_own_priv w) p p'"
  shows "worker_evolves C w (w\<lparr>w_peers := upd_first P p' (w_peers w)\<rparr>)"
    "worker_evolves C w (w\<lparr>w_peers := upd_first P p' (w_peers w), w_routes := routes\<rparr>)"
    "worker_evolves C w (w\<lparr>w_routes := routes, w_peers := upd_first P p' (w_peers w)\<rparr>)"
  by (rule worker_evolves_upd [OF assms]; simp)+

lemma find_worker_peer:
  assumes "worker_wf C w" "List.find P (w_peers w) = Some p"
  shows "peer_ok C (w_own_priv w) p" "p_pubkey p \<in> worker_keys w" "p \<in> set (w_peers w)" "P p"
  using find_peer [OF assms(2)] assms(1) by (auto simp: worker_wf_def worker_keys_def)

text \<open>A packet handed to the tunnel interface comes out of the tunnel of a peer that may use its
  source address.\<close>

definition delivers :: "crypto \<Rightarrow> env \<Rightarrow> worker \<Rightarrow> peer \<Rightarrow> bytes \<Rightarrow> bytes \<Rightarrow> bool" where
  "delivers C e w p m pkt \<longleftrightarrow>
     (\<exists>raw'. raw_on_recv C (e_rng e) (e_boot e 0) (p_raw p) m (replicate 2048 0) = Some (raw', Inr pkt)) \<and>
     accepts_source (w_allowed w) (p_pubkey p) pkt"

definition outputs_ok :: "crypto \<Rightarrow> env \<Rightarrow> worker \<Rightarrow> bytes \<Rightarrow> node_output list \<Rightarrow> bool" where
  "outputs_ok C e w m out \<longleftrightarrow>
     (\<forall>pkt. TunTo pkt \<in> set out \<longrightarrow> (\<exists>p \<in> set (w_peers w). delivers C e w p m pkt)) \<and>
     (\<forall>pk x. RelayTo pk x \<in> set out \<longrightarrow> pk \<in> worker_keys w)"

lemma sends_for_outputs: "sends_for (worker_keys w) out \<Longrightarrow> outputs_ok C e w m out"
  by (auto simp: sends_for_def outputs_ok_def list_all_iff)

lemma flush_gso_ok: "flush_gso e w = (w', out) \<Longrightarrow> worker_evolves C w w' \<and> w_peers w' = w_peers w \<and> sends_for K out"
  by (auto simp: flush_gso_def worker_evolves_def udp_outputs_def sends_for_def list_all_iff Let_def split: prod.splits)

lemma on_tick_ok:
  assumes "on_tick C E w = (w', out)"
  shows "worker_evolves C w w' \<and> map p_direct_addr (w_peers w') = map p_direct_addr (w_peers w) \<and>
    sends_for (worker_keys w) out"
proof -
  obtain ps t owner routes where k: "tick_peers C (\<lambda>i. E (i + 1)) (e_now (E 0)) (w_own_pub w) (w_force_relay w)
      (w_peers w) (w_index w, w_owner w, w_routes w) = (ps, (t, owner, routes), out)"
      "w' = w\<lparr>w_peers := ps, w_index := t, w_owner := owner, w_routes := routes\<rparr>"
    using assms by (auto simp: on_tick_def Let_def split: prod.splits)
  from tick_peers_keep [OF _ k(1), of "worker_keys w" "w_own_priv w"] show ?thesis
    by (simp add: k(2) worker_evolves_def worker_keys_def)
qed

lemma worker_accept_ok:
  assumes "worker_wf C w"
  obtains w' out where "worker_accept C E w m from via = Some (w', out)" "worker_evolves C w w'" "sends_for (worker_keys w) out"
proof -
  have "list_all (peer_ok C (w_own_priv w)) (w_peers w)" using assms by (simp add: worker_wf_def)
  from accept_init_ok [OF this, of E "w_force_relay w" "w_peer_index w" "w_own_pub w" "w_index w" "w_owner w" m "from" via]
  obtain ps i t owner out where a: "accept_init C E (w_force_relay w) (w_peers w) (w_peer_index w) (w_own_priv w)
      (w_own_pub w) (w_index w) (w_owner w) m from via = Some (ps, i, t, owner, out)"
    "evolve_all C (w_own_priv w) (w_peers w) ps" "table_step (worker_keys w) (w_index w, w_owner w) (t, owner)"
    "sends_for (worker_keys w) out" unfolding worker_keys_def .
  then show thesis
    by (intro that [of "w\<lparr>w_peers := ps, w_peer_index := i, w_index := t, w_owner := owner\<rparr>" out])
      (simp_all add: worker_accept_def worker_evolves_def)
qed

lemma deliver_wg_ok:
  assumes wf: "worker_wf C w"
  obtains w' out where "deliver_wg C E w pk m from via = Some (w', out)" "worker_evolves C w w'" "outputs_ok C (E 0) w m out"
proof (cases "List.find (\<lambda>p. p_pubkey p = pk) (w_peers w)")
  case None
  then show thesis by (intro that [of w "[]"]) (simp_all add: deliver_wg_def outputs_ok_def)
next
  case (Some p)
  note p = find_worker_peer [OF wf Some]
  obtain p' t owner out packet where h: "handle_wg C E (w_force_relay w) p (w_index w) (w_owner w) m from via =
      Some (p', t, owner, out, packet)" "evolves C (w_own_priv w) p p'"
      "table_step (worker_keys w) (w_index w, w_owner w) (t, owner)" "sends_for (worker_keys w) out"
      "\<And>pkt. packet = Some pkt \<Longrightarrow> \<exists>raw'. raw_on_recv C (e_rng (E 0)) (e_boot (E 0) 0) (p_raw p) m (replicate 2048 0) = Some (raw', Inr pkt)"
    using handle_wg_ok [OF p(1,2)] by blast
  define q where "q = (case packet of None \<Rightarrow> (p', []) | Some pkt \<Rightarrow>
      if \<not> accepts_source (w_allowed w) (p_pubkey p') pkt
      then (p'\<lparr>p_stat := (p_stat p')\<lparr>rx_source_drops := rx_source_drops (p_stat p') + 1\<rparr>\<rparr>, []) else (p', [TunTo pkt]))"
  have "evolves C (w_own_priv w) p' (fst q)" by (auto simp: q_def intro: evolves_other split: option.split)
  with h(2) have e: "evolves C (w_own_priv w) p (fst q)" by (rule evolves_trans)
  have key: "p_pubkey p' = p_pubkey p" using h(2) by (simp add: evolves_def)
  have "delivers C (E 0) w p m pkt" if "TunTo pkt \<in> set (snd q)" for pkt
    using that h(5) [of pkt] key by (auto simp: q_def delivers_def split: option.splits if_splits)
  moreover have "RelayTo k x \<notin> set (snd q)" for k x by (auto simp: q_def split: option.split)
  ultimately have o: "outputs_ok C (E 0) w m (out @ snd q)"
    using sends_for_outputs [OF h(4), of C "E 0" m] p(3) unfolding outputs_ok_def by auto
  let ?w = "w\<lparr>w_peers := upd_first (\<lambda>p. p_pubkey p = pk) (fst q) (w_peers w), w_index := t, w_owner := owner\<rparr>"
  have "deliver_wg C E w pk m from via = Some (?w, out @ snd q)"
    using Some h(1) by (auto simp: deliver_wg_def q_def split: option.split)
  moreover have "worker_evolves C w ?w" by (rule worker_evolves_upd [OF Some e]) (use h(3) in simp_all)
  ultimately show thesis using o by (rule that)
qed

lemma on_disco_ping_ok:
  assumes wf: "worker_wf C w" and d: "on_disco_ping C E w from dgram body used tx_id sender_key = (w', out)"
  shows "worker_evolves C w w' \<and> sends_for (worker_keys w) out"
proof (cases "List.find (\<lambda>p. p_pubkey p = sender_key) (w_peers w)")
  case None
  then show ?thesis using d by (simp add: on_disco_ping_def)
next
  case (Some p)
  note p = find_worker_peer [OF wf Some]
  obtain pr ok where a: "accept_ping (p_probes p) tx_id (e_unix (E 0)) = (pr, ok)" by (metis surj_pair)
  let ?p = "p\<lparr>p_probes := pr\<rparr>"
  have e: "evolves C (w_own_priv w) p ?p" using accept_ping_ok [OF _ a] by (auto simp: evolves_def peer_ok_def)
  obtain q routes ping where t: "disco_ping_to C (E 1) (w_routes w) ?p (w_own_pub w) [from] = (q, routes, ping)"
    by (metis prod_cases3)
  have e': "evolves C (w_own_priv w) p q" by (rule evolves_trans [OF e disco_ping_to_evolves [OF t]])
  from d Some a t worker_evolves_put [OF Some e] worker_evolves_put [OF Some e'] show ?thesis
    by (auto simp: on_disco_ping_def Let_def sends_for_def split: if_splits option.splits)
qed

lemma on_disco_pong_ok: "worker_evolves C w (on_disco_pong C E w from dgram body used tx_id)"
proof (cases "List.find (\<lambda>p. probe_pending (p_probes p) tx_id from (e_unix (E 0))) (w_peers w)")
  case None
  then show ?thesis by (simp add: on_disco_pong_def Let_def)
next
  case (Some p)
  obtain pr routes ok where f: "probe_finish (p_probes p) tx_id from (w_routes w) (e_unix (E 0)) = (pr, routes, ok)"
    by (metis prod_cases3)
  let ?p = "p\<lparr>p_probes := pr, p_direct_addr := Some from,
      p_prefer_relay := (if \<not> p_relay_pinned p then False else p_prefer_relay p), p_disco_validated := True\<rparr>"
  have "evolves C (w_own_priv w) p ?p" using probe_finish_ok [OF _ f] by (auto simp: evolves_def peer_ok_def)
  from worker_evolves_put(2) [OF Some this] show ?thesis using Some f by (simp add: on_disco_pong_def Let_def)
qed

lemma on_disco_ok:
  assumes "worker_wf C w" "on_disco C E w from dgram = (w', out)"
  shows "worker_evolves C w w' \<and> sends_for (worker_keys w) out"
  using assms on_disco_ping_ok [OF assms(1)] on_disco_pong_ok [of C w E "from" dgram]
  by (auto simp: on_disco_def split: option.splits sum.splits disco.splits prod.splits)

lemma on_udp_in_ok:
  assumes wf: "worker_wf C w"
  obtains w' out where "on_udp_in C E w from m = Some (w', out)" "worker_evolves C w w'" "outputs_ok C (E 0) w m out"
proof -
  obtain w1 out1 where d: "on_disco C E w from m = (w1, out1)" by (metis surj_pair)
  note d' = on_disco_ok [OF wf d]
  obtain w2 out2 where a: "worker_accept C E w m (Some from) ViaUdp = Some (w2, out2)" "worker_evolves C w w2"
    "sends_for (worker_keys w) out2" using worker_accept_ok [OF wf] by blast
  consider "strip_magic m \<noteq> None" | "strip_magic m = None" "first_byte m = T_HANDSHAKE_INIT"
    | pk where "strip_magic m = None" "first_byte m \<noteq> T_HANDSHAKE_INIT" "Option.bind (receiver_index m) (index_get (w_index w)) = Some pk"
    | "strip_magic m = None" "first_byte m \<noteq> T_HANDSHAKE_INIT" "Option.bind (receiver_index m) (index_get (w_index w)) = None"
    by (metis not_None_eq)
  then show thesis
  proof cases
    case 1
    then show thesis using d d' by (intro that [of w1 out1]) (auto simp: on_udp_in_def intro: sends_for_outputs)
  next
    case 2
    then show thesis using a by (intro that [of w2 out2]) (auto simp: on_udp_in_def intro: sends_for_outputs)
  next
    case (3 pk)
    then have "on_udp_in C E w from m = deliver_wg C E w pk m (Some from) ViaUdp" by (simp add: on_udp_in_def)
    then show thesis using that deliver_wg_ok [OF wf, of E pk m "Some from" ViaUdp] by metis
  next
    case 4
    then show thesis by (intro that [of w "[]"]) (simp_all add: on_udp_in_def outputs_ok_def)
  qed
qed

lemma on_framed_in_ok:
  assumes wf: "worker_wf C w"
  obtains w' out where "on_framed_in C E w src m via = Some (w', out)" "worker_evolves C w w'" "outputs_ok C (E 0) w m out"
proof (cases "first_byte m = T_HANDSHAKE_INIT")
  case True
  obtain w2 out2 where a: "worker_accept C E w m None via = Some (w2, out2)" "worker_evolves C w w2"
    "sends_for (worker_keys w) out2" using worker_accept_ok [OF wf] by blast
  then show thesis using True by (intro that [of w2 out2]) (auto simp: on_framed_in_def intro: sends_for_outputs)
next
  case False
  then have "on_framed_in C E w src m via = deliver_wg C E w src m None via" by (simp add: on_framed_in_def)
  then show thesis using that deliver_wg_ok [OF wf, of E src m None via] by metis
qed

lemma on_tcp_conn_ok: "worker_evolves C w (on_tcp_conn w pk conn_gen out)"
proof (cases "List.find (\<lambda>p. p_pubkey p = pk) (w_peers w)")
  case (Some p)
  define q where "q = (case out of Some tx \<Rightarrow> p\<lparr>p_tcp_out := Some tx, p_tcp_gen := conn_gen\<rparr>
      | None \<Rightarrow> if p_tcp_gen p = conn_gen then p\<lparr>p_tcp_out := None\<rparr> else p)"
  have "evolves C (w_own_priv w) p q" by (auto simp: q_def intro: evolves_other split: option.split)
  from worker_evolves_put(1) [OF Some this] have "worker_evolves C w (w\<lparr>w_peers := upd_first (\<lambda>p. p_pubkey p = pk) q (w_peers w)\<rparr>)" .
  moreover have "on_tcp_conn w pk conn_gen out = w\<lparr>w_peers := upd_first (\<lambda>p. p_pubkey p = pk) q (w_peers w)\<rparr>"
    unfolding on_tcp_conn_def Some q_def by simp
  ultimately show ?thesis by simp
qed (simp add: on_tcp_conn_def)

lemma probe_peer_ok:
  assumes "probe_peer C e w p = (w', p', out)"
  shows "evolves C own_priv p p' \<and> (p_raw p' = p_raw p \<and> p_handshaked p' = p_handshaked p \<and> p_direct_addr p' = p_direct_addr p) \<and>
    (\<exists>routes. w' = w\<lparr>w_routes := routes\<rparr>) \<and> sends_for K out"
proof (cases "w_force_relay w")
  case True
  then show ?thesis using assms by (auto simp: probe_peer_def intro: exI [of _ "w_routes w"])
next
  case False
  obtain q routes ping where d: "disco_ping C e (w_routes w) p (w_own_pub w) = (q, routes, ping)" by (metis prod_cases3)
  have "p_raw q = p_raw p" "p_handshaked q = p_handshaked p"
    using d by (auto simp: disco_ping_def disco_ping_to_def Let_def split: prod.splits)
  then show ?thesis using assms False d disco_ping_evolves [OF d] disco_ping_direct [OF d]
    by (auto simp: probe_peer_def split: option.split)
qed

lemma on_update_candidates_ok:
  assumes "on_update_candidates C e w pk candidates = (w', out)"
  shows "worker_evolves C w w' \<and> sends_for (worker_keys w) out"
proof (cases "List.find (\<lambda>p. p_pubkey p = pk) (w_peers w)")
  case None
  then show ?thesis using assms by (simp add: on_update_candidates_def)
next
  case (Some p)
  let ?p = "p\<lparr>p_candidates := candidates, p_disco_validated := False\<rparr>"
  have e: "evolves C (w_own_priv w) p ?p" by (rule evolves_other) simp_all
  obtain w1 q pings where d: "probe_peer C e w ?p = (w1, q, pings)" by (metis prod_cases3)
  note d' = probe_peer_ok [OF d, of "w_own_priv w" "worker_keys w"]
  have "evolves C (w_own_priv w) p q" using d' evolves_trans [OF e] by blast
  from assms Some d d' worker_evolves_put(3) [OF Some this] show ?thesis
    by (auto simp: on_update_candidates_def Let_def)
qed

lemma upd_first_twice: "P y \<Longrightarrow> upd_first P z (upd_first P y xs) = upd_first P z xs"
  by (induction xs) auto

lemma flush_then_send_ok:
  assumes "flush_gso e w1 = (w2, out)" "worker_evolves C w w1" "p_pubkey p \<in> worker_keys w"
  shows "worker_evolves C w w2 \<and> sends_for (worker_keys w) (out @ send_to_peer up p force_relay m)"
  using flush_gso_ok [OF assms(1), of C "worker_keys w"] assms(2,3) send_to_peer_sends [of p "worker_keys w"]
  by (auto intro: worker_evolves_trans)

lemma on_tun_egress_ok:
  assumes wf: "worker_wf C w" and t: "on_tun_egress C E w pk pkt = (w', out)"
  shows "worker_evolves C w w' \<and> sends_for (worker_keys w) out"
proof (cases "List.find (\<lambda>p. p_pubkey p = pk \<and> p_handshaked p) (w_peers w)")
  case None
  then show ?thesis using t by (simp add: on_tun_egress_def)
next
  case (Some p)
  note p = find_worker_peer [OF wf Some]
  let ?P = "\<lambda>p. p_pubkey p = pk \<and> p_handshaked p"
  obtain raw res where r: "raw_on_send C (e_rng (E 0)) (e_boot (E 0)) (p_raw p) pkt (replicate 2048 0) = (raw, res)"
    by (metis surj_pair)
  define p1 where "p1 = p\<lparr>p_raw := raw\<rparr>"
  have e1: "evolves C (w_own_priv w) p p1" unfolding p1_def by (rule evolves_raw) (rule raw_on_send_ok [OF _ r])
  define w1 where "w1 = w\<lparr>w_peers := upd_first ?P p1 (w_peers w)\<rparr>"
  have 1: "worker_evolves C w w1" unfolding w1_def by (rule worker_evolves_put(1) [OF Some e1])
  show ?thesis
  proof (cases res)
    case (Inl x)
    then show ?thesis using t Some r 1 by (auto simp: on_tun_egress_def w1_def p1_def Let_def)
  next
    case (Inr enc)
    have k1: "p_pubkey p1 \<in> worker_keys w" using p(2) by (simp add: p1_def)
    show ?thesis
    proof (cases "get_at 0 enc = Some T_HANDSHAKE_INIT")
      case True
      obtain t' owner where i: "insert_index (w_index w) (w_owner w) enc pk = (t', owner)" by (metis surj_pair)
      have "worker_evolves C w (w1\<lparr>w_index := t', w_owner := owner\<rparr>)"
        by (rule worker_evolves_upd [OF Some e1]) (use insert_index_step [OF _ i] p(2,4) in \<open>simp_all add: w1_def\<close>)
      moreover obtain w2 out2 where f: "flush_gso (E 1) (w1\<lparr>w_index := t', w_owner := owner\<rparr>) = (w2, out2)" by (metis surj_pair)
      moreover have "w' = w1 \<and> out = [] \<or> w' = w2 \<and> out = out2 @ send_to_peer (e_relay (E 2)) p1 (w_force_relay w2) enc"
        using t Some r Inr True i f by (auto simp: on_tun_egress_def w1_def p1_def Let_def split: if_splits)
      ultimately show ?thesis using 1 flush_then_send_ok [OF f _ k1] by auto
    next
      case False
      define p2 where "p2 = p1\<lparr>p_stat := add_tx (p_stat p1) (length enc)\<rparr>"
      define w2 where "w2 = w\<lparr>w_peers := upd_first ?P p2 (w_peers w)\<rparr>"
      have "evolves C (w_own_priv w) p1 p2" unfolding p2_def by (rule evolves_other) simp_all
      then have 2: "worker_evolves C w w2"
        unfolding w2_def by (intro worker_evolves_put(1) [OF Some] evolves_trans [OF e1])
      have "?P p1" using p(4) by (simp add: p1_def)
      then have eq: "w1\<lparr>w_peers := upd_first ?P p2 (w_peers w1)\<rparr> = w2" by (simp add: w1_def w2_def upd_first_twice)
      have k2: "p_pubkey p2 \<in> worker_keys w" using k1 by (simp add: p2_def)
      obtain w3 out3 where f: "flush_gso (E 1) w2 = (w3, out3)" by (metis surj_pair)
      have "(\<exists>b ds. w' = w2\<lparr>w_gso := b\<rparr> \<and> out = udp_outputs ds) \<or>
          w' = w3 \<and> out = out3 @ send_to_peer (e_relay (E 2)) p2 (w_force_relay w3) enc"
        using t Some r Inr False f unfolding on_tun_egress_def Let_def
        by (auto simp: p1_def [symmetric] p2_def [symmetric] w1_def [symmetric] eq split: if_splits option.splits prod.splits)
      then show ?thesis using 2 flush_then_send_ok [OF f 2 k2]
        by (auto simp: worker_evolves_def udp_outputs_def sends_for_def list_all_iff)
    qed
  qed
qed

lemma on_remove_peer_ok:
  assumes "worker_wf C w"
  shows "worker_wf C (on_remove_peer w pk) \<and> worker_keys (on_remove_peer w pk) = worker_keys w - {pk}"
proof (cases "length (filter (\<lambda>p. p_pubkey p \<noteq> pk) (w_peers w)) = length (w_peers w)")
  case True
  then have "\<forall>p \<in> set (w_peers w). p_pubkey p \<noteq> pk" 
    using length_filter_less [of _ "w_peers w" "\<lambda>p. p_pubkey p \<noteq> pk"] by fastforce
  then show ?thesis using True assms by (auto simp: on_remove_peer_def worker_keys_def)
next
  case False
  obtain t owner where i: "index_remove_peer (w_index w) (w_owner w) pk = (t, owner)" by (metis surj_pair)
  have "worker_keys (on_remove_peer w pk) = worker_keys w - {pk}"
    using False i by (auto simp: on_remove_peer_def worker_keys_def Let_def)
  with index_remove_peer_step(2) [OF i, of "worker_keys w"] assms False i show ?thesis
    by (auto simp: worker_wf_def on_remove_peer_def Let_def distinct_map_filter list_all_iff)
qed

lemma table_ok_mono: "table_ok K st \<Longrightarrow> K \<subseteq> K' \<Longrightarrow> table_ok K' st"
  by (auto simp: table_ok_def)

lemma start_handshake_ok:
  assumes "start_handshake C E w p = (w', p', out)" "p_raw p = None" "\<not> p_handshaked p" "p_pubkey p \<in> K"
  shows "evolves C (w_own_priv w) p p' \<and> table_step K (w_index w, w_owner w) (w_index w', w_owner w') \<and> sends_for K out \<and>
    w_peers w' = w_peers w \<and> w_own_priv w' = w_own_priv w \<and> w_status w' = w_status w"
proof -
  obtain i raw res where r: "raw_init_handshake C (e_rng (E 0)) (e_boot (E 0)) (e_stamper (E 0)) (w_peer_index w) (p_raw p)
      (w_own_priv w) (p_pubkey p) = (i, raw, res)" by (metis prod_cases3)
  then have "raw_ok (p_pubkey p) raw" using raw_init_handshake_ok assms(2) by metis
  then have e: "evolves C (w_own_priv w) p (p\<lparr>p_raw := raw\<rparr>)" using assms(3) by (auto simp: evolves_def peer_ok_def)
  show ?thesis
  proof (cases res)
    case (Inl x)
    then show ?thesis using assms(1) r e by (auto simp: start_handshake_def)
  next
    case (Inr init)
    let ?q = "p\<lparr>p_raw := raw, p_init_sent_at := Some (e_now (E 2)), p_init_packet := Some init\<rparr>"
    obtain t owner where t: "insert_index (w_index w) (w_owner w) init (p_pubkey p) = (t, owner)" by (metis surj_pair)
    have "evolves C (w_own_priv w) (p\<lparr>p_raw := raw\<rparr>) ?q" by (rule evolves_other) simp_all
    with e have "evolves C (w_own_priv w) p ?q" by (rule evolves_trans)
    then show ?thesis using assms(1,4) r Inr t insert_index_step [OF assms(4) t] send_to_peer_sends [of "p\<lparr>p_raw := raw\<rparr>" K]
      by (auto simp: start_handshake_def Let_def)
  qed
qed

lemma worker_wf_add:
  assumes "worker_wf C w" "w_peers v = w_peers w" "w_own_priv v = w_own_priv w" "w_status v = finsert (p_pubkey q) (w_status w)"
    "table_step (insert (p_pubkey q) (worker_keys w)) (w_index w, w_owner w) (w_index v, w_owner v)"
    "p_pubkey q \<notin> worker_keys w" "peer_ok C (w_own_priv w) q"
  shows "worker_wf C (v\<lparr>w_peers := w_peers v @ [q]\<rparr>) \<and>
    worker_keys (v\<lparr>w_peers := w_peers v @ [q]\<rparr>) = insert (p_pubkey q) (worker_keys w)"
  using assms table_ok_mono [of "worker_keys w" "(w_index w, w_owner w)" "insert (p_pubkey q) (worker_keys w)"]
  by (auto simp: worker_wf_def worker_keys_def table_step_def)

lemma on_add_peer_ok:
  assumes wf: "worker_wf C w" and a: "on_add_peer C E w pk candidates allowed_ips initiator = (w', out)"
  shows "worker_wf C w' \<and> worker_keys w' = insert pk (worker_keys w) \<and> sends_for (insert pk (worker_keys w)) out"
proof (cases "list_ex (\<lambda>p. p_pubkey p = pk) (w_peers w)")
  case True
  then have "pk \<in> worker_keys w" by (auto simp: worker_keys_def list_ex_iff)
  moreover have "w' = w" "out = []" using True a by (simp_all add: on_add_peer_def)
  ultimately show ?thesis using wf by (simp add: insert_absorb)
next
  case False
  let ?K = "insert pk (worker_keys w)"
  define w0 where "w0 = w\<lparr>w_status := finsert pk (w_status w)\<rparr>"
  define p0 where "p0 = peer_fresh C pk candidates (w_force_relay w0) (peer_stat_new allowed_ips) (w_own_priv w0)"
  obtain w1 p1 pings where 1: "probe_peer C (E 0) w0 p0 = (w1, p1, pings)" by (metis prod_cases3)
  obtain w2 p2 inits where 2: "(if initiator then start_handshake C (\<lambda>i. E (i + 1)) w1 p1 else (w1, p1, [])) = (w2, p2, inits)"
    by (metis prod_cases3)
  have eq: "w' = w2\<lparr>w_peers := w_peers w2 @ [p2]\<rparr>" "out = pings @ inits"
    using a False unfolding on_add_peer_def Let_def p0_def [symmetric] w0_def [symmetric] 1 prod.case 2 by simp_all
  have fresh: "p_pubkey p0 = pk" "p_raw p0 = None" "\<not> p_handshaked p0" "peer_ok C (w_own_priv w) p0"
    using peer_fresh_ok [of C "w_own_priv w0" pk candidates] by (simp_all add: p0_def peer_fresh_def w0_def)
  note 1 = probe_peer_ok [OF 1, of "w_own_priv w" ?K]
  then obtain routes where w1: "w1 = w0\<lparr>w_routes := routes\<rparr>" and pings: "sends_for ?K pings" by blast
  have p1: "p_pubkey p1 = pk" "p_raw p1 = None" "\<not> p_handshaked p1" "peer_ok C (w_own_priv w) p1"
    using 1 fresh by (simp_all add: evolves_def)
  have "evolves C (w_own_priv w) p1 p2 \<and> table_step ?K (w_index w, w_owner w) (w_index w2, w_owner w2) \<and> sends_for ?K inits \<and>
      w_peers w2 = w_peers w \<and> w_own_priv w2 = w_own_priv w \<and> w_status w2 = finsert pk (w_status w)"
    using 2 start_handshake_ok [of C "\<lambda>i. E (i + 1)" w1 p1 w2 p2 inits ?K] p1
    by (auto simp: w1 w0_def split: if_splits)
  moreover have "pk \<notin> worker_keys w" using False by (auto simp: worker_keys_def list_ex_iff)
  ultimately show ?thesis using worker_wf_add [OF wf, of w2 p2] pings p1(1,4) unfolding eq by (simp add: evolves_def)
qed

section \<open>Messages\<close>

definition inbound :: "worker_msg \<Rightarrow> bytes option" where
  "inbound msg = (case msg of MUdpIn _ m \<Rightarrow> Some m | MRelayIn _ m \<Rightarrow> Some m | MTcpIn _ m \<Rightarrow> Some m | _ \<Rightarrow> None)"

text \<open>The peers a worker may have after a message.\<close>

definition keys_after :: "worker_msg \<Rightarrow> peer_key set \<Rightarrow> peer_key set" where
  "keys_after msg K = (case msg of MAddPeer pk _ _ _ \<Rightarrow> insert pk K | MRemovePeer pk \<Rightarrow> K - {pk} | _ \<Rightarrow> K)"

definition handled :: "crypto \<Rightarrow> env \<Rightarrow> worker \<Rightarrow> worker_msg \<Rightarrow> worker \<Rightarrow> node_output list \<Rightarrow> bool" where
  "handled C e w msg w' out \<longleftrightarrow>
     worker_wf C w' \<and> worker_keys w' = keys_after msg (worker_keys w) \<and>
     (\<forall>pkt. TunTo pkt \<in> set out \<longrightarrow> (\<exists>m. inbound msg = Some m \<and> (\<exists>p \<in> set (w_peers w). delivers C e w p m pkt))) \<and>
     (\<forall>pk x. RelayTo pk x \<in> set out \<longrightarrow> pk \<in> worker_keys w \<union> worker_keys w')"

lemma handled_evolves:
  assumes "worker_wf C w" "worker_evolves C w w'" "keys_after msg (worker_keys w) = worker_keys w"
    "sends_for (worker_keys w) out \<or> (\<exists>m. inbound msg = Some m \<and> outputs_ok C e w m out)"
  shows "handled C e w msg w' out"
  using worker_evolves_wf [OF assms(2,1)] worker_evolves_keys [OF assms(2)] assms(3,4)
  by (auto simp: handled_def outputs_ok_def sends_for_def list_all_iff)

text \<open>Flushing first changes nothing the rest of a handler depends on.\<close>

lemma flush_then_ok:
  assumes wf: "worker_wf C w"
    and f: "\<And>v. worker_wf C v \<Longrightarrow> worker_evolves C w v \<Longrightarrow> \<exists>w' out. f v = Some (w', out) \<and> handled C e v msg w' out"
  shows "\<exists>w' out. flush_then e0 w f = Some (w', out) \<and> handled C e w msg w' out"
proof -
  obtain v out0 where v: "flush_gso e0 w = (v, out0)" by (metis surj_pair)
  note g = flush_gso_ok [OF v, of C "{}"]
  then have same: "w_peers v = w_peers w" "worker_keys v = worker_keys w" "w_allowed v = w_allowed w"
    by (auto simp: worker_keys_def worker_evolves_def)
  obtain w' out where r: "f v = Some (w', out)" "handled C e v msg w' out" using f [of v] worker_evolves_wf wf g by blast
  have "handled C e w msg w' (out0 @ out)"
    using r(2) g by (auto simp: handled_def same delivers_def sends_for_def list_all_iff)
  then show ?thesis using v r(1) by (simp add: flush_then_def)
qed

lemma flush_evolves_ok:
  assumes wf: "worker_wf C w" and msg: "keys_after msg (worker_keys w) = worker_keys w"
    and f: "\<And>v. worker_wf C v \<Longrightarrow> \<exists>w' out. f v = Some (w', out) \<and> worker_evolves C v w' \<and>
      (sends_for (worker_keys v) out \<or> (\<exists>m. inbound msg = Some m \<and> outputs_ok C e v m out))"
  shows "\<exists>w' out. flush_then e0 w f = Some (w', out) \<and> handled C e w msg w' out"
proof (rule flush_then_ok [OF wf])
  fix v assume "worker_wf C v" "worker_evolves C w v"
  moreover from this have "keys_after msg (worker_keys v) = worker_keys v"
    using msg worker_evolves_keys by metis
  ultimately show "\<exists>w' out. f v = Some (w', out) \<and> handled C e v msg w' out"
    using f [of v] handled_evolves [of C v] by blast
qed

lemma worker_handle_ok:
  assumes wf: "worker_wf C w"
  shows "\<exists>w' out. worker_handle C E w msg = Some (w', out) \<and> handled C (E 1) w msg w' out"
proof -
  let ?F = "\<lambda>i. E (i + 1)"
  note same = flush_evolves_ok [OF wf, where e = "E 1" and ?e0.0 = "E 0"]
  show ?thesis
  proof (cases msg)
    case MTick
    have "\<exists>w' out. flush_then (E 0) w (\<lambda>w. Some (on_tick C ?F w)) = Some (w', out) \<and> handled C (E 1) w msg w' out"
      using on_tick_ok [of C ?F] by (intro same) (use MTick in \<open>simp add: keys_after_def\<close>, metis surj_pair)
    then show ?thesis by (simp add: worker_handle_def MTick)
  next
    case (MUdpIn a m)
    have "\<exists>w' out. flush_then (E 0) w (\<lambda>w. on_udp_in C ?F w a m) = Some (w', out) \<and> handled C (E 1) w msg w' out"
      using on_udp_in_ok [of C _ ?F a m]
      by (intro same) (use MUdpIn in \<open>simp add: keys_after_def\<close>, use MUdpIn in \<open>simp add: inbound_def\<close>, metis)
    then show ?thesis by (simp add: worker_handle_def MUdpIn)
  next
    case (MRelayIn a m)
    have "\<exists>w' out. flush_then (E 0) w (\<lambda>w. on_framed_in C ?F w a m ViaRelay) = Some (w', out) \<and> handled C (E 1) w msg w' out"
      using on_framed_in_ok [of C _ ?F a m ViaRelay]
      by (intro same) (use MRelayIn in \<open>simp add: keys_after_def\<close>, use MRelayIn in \<open>simp add: inbound_def\<close>, metis)
    then show ?thesis by (simp add: worker_handle_def MRelayIn)
  next
    case (MTcpIn a m)
    have "\<exists>w' out. flush_then (E 0) w (\<lambda>w. on_framed_in C ?F w a m ViaTcp) = Some (w', out) \<and> handled C (E 1) w msg w' out"
      using on_framed_in_ok [of C _ ?F a m ViaTcp]
      by (intro same) (use MTcpIn in \<open>simp add: keys_after_def\<close>, use MTcpIn in \<open>simp add: inbound_def\<close>, metis)
    then show ?thesis by (simp add: worker_handle_def MTcpIn)
  next
    case (MUpdateCandidates pk cs)
    have "\<exists>w' out. flush_then (E 0) w (\<lambda>w. Some (on_update_candidates C (E 1) w pk cs)) = Some (w', out) \<and> handled C (E 1) w msg w' out"
      using on_update_candidates_ok [of C "E 1" _ pk cs]
      by (intro same) (use MUpdateCandidates in \<open>simp add: keys_after_def\<close>, metis surj_pair)
    then show ?thesis by (simp add: worker_handle_def MUpdateCandidates)
  next
    case (MTcpConn pk g c)
    then show ?thesis using handled_evolves [OF wf on_tcp_conn_ok] by (simp add: worker_handle_def keys_after_def)
  next
    case (MTunEgress pk pkt)
    then show ?thesis using handled_evolves [OF wf] on_tun_egress_ok [OF wf, of ?F pk pkt]
      by (cases "on_tun_egress C ?F w pk pkt") (simp add: worker_handle_def keys_after_def)
  next
    case (MAddPeer pk cs ips ini)
    have "\<exists>w' out. Some (on_add_peer C ?F v pk cs ips ini) = Some (w', out) \<and> handled C (E 1) v msg w' out"
      if "worker_wf C v" for v
      using on_add_peer_ok [OF that, of ?F pk cs ips ini] MAddPeer
      by (cases "on_add_peer C ?F v pk cs ips ini") (auto simp: handled_def keys_after_def sends_for_def list_all_iff)
    from flush_then_ok [OF wf this] show ?thesis by (simp add: worker_handle_def MAddPeer)
  next
    case (MRemovePeer pk)
    then show ?thesis using on_remove_peer_ok [OF wf, of pk] by (simp add: worker_handle_def handled_def keys_after_def)
  qed
qed

section \<open>A concrete worker\<close>

text \<open>One peer with an open session under receiver index 9, which may send from 10.0.0.0/8.\<close>

definition toy_env :: "nat \<Rightarrow> env" where
  "toy_env t = \<lparr>e_rng = toy_rng, e_now = t, e_boot = toy_clock, e_unix = 0, e_stamper = toy_stamper, e_relay = True,
     e_seg = Taken\<rparr>"

definition toy_open_tunnel :: noise where
  "toy_open_tunnel = toy_tunnel\<lparr>sessions := [None, Some toy_peer_session, None, None, None, None, None, None]\<rparr>"

definition toy_peer :: peer where
  "toy_peer = (peer_fresh toy_crypto [2] [SockV4 0x01020304 5000] False (peer_stat_new []) [1])
     \<lparr>p_raw := Some toy_open_tunnel, p_handshaked := True, p_last_recv_direct := Some 0\<rparr>"

definition toy_routes :: route_table where
  "toy_routes = \<lparr>rt_routes = [\<lparr>re_prefix = \<lparr>pfx_network = IpV4 0x0A000000, pfx_length = 8\<rparr>, re_peer = [2], re_worker = 0\<rparr>],
     rt_conflicts = {}\<rparr>"

definition toy_index :: "index_table \<times> index_owner" where
  "toy_index = index_insert (fst (index_start 0)) (snd (index_start 0)) 9 [2]"

definition toy_worker :: worker where
  "toy_worker = \<lparr>w_peers = [toy_peer], w_index = fst toy_index, w_own_priv = [1], w_own_pub = [1], w_force_relay = False,
     w_gso = gso_new False, w_routes = fmempty, w_owner = snd toy_index, w_peer_index = 1, w_status = {|[2]|},
     w_allowed = toy_routes\<rparr>"

lemma toy_peer_simps [simp]:
  "p_pubkey toy_peer = [2]" "p_handshaked toy_peer" "p_raw toy_peer = Some toy_open_tunnel" "p_last_recv_direct toy_peer = Some 0"
  "p_direct_addr toy_peer = Some (SockV4 0x01020304 5000)" "\<not> p_prefer_relay toy_peer" "\<not> p_prefer_tcp toy_peer"
  "p_rtt toy_peer = None" "\<not> p_relay_pinned toy_peer"
  by (simp_all add: toy_peer_def peer_fresh_def)

lemma toy_worker_simps [simp]:
  "w_peers toy_worker = [toy_peer]" "\<not> w_force_relay toy_worker" "w_own_priv toy_worker = [1]" "w_allowed toy_worker = toy_routes"
  by (simp_all add: toy_worker_def)

lemma toy_peer_ok: "peer_ok toy_crypto [1] toy_peer"
proof -
  have "sessions_ok (sessions toy_open_tunnel)"
    using default_win_rel by (auto simp: sessions_ok_def toy_open_tunnel_def N_SESSIONS_def session_ok_def toy_peer_session_def win_rel_def)
  moreover have "peer_static_public (params (handshake toy_open_tunnel)) = [2]"
    by (simp add: toy_open_tunnel_def toy_tunnel_def noise_new_def handshake_new_def noise_params_new_def Let_def)
  ultimately show ?thesis
    using peer_fresh_ok [of toy_crypto "[1]" "[2]" "[SockV4 0x01020304 5000]" False "peer_stat_new []"]
    by (simp add: toy_peer_def peer_ok_def tunnel_ok_def noise_ok_def peer_fresh_def)
qed

lemma toy_index_get: "index_get (fst toy_index) 9 = Some [2]" "fmlookup (snd toy_index) 9 = Some 0" "it_wid (fst toy_index) = 0"
  by (simp_all add: toy_index_def index_insert_def index_start_def index_table_new_def index_prune_def index_get_def Let_def)

lemma toy_worker_wf: "worker_wf toy_crypto toy_worker"
proof -
  have "index_ok (fst toy_index) (snd toy_index)"
    using index_insert_ok [of "fst (index_start 0)" "snd (index_start 0)" 9 "[2]" "fst toy_index" "snd toy_index"]
      index_start_ok [of 0] by (simp add: toy_index_def)
  moreover have "pk = [2]" if "index_get (fst toy_index) i = Some pk" for i pk
    using index_insert_get [of "fst (index_start 0)" "snd (index_start 0)" 9 "[2]" "fst toy_index" "snd toy_index" i pk] that
    by (simp add: toy_index_def [symmetric]) (simp add: index_start_def index_table_new_def index_get_def)
  ultimately show ?thesis using toy_peer_ok
    by (simp add: worker_wf_def worker_keys_def table_ok_def) (auto simp: toy_worker_def table_ok_def)
qed

text \<open>The packet that the other end of the session sends comes out of the tunnel.\<close>

lemma toy_delivery:
  obtains m raw' where "\<exists>rest. m = [4, 0, 0, 0, 9, 0, 0, 0] @ rest"
    "raw_on_recv toy_crypto toy_rng (toy_clock 0) (Some toy_open_tunnel) m (replicate 2048 0) = Some (raw', Inr toy_packet)"
proof -
  let ?m = "toy_tunnel\<lparr>sessions := [Some toy_session]\<rparr>"
  have zero: "current toy_tunnel = 0" by (simp add: toy_tunnel_def noise_new_def Let_def)
  have li: "local_index toy_peer_session = 9" by (simp add: local_index_def toy_peer_session_def)
  have mir: "mirrored toy_session toy_peer_session" by (simp add: mirrored_def toy_session_def toy_peer_session_def)
  obtain pkt n' where d: "encapsulate toy_crypto toy_rng toy_clock ?m toy_packet (replicate 2048 0) =
        (?m\<lparr>sessions := [Some (toy_session\<lparr>sending_key_counter := 1\<rparr>)]\<rparr>, Inr (WriteToNetwork pkt))"
      "decapsulate toy_crypto toy_rng (toy_clock 0) toy_open_tunnel pkt (replicate 2048 0) =
        Some (n', validate_decapsulated_packet toy_packet)"
    by (rule tunnel_data [where m = ?m and n = toy_open_tunnel and w = "(0, {})" and src = toy_packet and now = toy_clock
          and dst = "replicate 2048 0" and ?dst2.0 = "replicate 2048 0" and ?r' = toy_rng
          and later = "toy_clock 0" and s = toy_session, OF toy_crypto_ok toy_rng_ok _ _ _ mir])
      (use zero li default_win_rel in \<open>simp_all add: N_SESSIONS_def toy_session_def toy_peer_session_def
         MAX_NONCE_def toy_packet_def DATA_OVERHEAD_SZ_def toy_open_tunnel_def\<close>)
  have "\<exists>rest. pkt = to_le_bytes 4 DATA @ to_le_bytes 4 (sending_index toy_session) @ rest"
    using d(1) zero by (auto simp: encapsulate_def format_packet_data_def rbind_Inr_conv Let_def split: option.splits if_splits prod.splits)
  moreover have "to_le_bytes 4 DATA = [4, 0, 0, 0]" "to_le_bytes 4 (sending_index toy_session) = [9, 0, 0, 0]"
    by (simp_all add: DATA_def toy_session_def) code_simp+
  ultimately have "\<exists>rest. pkt = [4, 0, 0, 0, 9, 0, 0, 0] @ rest" by auto
  moreover have "raw_on_recv toy_crypto toy_rng (toy_clock 0) (Some toy_open_tunnel) pkt (replicate 2048 0) = Some (Some n', Inr toy_packet)"
    using d(2) toy_packet_valid by (auto simp: raw_on_recv_def cr_on_recv_def decapsulate_def split: sum.splits)
  ultimately show thesis by (rule that)
qed

lemma toy_header:
  assumes "\<exists>rest. m = [4, 0, 0, 0, 9, 0, 0, 0] @ rest"
  shows "first_byte m = T_DATA" "strip_magic m = None" "receiver_index m = Some 9"
  using assms by (auto simp: first_byte_def wg_types strip_magic_def DISCO_MAGIC_def receiver_index_def get_at_def le_u32_def
      get_slice_def slice_def from_le_bytes_def)

end
