(* ===== verification/Worker_Safety.thy ===== *)
theory Worker_Safety
  imports Worker_Invariants
begin

text \<open>
  What a data-plane worker guarantees: it handles every message and stays well formed, packets reach
  the tunnel interface only from an authenticated peer that may use their source address, a removed
  peer is cut off, an endpoint moves only on authenticated evidence from the new address, a datagram
  is dispatched to the worker that knows its peer, and the choice of path converges.
\<close>

section \<open>Bursts\<close>

definition adds_peer :: "peer_key \<Rightarrow> worker_msg \<Rightarrow> bool" where
  "adds_peer pk msg = (case msg of MAddPeer k _ _ _ \<Rightarrow> k = pk | _ \<Rightarrow> False)"

lemma worker_burst_ok:
  assumes "worker_wf C w"
  shows "\<exists>w' out. worker_burst C w msgs e = Some (w', out) \<and> worker_wf C w'"
  using assms
proof (induction msgs arbitrary: w)
  case Nil
  obtain w' out where "flush_gso e w = (w', out)" by (metis surj_pair)
  with flush_gso_ok [OF this, of C] worker_evolves_wf Nil show ?case by auto
next
  case (Cons x msgs)
  obtain E msg where x: "x = (E, msg)" by (cases x)
  obtain w1 out1 where 1: "worker_handle C E w msg = Some (w1, out1)" "worker_wf C w1"
    using worker_handle_ok [OF Cons.prems] unfolding handled_def by blast
  from Cons.IH [OF 1(2)] obtain w2 out2 where "worker_burst C w1 msgs e = Some (w2, out2)" "worker_wf C w2" by blast
  with 1(1) x show ?case by simp
qed

lemma worker_burst_without:
  assumes "worker_wf C w" "pk \<notin> worker_keys w" "\<not> list_ex (\<lambda>x. adds_peer pk (snd x)) msgs"
    "worker_burst C w msgs e = Some (w', out)"
  shows "worker_wf C w' \<and> pk \<notin> worker_keys w' \<and> (\<forall>m. RelayTo pk m \<notin> set out)"
  using assms
proof (induction msgs arbitrary: w out)
  case Nil
  then show ?case
    using flush_gso_ok [of e w w' out C "{}"] worker_evolves_wf worker_evolves_keys
    by (auto simp: sends_for_def list_all_iff)
next
  case (Cons x msgs)
  obtain E msg where x: "x = (E, msg)" by (cases x)
  obtain w1 out1 where 1: "worker_handle C E w msg = Some (w1, out1)" "handled C (E 1) w msg w1 out1"
    using worker_handle_ok [OF Cons.prems(1)] by blast
  then obtain out2 where 2: "worker_burst C w1 msgs e = Some (w', out2)" "out = out1 @ out2"
    using Cons.prems(4) x by (auto split: Option.bind_splits)
  have "pk \<notin> worker_keys w1"
    using 1(2) Cons.prems(2,3) x by (auto simp: handled_def keys_after_def adds_peer_def split: worker_msg.splits)
  moreover from this have "RelayTo pk m \<notin> set out1" for m using 1(2) Cons.prems(2) by (auto simp: handled_def)
  ultimately show ?case using Cons.IH [of w1 out2] 1(2) 2 Cons.prems(3) by (auto simp: handled_def)
qed

section \<open>Endpoints\<close>

text \<open>The evidence on which the endpoint of a peer moves: an answer to an outstanding probe, a
  packet its tunnel accepts, or an initiation that names the peer.\<close>

definition pong_evidence :: "crypto \<Rightarrow> (nat \<Rightarrow> env) \<Rightarrow> peer \<Rightarrow> socket_addr \<Rightarrow> bytes \<Rightarrow> bool" where
  "pong_evidence C E p from m \<longleftrightarrow>
     (\<exists>body tx_id observed used. strip_magic m = Some body \<and> disco_decode body = Inr (DiscoPong tx_id observed, used) \<and>
        disco_authed C (p_disco_key p) m body used \<and> probe_pending (p_probes p) tx_id from (e_unix (E 0)) \<and>
        disco_replay_ok (e_unix (E 1)) tx_id)"

definition packet_evidence :: "crypto \<Rightarrow> env \<Rightarrow> peer \<Rightarrow> bytes \<Rightarrow> bool" where
  "packet_evidence C e p m \<longleftrightarrow>
     (\<exists>raw. raw_handle_handshake_response C (e_boot e 0) (p_raw p) m = (raw, Inr ())) \<or>
     (\<exists>raw pkt. raw_on_recv C (e_rng e) (e_boot e 0) (p_raw p) m (replicate 2048 0) = Some (raw, Inr pkt))"

definition rekey_evidence :: "crypto \<Rightarrow> env \<Rightarrow> peer \<Rightarrow> bytes \<Rightarrow> bool" where
  "rekey_evidence C e p m \<longleftrightarrow>
     (\<exists>raw resp. raw_rekey_respond C (e_rng e) (e_boot e 0) (p_raw p) m (replicate 256 0) = Some (raw, Inr resp))"

definition init_evidence :: "crypto \<Rightarrow> env \<Rightarrow> bytes \<Rightarrow> bytes \<Rightarrow> peer \<Rightarrow> bytes \<Rightarrow> bool" where
  "init_evidence C e own_priv own_pub p m \<longleftrightarrow>
     (\<exists>i i' fresh resp. raw_handle_handshake C (e_rng e) (e_boot e 0) (e_stamper e) i None own_priv own_pub m =
        Some (i', fresh, Inr resp) \<and> raw_get_peer_public fresh = Inr (p_pubkey p))"

definition moves :: "socket_addr option \<Rightarrow> via \<Rightarrow> (peer \<Rightarrow> bool) \<Rightarrow> peer \<Rightarrow> peer \<Rightarrow> bool" where
  "moves from via ev p p' \<longleftrightarrow> p_pubkey p' = p_pubkey p \<and>
     (p_direct_addr p' \<noteq> p_direct_addr p \<longrightarrow> via = ViaUdp \<and> from \<noteq> None \<and> p_direct_addr p' = from \<and> ev p)"

lemma moves_refl [simp]: "moves from via ev p p"
  by (simp add: moves_def)

lemma moves_all_refl [simp]: "list_all2 (moves from via ev) ps ps"
  by (simp add: list.rel_refl)

lemma moves_upd_first:
  "List.find P ps = Some p \<Longrightarrow> moves from via ev p p' \<Longrightarrow> list_all2 (moves from via ev) ps (upd_first P p' ps)"
  by (induction ps) (auto split: if_splits)

lemma set_path_moves: "p_pubkey (set_path now p from via) = p_pubkey p"
  "p_direct_addr (set_path now p from via) \<noteq> p_direct_addr p \<Longrightarrow>
     via = ViaUdp \<and> from \<noteq> None \<and> p_direct_addr (set_path now p from via) = from"
  by (auto simp: set_path_def Let_def split: via.splits option.splits if_splits)

lemma adopt_init_moves:
  assumes "adopt_init E force_relay p t owner m from via resp = (p', t', owner', out)"
  shows "p_pubkey p' = p_pubkey p"
    "p_direct_addr p' \<noteq> p_direct_addr p \<Longrightarrow> via = ViaUdp \<and> from \<noteq> None \<and> p_direct_addr p' = from"
  using assms set_path_moves [of "e_now (E 1)" "p\<lparr>p_last_init := Some m\<rparr>" "from" via]
  by (auto simp: adopt_init_def Let_def split: option.splits prod.splits)

lemma accept_rekey_moves:
  assumes "accept_rekey C E force_relay p t owner m from via = Some (taken, p', t', owner', out)"
  shows "moves from via (\<lambda>p. rekey_evidence C (E 0) p m) p p' \<and> (\<not> taken \<longrightarrow> p_direct_addr p' = p_direct_addr p)"
proof -
  obtain raw res where r: "raw_rekey_respond C (e_rng (E 0)) (e_boot (E 0) 0) (p_raw p) m (replicate 256 0) = Some (raw, res)"
    using assms by (auto simp: accept_rekey_def split: Option.bind_splits)
  show ?thesis
  proof (cases res)
    case (Inr resp)
    then have "adopt_init E force_relay (p\<lparr>p_raw := raw\<rparr>) t owner m from via resp = (p', t', owner', out)" "taken"
      using assms r by (simp_all add: accept_rekey_def)
    with adopt_init_moves [OF this(1)] r Inr show ?thesis by (auto simp: moves_def rekey_evidence_def)
  qed (use assms r in \<open>auto simp: accept_rekey_def moves_def\<close>)
qed

lemma accept_fresh_moves:
  assumes "accept_fresh C E force_relay peers i own_priv own_pub t owner m from via = Some (peers', i', t', owner', out)"
  shows "list_all2 (moves from via (\<lambda>p. init_evidence C (E 0) own_priv own_pub p m)) peers peers'"
proof -
  obtain i1 fresh res where
    r: "raw_handle_handshake C (e_rng (E 0)) (e_boot (E 0) 0) (e_stamper (E 0)) i None own_priv own_pub m = Some (i1, fresh, res)"
    using assms by (auto simp: accept_fresh_def split: Option.bind_splits)
  show ?thesis
  proof (cases "\<exists>resp pk p. res = Inr resp \<and> raw_get_peer_public fresh = Inr pk \<and>
      List.find (\<lambda>p. p_pubkey p = pk) peers = Some p")
    case False
    then have "peers' = peers" using assms r by (auto simp: accept_fresh_def split: sum.splits option.splits)
    then show ?thesis by simp
  next
    case True
    then obtain resp pk p where c: "res = Inr resp" "raw_get_peer_public fresh = Inr pk"
      "List.find (\<lambda>p. p_pubkey p = pk) peers = Some p" by blast
    obtain t1 o1 where t1: "index_remove_peer t owner pk = (t1, o1)" by (cases "index_remove_peer t owner pk")
    obtain p' where a: "adopt_init E force_relay (p\<lparr>p_raw := fresh, p_handshaked := True\<rparr>) t1 o1 m from via resp =
        (p', t', owner', out)" "peers' = upd_first (\<lambda>p. p_pubkey p = pk) p' peers"
      using assms r c t1 by (auto simp: accept_fresh_def split: prod.splits)
    have "p_pubkey p = pk" using c(3) by (auto simp: find_Some_iff)
    then have "init_evidence C (E 0) own_priv own_pub p m" using r c unfolding init_evidence_def by blast
    then have "moves from via (\<lambda>p. init_evidence C (E 0) own_priv own_pub p m) p p'"
      using adopt_init_moves [OF a(1)] by (auto simp: moves_def)
    from moves_upd_first [OF c(3) this] show ?thesis by (simp add: a(2))
  qed
qed

lemma moves_trans:
  assumes "list_all2 (moves from via ev) ps qs" "list_all2 (moves from via ev') qs rs"
    "\<And>p q. ev' q \<Longrightarrow> p_pubkey q = p_pubkey p \<Longrightarrow> p \<in> set ps \<Longrightarrow> q \<in> set qs \<Longrightarrow> ev p"
  shows "list_all2 (moves from via ev) ps rs"
  using assms
proof (induction ps arbitrary: qs rs)
  case Nil
  then show ?case by simp
next
  case (Cons p ps)
  obtain q qs' r rs' where e: "qs = q # qs'" "rs = r # rs'" "moves from via ev p q" "moves from via ev' q r"
    "list_all2 (moves from via ev) ps qs'" "list_all2 (moves from via ev') qs' rs'"
    using Cons.prems(1,2) by (auto simp: list_all2_Cons1)
  have "moves from via ev p r" using e(3,4) Cons.prems(3) [of q p] e(1) by (auto simp: moves_def)
  moreover have "list_all2 (moves from via ev) ps rs'"
    by (rule Cons.IH [OF e(5,6)]) (use Cons.prems(3) e(1) in auto)
  ultimately show ?case by (simp add: e(2))
qed

lemma moves_mono:
  "list_all2 (moves from via ev) ps qs \<Longrightarrow> (\<And>p. p \<in> set ps \<Longrightarrow> ev p \<Longrightarrow> ev' p) \<Longrightarrow> list_all2 (moves from via ev') ps qs"
  by (induction rule: list_all2_induct) (auto simp: moves_def)

text \<open>An initiation moves a peer on evidence for that peer.\<close>

definition handshake_evidence :: "crypto \<Rightarrow> (nat \<Rightarrow> env) \<Rightarrow> bytes \<Rightarrow> bytes \<Rightarrow> peer \<Rightarrow> bytes \<Rightarrow> bool" where
  "handshake_evidence C E own_priv own_pub p m \<longleftrightarrow>
     rekey_evidence C (E 0) p m \<or> (\<exists>j. init_evidence C (E j) own_priv own_pub p m)"

lemma accept_init_moves:
  assumes "accept_init C E force_relay peers i own_priv own_pub t owner m from via = Some (peers', i', t', owner', out)"
  shows "list_all2 (moves from via (\<lambda>p. handshake_evidence C E own_priv own_pub p m)) peers peers'"
proof (cases "List.find (\<lambda>p. p_last_init p = Some m) peers")
  case (Some p)
  then show ?thesis using assms by (auto simp: accept_init_def)
next
  case new: None
  show ?thesis
  proof (cases "\<exists>pk p. peek_init_pubkey C own_priv own_pub m = Some pk \<and>
      list_ex (\<lambda>p. p_pubkey p = pk \<and> p_handshaked p) peers \<and> List.find (\<lambda>p. p_pubkey p = pk) peers = Some p")
    case False
    then have "accept_fresh C E force_relay peers i own_priv own_pub t owner m from via = Some (peers', i', t', owner', out)"
      using new assms by (auto simp: accept_init_def split: option.splits if_splits)
    from accept_fresh_moves [OF this] show ?thesis
      by (rule moves_mono) (auto simp: handshake_evidence_def)
  next
    case True
    then obtain pk p where k: "peek_init_pubkey C own_priv own_pub m = Some pk"
      "list_ex (\<lambda>p. p_pubkey p = pk \<and> p_handshaked p) peers" "List.find (\<lambda>p. p_pubkey p = pk) peers = Some p" by blast
    then obtain taken p' t1 o1 out1 where a: "accept_rekey C E force_relay p t owner m from via = Some (taken, p', t1, o1, out1)"
      using assms new by (auto simp: accept_init_def split: Option.bind_splits)
    let ?ps = "upd_first (\<lambda>p. p_pubkey p = pk) p' peers"
    have "moves from via (\<lambda>p. handshake_evidence C E own_priv own_pub p m) p p'"
      using accept_rekey_moves [OF a] by (auto simp: moves_def handshake_evidence_def)
    note 1 = moves_upd_first [OF k(3) this]
    show ?thesis
    proof (cases taken)
      case True
      then show ?thesis using 1 assms new k a by (simp add: accept_init_def)
    next
      case False
      then have "accept_fresh C (\<lambda>i. E (i + 6)) force_relay ?ps i own_priv own_pub t1 o1 m from via = Some (peers', i', t', owner', out)"
        using assms new k a by (simp add: accept_init_def)
      note 2 = accept_fresh_moves [OF this]
      show ?thesis
      proof (rule moves_trans [OF 1 2])
        fix p q :: peer assume "init_evidence C (E (0 + 6)) own_priv own_pub q m" "p_pubkey q = p_pubkey p"
        then have "init_evidence C (E 6) own_priv own_pub p m" by (simp add: init_evidence_def)
        then show "handshake_evidence C E own_priv own_pub p m" unfolding handshake_evidence_def by blast
      qed
    qed
  qed
qed

lemma handle_wg_moves:
  assumes "handle_wg C E force_relay p t owner m from via = Some (p', t', owner', out, packet)"
  shows "moves from via (\<lambda>p. packet_evidence C (E 0) p m) p p'"
proof -
  consider (response) "first_byte m = T_HANDSHAKE_RESP" "wg_response C E force_relay p t owner m from via = (p', t', owner', out)"
    | (data) "wg_data C E p t owner m from via = Some (p', t', owner', packet)" | (other) "p' = p"
    using assms by (auto simp: handle_wg_def split: if_splits prod.splits Option.bind_splits)
  then show ?thesis
  proof cases
    case response
    obtain raw res where r: "raw_handle_handshake_response C (e_boot (E 0) 0) (p_raw p) m = (raw, res)" by (metis surj_pair)
    show ?thesis
    proof (cases res)
      case (Inr u)
      have "packet_evidence C (E 0) p m" using r Inr by (auto simp: packet_evidence_def)
      then show ?thesis
        using response(2) r Inr set_path_moves [of "e_now (E 1)" "p\<lparr>p_raw := raw\<rparr>" "from" via]
        by (auto simp: wg_response_def note_rtt_def moves_def Let_def split: prod.splits option.splits)
    qed (use response(2) r in \<open>auto simp: wg_response_def moves_def\<close>)
  next
    case data
    obtain raw res where r: "raw_on_recv C (e_rng (E 0)) (e_boot (E 0) 0) (p_raw p) m (replicate 2048 0) = Some (raw, res)"
      using data by (auto simp: wg_data_def split: Option.bind_splits)
    show ?thesis
    proof (cases res)
      case (Inr pkt)
      have "packet_evidence C (E 0) p m" using r Inr by (auto simp: packet_evidence_def)
      then show ?thesis
        using data r Inr set_path_moves [of "e_now (E 1)" "authenticated_data (p\<lparr>p_raw := raw\<rparr>)" "from" via]
        by (auto simp: wg_data_def authenticated_data_def moves_def Let_def split: prod.splits)
    qed (use data r in \<open>auto simp: wg_data_def moves_def\<close>)
  qed simp
qed

lemma deliver_wg_moves:
  assumes "deliver_wg C E w pk m from via = Some (w', out)"
  shows "list_all2 (moves from via (\<lambda>p. packet_evidence C (E 0) p m)) (w_peers w) (w_peers w')"
proof (cases "List.find (\<lambda>p. p_pubkey p = pk) (w_peers w)")
  case None
  then show ?thesis using assms by (simp add: deliver_wg_def)
next
  case (Some p)
  then obtain p' t owner out1 packet where h: "handle_wg C E (w_force_relay w) p (w_index w) (w_owner w) m from via =
      Some (p', t, owner, out1, packet)" using assms by (auto simp: deliver_wg_def split: Option.bind_splits)
  then obtain q where q: "w_peers w' = upd_first (\<lambda>p. p_pubkey p = pk) q (w_peers w)" "p_pubkey q = p_pubkey p'"
      "p_direct_addr q = p_direct_addr p'"
    using assms Some by (auto simp: deliver_wg_def split: option.splits if_splits)
  have "moves from via (\<lambda>p. packet_evidence C (E 0) p m) p q" using handle_wg_moves [OF h] q(2,3) by (auto simp: moves_def)
  from moves_upd_first [OF Some this] show ?thesis by (simp add: q(1))
qed

lemma on_disco_moves:
  assumes "on_disco C E w from m = (w', out)"
  shows "list_all2 (moves (Some from) ViaUdp (\<lambda>p. pong_evidence C E p from m)) (w_peers w) (w_peers w')"
proof -
  consider (same) "w' = w"
    | (ping) body used tx_id sender_key where "on_disco_ping C E w from m body used tx_id sender_key = (w', out)"
    | (pong) body used tx_id observed where "strip_magic m = Some body" "disco_decode body = Inr (DiscoPong tx_id observed, used)"
        "w' = on_disco_pong C E w from m body used tx_id"
    using assms by (auto simp: on_disco_def split: option.splits sum.splits disco.splits prod.splits)
  then show ?thesis
  proof cases
    case ping
    show ?thesis
    proof (cases "List.find (\<lambda>p. p_pubkey p = sender_key) (w_peers w)")
      case (Some p)
      have "w' = w \<or> (\<exists>q. w_peers w' = upd_first (\<lambda>p. p_pubkey p = sender_key) q (w_peers w) \<and>
          p_pubkey q = p_pubkey p \<and> p_direct_addr q = p_direct_addr p)"
        using ping Some by (auto simp: on_disco_ping_def disco_ping_to_def Let_def split: if_splits prod.splits)
      then show ?thesis using moves_upd_first [OF Some] by (auto simp: moves_def)
    qed (use ping in \<open>simp add: on_disco_ping_def\<close>)
  next
    case pong
    let ?P = "\<lambda>p. probe_pending (p_probes p) tx_id from (e_unix (E 0))"
    show ?thesis
    proof (cases "List.find ?P (w_peers w)")
      case (Some p)
      then have pend: "?P p" by (auto simp: find_Some_iff)
      have "w' = w \<or> (\<exists>q. w_peers w' = upd_first ?P q (w_peers w) \<and> p_pubkey q = p_pubkey p \<and> p_direct_addr q = Some from \<and>
          disco_authed C (p_disco_key p) m body used \<and> disco_replay_ok (e_unix (E 1)) tx_id)"
        unfolding pong(3) using Some by (auto simp: on_disco_pong_def Let_def split: if_splits prod.splits)
      moreover have "pong_evidence C E p from m" if "disco_authed C (p_disco_key p) m body used" "disco_replay_ok (e_unix (E 1)) tx_id"
        using that pend pong(1,2) unfolding pong_evidence_def by blast
      ultimately show ?thesis using moves_upd_first [OF Some] by (auto simp: moves_def)
    qed (simp add: pong(3) on_disco_pong_def)
  qed simp
qed

lemma moves_member:
  assumes "list_all2 (moves from via ev) ps qs" "distinct (map p_pubkey ps)" "p \<in> set ps" "q \<in> set qs" "p_pubkey q = p_pubkey p"
  shows "moves from via ev p q"
proof -
  obtain i where i: "i < length ps" "p = ps ! i" using assms(3) by (auto simp: in_set_conv_nth)
  obtain j where j: "j < length qs" "q = qs ! j" using assms(4) by (auto simp: in_set_conv_nth)
  have len: "length qs = length ps" and m: "moves from via ev (ps ! j) (qs ! j)"
    using assms(1) j by (auto simp: list_all2_conv_all_nth)
  then have "map p_pubkey ps ! j = map p_pubkey ps ! i" using assms(5) i j by (simp add: moves_def)
  then have "j = i" using assms(2) i j len by (simp add: nth_eq_iff_index_eq del: nth_map)
  then show ?thesis using m i j by simp
qed

text \<open>Every other handler leaves the endpoints alone.\<close>

abbreviation same_endpoints :: "peer list \<Rightarrow> peer list \<Rightarrow> bool" where
  "same_endpoints \<equiv> list_all2 (moves None ViaRelay (\<lambda>_. False))"

lemma same_endpoints_iff:
  "same_endpoints ps qs \<longleftrightarrow> map p_pubkey qs = map p_pubkey ps \<and> map p_direct_addr qs = map p_direct_addr ps"
  by (auto simp: list_all2_conv_all_nth moves_def list_eq_iff_nth_eq)

lemma on_tcp_conn_same: "same_endpoints (w_peers w) (w_peers (on_tcp_conn w pk g out))"
proof (cases "List.find (\<lambda>p. p_pubkey p = pk) (w_peers w)")
  case (Some p)
  then show ?thesis
    by (auto simp: on_tcp_conn_def Let_def moves_def intro!: moves_upd_first [OF Some] split: option.split)
qed (simp add: on_tcp_conn_def)

lemma on_update_candidates_same:
  assumes "on_update_candidates C e w pk cs = (w', out)"
  shows "same_endpoints (w_peers w) (w_peers w')"
proof (cases "List.find (\<lambda>p. p_pubkey p = pk) (w_peers w)")
  case (Some p)
  obtain w1 q pings where d: "probe_peer C e w (p\<lparr>p_candidates := cs, p_disco_validated := False\<rparr>) = (w1, q, pings)"
    by (metis prod_cases3)
  note d' = probe_peer_ok [OF d, of "w_own_priv w" "{}"]
  have "moves None ViaRelay (\<lambda>_. False) p q" using d' by (auto simp: moves_def evolves_def)
  from moves_upd_first [OF Some this] show ?thesis using assms Some d d' by (auto simp: on_update_candidates_def)
qed (use assms in \<open>simp add: on_update_candidates_def\<close>)

lemma flush_gso_peers: "w_peers (fst (flush_gso e w)) = w_peers w"
  by (simp add: flush_gso_def Let_def split: prod.split)

lemma on_tun_egress_same:
  assumes "on_tun_egress C E w pk pkt = (w', out)"
  shows "same_endpoints (w_peers w) (w_peers w')"
proof (cases "List.find (\<lambda>p. p_pubkey p = pk \<and> p_handshaked p) (w_peers w)")
  case (Some p)
  let ?P = "\<lambda>p. p_pubkey p = pk \<and> p_handshaked p"
  have P: "?P p" using Some by (auto simp: find_Some_iff)
  have fl: "w_peers v' = w_peers v" if "flush_gso e v = (v', ds)" for e v v' ds
    using flush_gso_peers [of e v] that by simp
  have "\<exists>q. w_peers w' = upd_first ?P q (w_peers w) \<and> p_pubkey q = p_pubkey p \<and> p_direct_addr q = p_direct_addr p"
    using assms Some P
    by (auto simp: on_tun_egress_def Let_def upd_first_twice dest!: fl split: prod.splits sum.splits if_splits option.splits)
  then show ?thesis using moves_upd_first [OF Some] by (auto simp: moves_def)
qed (use assms in \<open>simp add: on_tun_egress_def\<close>)

lemma flush_thenD:
  assumes "flush_then e w f = Some (w', out)"
  obtains b out1 out2 where "f (w\<lparr>w_gso := b\<rparr>) = Some (w', out2)"
  using assms by (auto simp: flush_then_def flush_gso_def Let_def split: prod.splits Option.bind_splits)

definition endpoint_evidence :: "crypto \<Rightarrow> (nat \<Rightarrow> env) \<Rightarrow> worker \<Rightarrow> peer \<Rightarrow> socket_addr \<Rightarrow> bytes \<Rightarrow> bool" where
  "endpoint_evidence C E w p from m \<longleftrightarrow> pong_evidence C E p from m \<or> packet_evidence C (E 0) p m \<or>
     handshake_evidence C E (w_own_priv w) (w_own_pub w) p m"

lemma worker_accept_moves:
  assumes "worker_accept C E w m from via = Some (w', out)"
  shows "list_all2 (moves from via (\<lambda>p. handshake_evidence C E (w_own_priv w) (w_own_pub w) p m)) (w_peers w) (w_peers w')"
  using assms by (auto simp: worker_accept_def split: Option.bind_splits dest!: accept_init_moves)

lemma on_udp_in_moves:
  assumes "on_udp_in C E w from m = Some (w', out)"
  shows "list_all2 (moves (Some from) ViaUdp (\<lambda>p. endpoint_evidence C E w p from m)) (w_peers w) (w_peers w')"
proof -
  consider "on_disco C E w from m = (w', out)" | "worker_accept C E w m (Some from) ViaUdp = Some (w', out)"
    | pk where "deliver_wg C E w pk m (Some from) ViaUdp = Some (w', out)" | "w' = w"
    using assms by (auto simp: on_udp_in_def split: if_splits option.splits)
  then show ?thesis
    by cases (auto simp: endpoint_evidence_def dest!: on_disco_moves worker_accept_moves deliver_wg_moves elim!: moves_mono)
qed

lemma on_framed_in_same:
  assumes "on_framed_in C E w src m via = Some (w', out)"
  shows "same_endpoints (w_peers w) (w_peers w')"
  using assms
  by (auto simp: on_framed_in_def moves_def split: if_splits dest!: worker_accept_moves deliver_wg_moves elim!: list_all2_mono)

lemma on_tick_same: "on_tick C E w = (w', out) \<Longrightarrow> same_endpoints (w_peers w) (w_peers w')"
  using on_tick_ok [of C E w w' out] worker_evolves_keys [of C w w'] by (simp add: same_endpoints_iff)

lemma add_peer_frames:
  "start_handshake C E w p = (w', p', out) \<Longrightarrow> w_peers w' = w_peers w \<and> p_pubkey p' = p_pubkey p"
  "probe_peer C e w p = (w', p', out) \<Longrightarrow> w_peers w' = w_peers w \<and> p_pubkey p' = p_pubkey p"
  using probe_peer_ok [of C e w p w' p' out "[]" "{}"]
  by (auto simp: start_handshake_def evolves_def Let_def split: prod.splits sum.splits)

lemma on_add_peer_peers:
  assumes "on_add_peer C E w pk cs ips ini = (w', out)"
  shows "w_peers w' = w_peers w \<or> (\<exists>q. w_peers w' = w_peers w @ [q] \<and> p_pubkey q = pk \<and> pk \<notin> worker_keys w)"
proof (cases "list_ex (\<lambda>p. p_pubkey p = pk) (w_peers w)")
  case True
  then show ?thesis using assms by (simp add: on_add_peer_def)
next
  case False
  define w0 where "w0 = w\<lparr>w_status := finsert pk (w_status w)\<rparr>"
  define p0 where "p0 = peer_fresh C pk cs (w_force_relay w0) (peer_stat_new ips) (w_own_priv w0)"
  obtain w1 p1 pings where 1: "probe_peer C (E 0) w0 p0 = (w1, p1, pings)" by (metis prod_cases3)
  obtain w2 p2 inits where 2: "(if ini then start_handshake C (\<lambda>i. E (i + 1)) w1 p1 else (w1, p1, [])) = (w2, p2, inits)"
    by (metis prod_cases3)
  have "w' = w2\<lparr>w_peers := w_peers w2 @ [p2]\<rparr>"
    using assms False unfolding on_add_peer_def Let_def p0_def [symmetric] w0_def [symmetric] 1 prod.case 2 by simp
  moreover have "w_peers w2 = w_peers w1 \<and> p_pubkey p2 = p_pubkey p1" using 2 add_peer_frames(1) by (auto split: if_splits)
  ultimately show ?thesis using add_peer_frames(2) [OF 1] False
    by (auto simp: w0_def p0_def peer_fresh_def worker_keys_def list_ex_iff)
qed

lemma worker_handle_moves:
  assumes h: "worker_handle C E w msg = Some (w', out)"
  shows "(\<exists>from m. msg = MUdpIn from m \<and>
      list_all2 (moves (Some from) ViaUdp (\<lambda>p. endpoint_evidence C (\<lambda>i. E (i + 1)) w p from m)) (w_peers w) (w_peers w')) \<or>
    same_endpoints (w_peers w) (w_peers w') \<or> set (w_peers w') \<subseteq> set (w_peers w) \<or>
    (\<exists>q. w_peers w' = w_peers w @ [q] \<and> p_pubkey q \<notin> worker_keys w)"
proof -
  have own: "endpoint_evidence C F (w\<lparr>w_gso := b\<rparr>) = endpoint_evidence C F w" for F b
    by (simp add: endpoint_evidence_def fun_eq_iff)
  show ?thesis
  proof (cases msg)
    case (MUdpIn a m)
    then obtain b out2 where "on_udp_in C (\<lambda>i. E (i + 1)) (w\<lparr>w_gso := b\<rparr>) a m = Some (w', out2)"
      using h by (auto simp: worker_handle_def elim: flush_thenD)
    from on_udp_in_moves [OF this] MUdpIn show ?thesis by (auto simp: own)
  next
    case (MAddPeer pk cs ips ini)
    then obtain b out2 where "on_add_peer C (\<lambda>i. E (i + 1)) (w\<lparr>w_gso := b\<rparr>) pk cs ips ini = (w', out2)"
      using h by (auto simp: worker_handle_def elim!: flush_thenD)
    from on_add_peer_peers [OF this] show ?thesis by (auto simp: worker_keys_def)
  next
    case (MRemovePeer pk)
    then show ?thesis using h by (auto simp: worker_handle_def on_remove_peer_def Let_def split: if_splits prod.splits)
  qed (use h in \<open>auto simp: worker_handle_def intro: on_tcp_conn_same on_tun_egress_same elim!: flush_thenD
      dest!: on_tick_same on_framed_in_same on_update_candidates_same\<close>)
qed

section \<open>Properties\<close>

text \<open>
  C9. A worker handles every burst of messages, whatever datagrams, commands and clock readings it
  consists of, and stays well formed: peers have distinct keys, the tunnel of a peer belongs to that
  peer's key, a peer that has shaken hands has a tunnel, a pinned peer prefers the relay, receiver
  indices name known peers, and the counters stay in their range.
\<close>

theorem worker_stays_well_formed:
  assumes "worker_wf C w"
  shows "\<exists>w' out. worker_burst C w msgs e = Some (w', out) \<and> worker_wf C w'"
  using assms by (rule worker_burst_ok)

theorem worker_stays_well_formed_witness:
  "\<exists>w' out. worker_burst toy_crypto toy_worker [(\<lambda>_. toy_env 0, MTick), (\<lambda>_. toy_env 0, MUdpIn (SockV4 1 2) [4, 0, 0, 0]),
     (\<lambda>_. toy_env 1, MRemovePeer [2])] (toy_env 2) = Some (w', out) \<and> worker_wf toy_crypto w'"
  by (rule worker_stays_well_formed) (rule toy_worker_wf)

text \<open>
  C10. What reaches the tunnel interface is authorised: a packet the worker writes there was just
  received, came out of the tunnel of one of its peers, whose session is with that peer's key, and
  its source address routes to that very peer.
\<close>

theorem tunnel_packets_authorised:
  assumes wf: "worker_wf C w" and h: "worker_handle C E w msg = Some (w', out)" and t: "TunTo pkt \<in> set out"
  shows "\<exists>m p n raw' source r. inbound msg = Some m \<and> p \<in> set (w_peers w) \<and> p_raw p = Some n \<and>
    peer_static_public (params (handshake n)) = p_pubkey p \<and>
    raw_on_recv C (e_rng (E 1)) (e_boot (E 1) 0) (p_raw p) m (replicate 2048 0) = Some (raw', Inr pkt) \<and>
    src_address pkt = Some source \<and> route_for (w_allowed w) source = Some r \<and> re_peer r = p_pubkey p"
proof -
  have "handled C (E 1) w msg w' out" using worker_handle_ok [OF wf, of E msg] h by simp
  with t obtain m p where m: "inbound msg = Some m" "p \<in> set (w_peers w)" "delivers C (E 1) w p m pkt"
    unfolding handled_def by blast
  then obtain raw' where r: "raw_on_recv C (e_rng (E 1)) (e_boot (E 1) 0) (p_raw p) m (replicate 2048 0) = Some (raw', Inr pkt)"
    by (auto simp: delivers_def)
  then obtain n where n: "p_raw p = Some n" by (cases "p_raw p") (auto simp: raw_on_recv_def)
  have "peer_ok C (w_own_priv w) p" using wf m(2) by (simp add: worker_wf_def list_all_iff)
  then have "peer_static_public (params (handshake n)) = p_pubkey p" by (simp add: peer_ok_def n tunnel_ok_def)
  moreover obtain source e where "src_address pkt = Some source" "route_for (w_allowed w) source = Some e" "re_peer e = p_pubkey p"
    using m(3) by (auto simp: delivers_def accepts_source_def split: option.splits)
  ultimately show ?thesis using m(1,2) n r by blast
qed

theorem tunnel_packets_authorised_witness:
  "\<exists>m w' out. worker_handle toy_crypto (\<lambda>_. toy_env 0) toy_worker (MRelayIn [2] m) = Some (w', out) \<and>
     TunTo toy_packet \<in> set out \<and> (\<exists>source r. src_address toy_packet = Some source \<and> route_for toy_routes source = Some r \<and> re_peer r = [2])"
proof -
  obtain m raw' where m: "\<exists>rest. m = [4, 0, 0, 0, 9, 0, 0, 0] @ rest"
    "raw_on_recv toy_crypto toy_rng (toy_clock 0) (Some toy_open_tunnel) m (replicate 2048 0) = Some (raw', Inr toy_packet)"
    using toy_delivery .
  have "length toy_packet = 20" "toy_packet ! 0 = 69" "slice 12 16 toy_packet = [10, 0, 0, 1]" "toy_packet \<noteq> []"
    by (simp_all add: toy_packet_def slice_def)
  moreover have "ipv4_from [10, 0, 0, 1] = IpV4 0x0A000001" by (simp add: ipv4_from_def from_be_bytes_def)
  moreover have "drop_bit 4 (69 :: byte) = 4" by simp
  ultimately have "src_address toy_packet = Some (IpV4 0x0A000001)"
    by (simp add: src_address_def IPV4_MIN_HEADER_SIZE_def IPV4_SRC_IP_OFF_def IPV4_IP_SZ_def)
  moreover have "(0x0A000001 :: u32) AND prefix_mask 8 = 0x0A000000" by (simp add: prefix_mask_def mask_eq_exp_minus_1)
  ultimately have acc: "accepts_source toy_routes [2] toy_packet"
    by (simp add: accepts_source_def route_for_def toy_routes_def prefix_contains_def)
  have "\<exists>w' out. worker_handle toy_crypto (\<lambda>_. toy_env 0) toy_worker (MRelayIn [2] m) = Some (w', out) \<and> TunTo toy_packet \<in> set out"
    using m(2) toy_header(1) [OF m(1)] acc
    by (auto simp: worker_handle_def flush_then_def flush_gso_def gso_flush_def gso_new_def on_framed_in_def deliver_wg_def
        handle_wg_def wg_data_def wg_types toy_env_def toy_worker_def toy_packet_def udp_outputs_def Let_def
        authenticated_data_def set_path_def split: prod.splits)
  then obtain w' out where h: "worker_handle toy_crypto (\<lambda>_. toy_env 0) toy_worker (MRelayIn [2] m) = Some (w', out)"
      "TunTo toy_packet \<in> set out" by blast
  from tunnel_packets_authorised [OF toy_worker_wf h]
  have "\<exists>source r. src_address toy_packet = Some source \<and> route_for toy_routes source = Some r \<and> re_peer r = [2]" by auto
  with h show ?thesis by blast
qed

text \<open>
  C16. A removed peer is cut off: once its removal has been handled, no burst of messages that does
  not add it again lets the worker know it, route a receiver index to it or send to it over the
  relay.
\<close>

theorem removed_peer_cut_off:
  assumes "worker_wf C w" "\<not> list_ex (\<lambda>x. adds_peer pk (snd x)) msgs"
    "worker_burst C w ((E, MRemovePeer pk) # msgs) e = Some (w', out)"
  shows "pk \<notin> worker_keys w' \<and> (\<forall>idx. index_get (w_index w') idx \<noteq> Some pk) \<and> (\<forall>m. RelayTo pk m \<notin> set out)"
proof -
  have "worker_burst C (on_remove_peer w pk) msgs e = Some (w', out)"
    using assms(3) by (auto simp: worker_handle_def split: Option.bind_splits)
  with worker_burst_without [of C "on_remove_peer w pk" pk msgs e w' out] on_remove_peer_ok [OF assms(1), of pk] assms(2)
  show ?thesis by (auto simp: worker_wf_def table_ok_def)
qed

theorem removed_peer_cut_off_witness:
  "\<exists>w' out. worker_burst toy_crypto toy_worker [(\<lambda>_. toy_env 0, MRemovePeer [2]), (\<lambda>_. toy_env 0, MTunEgress [2] toy_packet)]
     (toy_env 0) = Some (w', out) \<and> [2] \<notin> worker_keys w' \<and> (\<forall>m. RelayTo [2] m \<notin> set out)"
proof -
  obtain w' out where b: "worker_burst toy_crypto toy_worker [(\<lambda>_. toy_env 0, MRemovePeer [2]), (\<lambda>_. toy_env 0, MTunEgress [2] toy_packet)]
     (toy_env 0) = Some (w', out)" using worker_burst_ok [OF toy_worker_wf] by blast
  then show ?thesis using removed_peer_cut_off [OF toy_worker_wf _ b] by (simp add: adds_peer_def)
qed

text \<open>
  C22. An endpoint moves only on evidence: whatever message a worker handles, the direct address of a
  peer changes only to the source of a datagram that answers an outstanding probe to that source
  under the peer's key, that the peer's tunnel accepts, or that is an initiation of that peer.
\<close>

theorem endpoint_moves_on_evidence:
  assumes wf: "worker_wf C w" and h: "worker_handle C E w msg = Some (w', out)"
    and p: "p \<in> set (w_peers w)" "p' \<in> set (w_peers w')" "p_pubkey p' = p_pubkey p" "p_direct_addr p' \<noteq> p_direct_addr p"
  shows "\<exists>from m. msg = MUdpIn from m \<and> p_direct_addr p' = Some from \<and> endpoint_evidence C (\<lambda>i. E (i + 1)) w p from m"
proof -
  have d: "distinct (map p_pubkey (w_peers w))" using wf by (simp add: worker_wf_def)
  have no: "\<not> p' \<in> set (w_peers w)" using p d by (auto simp: distinct_map inj_on_def)
  note member = moves_member [OF _ d p(1-3)]
  from worker_handle_moves [OF h] consider a m where "msg = MUdpIn a m"
      "moves (Some a) ViaUdp (\<lambda>p. endpoint_evidence C (\<lambda>i. E (i + 1)) w p a m) p p'"
    | "moves None ViaRelay (\<lambda>_. False) p p'" | q where "w_peers w' = w_peers w @ [q]" "p_pubkey q \<notin> worker_keys w"
    using member no p(2) by blast
  then show ?thesis
    by cases (use p no in \<open>auto simp: moves_def worker_keys_def\<close>)
qed

theorem endpoint_moves_on_evidence_witness:
  "\<exists>m w' out p'. worker_handle toy_crypto (\<lambda>_. toy_env 0) toy_worker (MUdpIn (SockV4 7 8) m) = Some (w', out) \<and>
     p' \<in> set (w_peers w') \<and> p_direct_addr p' = Some (SockV4 7 8) \<and>
     endpoint_evidence toy_crypto (\<lambda>_. toy_env 0) toy_worker toy_peer (SockV4 7 8) m"
proof -
  obtain m raw' where m: "\<exists>rest. m = [4, 0, 0, 0, 9, 0, 0, 0] @ rest"
    "raw_on_recv toy_crypto toy_rng (toy_clock 0) (Some toy_open_tunnel) m (replicate 2048 0) = Some (raw', Inr toy_packet)"
    using toy_delivery .
  have "\<exists>w' out p'. worker_handle toy_crypto (\<lambda>_. toy_env 0) toy_worker (MUdpIn (SockV4 7 8) m) = Some (w', out) \<and>
      p' \<in> set (w_peers w') \<and> p_pubkey p' = [2] \<and> p_direct_addr p' = Some (SockV4 7 8)"
    using m(2) toy_header [OF m(1)] toy_index_get(1)
    by (auto simp: worker_handle_def flush_then_def flush_gso_def gso_flush_def gso_new_def on_udp_in_def deliver_wg_def
        handle_wg_def wg_data_def wg_types toy_env_def toy_worker_def toy_packet_def udp_outputs_def Let_def
        authenticated_data_def set_path_def split: prod.splits)
  then obtain w' out p' where h: "worker_handle toy_crypto (\<lambda>_. toy_env 0) toy_worker (MUdpIn (SockV4 7 8) m) = Some (w', out)"
      "p' \<in> set (w_peers w')" "p_pubkey p' = [2]" "p_direct_addr p' = Some (SockV4 7 8)" by blast
  have "endpoint_evidence toy_crypto (\<lambda>_. toy_env 0) toy_worker toy_peer (SockV4 7 8) m"
    using endpoint_moves_on_evidence [OF toy_worker_wf h(1), of toy_peer p'] h by auto
  with h show ?thesis by blast
qed

text \<open>What a peer sends on a session: data packets, and the handshake response that created it.\<close>

inductive emits :: "crypto \<Rightarrow> session \<Rightarrow> bytes \<Rightarrow> bool" for C s where
  emits_data: "format_packet_data C r s src n = (s', Inr m) \<Longrightarrow> emits C s m"
| emits_response: "format_handshake_response C r hs dst = (hs', Inr (m, s)) \<Longrightarrow> emits C s m"

lemma response_header:
  assumes "format_handshake_response C r hs dst = (hs', Inr (m, s))"
  obtains idx rest where "m = to_le_bytes 4 HANDSHAKE_RESP @ to_le_bytes 4 (idx :: u32) @ to_le_bytes 4 (sending_index s) @ rest"
proof -
  have d: "92 \<le> length dst" using assms by (auto simp: format_handshake_response_def HANDSHAKE_RESP_SZ_def split: if_splits)
  have mac: "\<exists>rest. append_mac1 C h (to_le_bytes 4 HANDSHAKE_RESP @ to_le_bytes 4 (i :: u32) @ to_le_bytes 4 (j :: u32) @ e @ en @ slice 60 92 dst)
      = to_le_bytes 4 HANDSHAKE_RESP @ to_le_bytes 4 i @ to_le_bytes 4 j @ rest" for h i j e en
    using d by (simp add: append_mac1_def Let_def)
  show thesis
    using assms mac that
    by (auto simp: format_handshake_response_def session_new_def rbind_Inr_conv Let_def
        split: if_splits option.splits handshake_state.splits prod.splits sum.splits) metis+
qed

lemma emits_header:
  assumes "emits C s m"
  obtains rest where "m = [4, 0, 0, 0] @ to_le_bytes 4 (sending_index s) @ rest"
  | idx rest where "m = [2, 0, 0, 0] @ to_le_bytes 4 (idx :: u32) @ to_le_bytes 4 (sending_index s) @ rest"
  using assms
proof cases
  case (emits_data r src n s')
  moreover have "to_le_bytes 4 DATA = [4, 0, 0, 0]" by (simp add: DATA_def) code_simp
  ultimately show thesis
    using that(1) by (auto simp: format_packet_data_def rbind_Inr_conv Let_def split: if_splits option.splits)
next
  case (emits_response r hs dst hs')
  then obtain idx rest where
    "m = to_le_bytes 4 HANDSHAKE_RESP @ to_le_bytes 4 (idx :: u32) @ to_le_bytes 4 (sending_index s) @ rest"
    by (rule response_header)
  moreover have "to_le_bytes 4 HANDSHAKE_RESP = [2, 0, 0, 0]" by (simp add: HANDSHAKE_RESP_def) code_simp
  ultimately show thesis using that(2) by simp
qed

text \<open>Both readings of the receiver index find what the sender wrote.\<close>

lemma emits_index:
  assumes "emits C s m"
  shows "strip_magic m = None" "first_byte m \<noteq> T_HANDSHAKE_INIT"
    "route_index m = Some (sending_index s)" "receiver_index m = Some (sending_index s)"
proof -
  from assms have "strip_magic m = None \<and> first_byte m \<noteq> T_HANDSHAKE_INIT \<and>
      route_index m = Some (sending_index s) \<and> receiver_index m = Some (sending_index s)"
    by (cases rule: emits_header) (simp_all add: strip_magic_def DISCO_MAGIC_def first_byte_def wg_types
        route_index_def receiver_index_def get_at_def le_u32_def get_slice_def slice_def)
  then show "strip_magic m = None" "first_byte m \<noteq> T_HANDSHAKE_INIT"
    "route_index m = Some (sending_index s)" "receiver_index m = Some (sending_index s)" by simp_all
qed

text \<open>
  C30. A peer's packets reach it: when a peer of a well-formed worker was given an index of this worker,
  every data packet and every handshake response that the other end emits on a session with that index
  is dispatched to this worker, and the worker delivers it to that peer.
\<close>

theorem packets_reach_their_peer:
  assumes wf: "worker_wf C w" and m: "emits D s m"
    and i: "index_get (w_index w) (sending_index s) = Some pk"
      "fmlookup (w_owner w) (sending_index s) = Some (it_wid (w_index w))"
  shows "route_udp C now m peer_to_wid routes (w_owner w) own_priv own_pub = Some (it_wid (w_index w)) \<and>
    on_udp_in C E w from m = deliver_wg C E w pk m (Some from) ViaUdp \<and>
    (\<exists>p \<in> set (w_peers w). p_pubkey p = pk)"
proof -
  have "table_ok (worker_keys w) (w_index w, w_owner w)" using wf by (simp add: worker_wf_def)
  then have "pk \<in> worker_keys w" using i(1) by (auto simp: table_ok_def)
  then show ?thesis
    using emits_index [OF m] i by (auto simp: route_udp_def on_udp_in_def worker_keys_def)
qed

theorem packets_reach_their_peer_witness:
  "\<exists>m. emits toy_crypto toy_session m \<and>
     route_udp toy_crypto 0 m Map.empty fmempty (w_owner toy_worker) [1] [1] = Some 0 \<and>
     on_udp_in toy_crypto (\<lambda>_. toy_env 0) toy_worker (SockV4 7 8) m =
       deliver_wg toy_crypto (\<lambda>_. toy_env 0) toy_worker [2] m (Some (SockV4 7 8)) ViaUdp"
proof -
  obtain s' m where "format_packet_data toy_crypto toy_rng toy_session [1] 99 = (s', Inr m)"
    by (rule format_packet_data_ok [OF toy_crypto_ok toy_rng_ok, of toy_session "[1]" 99])
      (simp_all add: toy_session_def DATA_OVERHEAD_SZ_def MAX_NONCE_def)
  then have m: "emits toy_crypto toy_session m" by (rule emits_data)
  have "index_get (w_index toy_worker) (sending_index toy_session) = Some [2]"
      "fmlookup (w_owner toy_worker) (sending_index toy_session) = Some (it_wid (w_index toy_worker))"
      "it_wid (w_index toy_worker) = 0"
    using toy_index_get by (simp_all add: toy_worker_def toy_session_def)
  with m packets_reach_their_peer [OF toy_worker_wf m] show ?thesis by fastforce
qed

text \<open>
  C40. Egress skips the TCP rung: a packet from the tunnel interface for a peer that is reached over
  its direct TCP connection is queued for the UDP address of the peer, although the ladder every
  other packet takes sends it over TCP.
\<close>

theorem egress_ignores_prefer_tcp:
  assumes p: "List.find (\<lambda>p. p_pubkey p = pk \<and> p_handshaked p) (w_peers w) = Some p" "p_prefer_tcp p" "p_tcp_out p = Some c"
      "p_direct_addr p = Some addr" "\<not> p_prefer_relay p" "\<not> w_force_relay w"
    and enc: "raw_on_send C (e_rng (E 0)) (e_boot (E 0)) (p_raw p) pkt (replicate 2048 0) = (raw, Inr enc)"
      "get_at 0 enc = Some T_DATA"
  shows "send_to_peer up p (w_force_relay w) enc = [TcpTo c enc] \<and>
    (let (b, ds) = gso_push (e_seg (E 1)) (e_seg (E 2)) (w_gso w) addr enc
     in w_gso (fst (on_tun_egress C E w pk pkt)) = b \<and> snd (on_tun_egress C E w pk pkt) = udp_outputs ds)"
  using assms by (auto simp: send_to_peer_def on_tun_egress_def wg_types Let_def split: prod.splits)

definition toy_tcp_peer :: peer where
  "toy_tcp_peer = toy_peer\<lparr>p_raw := Some (toy_tunnel\<lparr>sessions := [Some toy_session]\<rparr>), p_prefer_tcp := True, p_tcp_out := Some 3\<rparr>"

theorem egress_ignores_prefer_tcp_witness:
  "\<exists>enc. send_to_peer True toy_tcp_peer False enc = [TcpTo 3 enc] \<and>
     gb_dst (w_gso (fst (on_tun_egress toy_crypto (\<lambda>_. toy_env 0) (toy_worker\<lparr>w_peers := [toy_tcp_peer]\<rparr>) [2] toy_packet))) =
       Some (SockV4 0x01020304 5000)"
proof -
  let ?w = "toy_worker\<lparr>w_peers := [toy_tcp_peer]\<rparr>"
  obtain ct where f: "format_packet_data toy_crypto toy_rng toy_session toy_packet 2048 =
      (toy_session\<lparr>sending_key_counter := sending_key_counter toy_session + 1\<rparr>,
       Inr (to_le_bytes 4 DATA @ to_le_bytes 4 (sending_index toy_session) @ to_le_bytes 8 (sending_key_counter toy_session) @ ct))"
    by (rule format_packet_data_ok [OF toy_crypto_ok toy_rng_ok, of toy_session toy_packet 2048])
      (simp_all add: toy_session_def toy_packet_def DATA_OVERHEAD_SZ_def MAX_NONCE_def)
  let ?enc = "to_le_bytes 4 DATA @ to_le_bytes 4 (sending_index toy_session) @ to_le_bytes 8 (sending_key_counter toy_session) @ ct"
  have zero: "current toy_tunnel = 0" by (simp add: toy_tunnel_def noise_new_def Let_def)
  have four: "to_le_bytes 4 DATA = [4, 0, 0, 0]" by code_simp
  have d: "get_at 0 ?enc = Some T_DATA" by (simp add: four get_at_def wg_types)
  have "\<exists>raw. raw_on_send toy_crypto toy_rng toy_clock (p_raw toy_tcp_peer) toy_packet (replicate 2048 0) = (raw, Inr ?enc)"
    using f zero by (simp add: toy_tcp_peer_def raw_on_send_def cr_on_send_def encapsulate_def)
  then obtain raw where "raw_on_send toy_crypto (e_rng (toy_env 0)) (e_boot (toy_env 0)) (p_raw toy_tcp_peer) toy_packet (replicate 2048 0) =
      (raw, Inr ?enc)" by (auto simp: toy_env_def)
  from egress_ignores_prefer_tcp [where E = "\<lambda>_. toy_env 0" and pk = "[2]" and w = ?w and p = toy_tcp_peer and c = 3
      and addr = "SockV4 0x01020304 5000" and up = True, OF _ _ _ _ _ _ this d]
  show ?thesis
    by (auto simp: toy_tcp_peer_def toy_worker_def gso_push_def gso_new_def gso_flush_def Let_def split: prod.splits)
qed

end
