(* ===== verification/Worker_Paths.thy ===== *)
theory Worker_Paths
  imports Worker_Invariants
begin

text \<open>
  How the choice of path develops over the ticks of a worker: a direct path that has gone silent is
  replaced by the relay, and a pinned peer returns to a direct path that delivers again.
\<close>

section \<open>What the pieces of a tick leave alone\<close>

definition path_view :: "peer \<Rightarrow> _" where
  "path_view p = ((p_pubkey p, p_handshaked p, p_prefer_relay p, p_prefer_tcp p, p_relay_pinned p),
     (p_last_recv_direct p, p_pinned_at p, p_flaps p, p_rtt p, p_direct_addr p))"

lemma path_view_publish: "path_view (k_peer (tick_publish e force_relay k)) = path_view (k_peer k)"
  by (simp add: tick_publish_def path_view_def Let_def)

lemma path_view_ping: "disco_ping C e routes p own_pub = (p', routes', ping) \<Longrightarrow> path_view p' = path_view p"
  by (auto simp: disco_ping_def disco_ping_to_def path_view_def Let_def split: prod.splits)

lemma path_view_probe: "path_view (k_peer (tick_probe C e own_pub force_relay k)) = path_view (k_peer k)"
  by (auto simp: tick_probe_def emit_def Let_def path_view_ping split: prod.splits option.splits)

lemma path_view_keepalive: "path_view (k_peer (tick_keepalive C E own_pub force_relay k)) = path_view (k_peer k)"
proof -
  have "path_view (k_peer (keepalive_send C F own_pub force_relay ka j)) = path_view (k_peer j)" for F ka j
    by (auto simp: keepalive_send_def emit_def Let_def dest: path_view_ping split: prod.splits option.splits)
  moreover have "path_view (p\<lparr>p_raw := raw, p_stat := st\<rparr>) = path_view p" "path_view (p\<lparr>p_raw := raw\<rparr>) = path_view p" for p raw st
    by (simp_all add: path_view_def)
  ultimately show ?thesis
    by (auto simp: tick_keepalive_def emit_def Let_def split: prod.splits sum.splits option.splits)
qed

lemma path_view_emit_rekey: "emit_rekey C E force_relay k = (k', sent) \<Longrightarrow> path_view (k_peer k') = path_view (k_peer k)"
  by (auto simp: emit_rekey_def emit_def note_rekey_def path_view_def Let_def split: prod.splits sum.splits)

lemma path_view_rekey: "path_view (k_peer (tick_rekey C E now own_pub force_relay k)) = path_view (k_peer k)"
proof -
  have "path_view (p\<lparr>p_init_sent_at := a, p_handshake_at := b\<rparr>) = path_view p" for p a b by (simp add: path_view_def)
  then show ?thesis by (auto simp: tick_rekey_def path_view_emit_rekey split: prod.split)
qed

text \<open>The fallback and the upgrade, as functions of what they look at.\<close>

lemma tick_silent_view:
  assumes "p = k_peer k" "q = k_peer (tick_silent C E now own_pub force_relay k)"
  shows "if path_silent now p \<and> \<not> p_prefer_relay p \<and> \<not> force_relay \<and> e_relay (E 0)
    then p_prefer_relay q \<and> p_relay_pinned q \<and> p_last_recv_direct q = None \<and>
      p_pubkey q = p_pubkey p \<and> p_handshaked q = p_handshaked p \<and> p_rtt q = p_rtt p
    else path_view q = path_view p"
proof -
  have "path_view (r\<lparr>p_init_sent_at := a\<rparr>) = path_view r" for r a by (simp add: path_view_def)
  then show ?thesis unfolding assms
    by (auto simp: tick_silent_def Let_def split: prod.splits dest!: path_view_emit_rekey) (auto simp: path_view_def)
qed

lemma tick_peer_handshaked:
  assumes "p_handshaked (k_peer k)" "q = k_peer (tick_peer C E now own_pub force_relay k)"
  obtains k1 k2 where "path_view (k_peer k1) = path_view (k_peer k)"
    "k2 = tick_silent C (\<lambda>i. E (i + 6)) now own_pub force_relay k1"
    "path_view q = path_view (k_peer (tick_upgrade now k2))"
proof -
  define k0 where "k0 = tick_probe C (E 1) own_pub force_relay (tick_publish (E 0) force_relay k)"
  define k1 where "k1 = tick_keepalive C (\<lambda>i. E (i + 2)) own_pub force_relay k0"
  have 0: "path_view (k_peer k0) = path_view (k_peer k)" by (simp add: k0_def path_view_probe path_view_publish)
  then have "p_handshaked (k_peer k0)" using assms(1) by (simp add: path_view_def)
  then have q: "q = k_peer (tick_rekey C (\<lambda>i. E (i + 11)) now own_pub force_relay
      (tick_upgrade now (tick_silent C (\<lambda>i. E (i + 6)) now own_pub force_relay k1)))"
    unfolding assms(2) tick_peer_def Let_def k0_def [symmetric] k1_def by simp
  show thesis by (rule that [of k1]) (simp_all add: 0 q k1_def path_view_keepalive path_view_rekey)
qed

lemma dead_after_floor: "from_secs LIVENESS_DEAD_SECS \<le> dead_after p"
  by (simp add: dead_after_def split: option.split)

lemma path_silent_stale:
  assumes "path_silent now p" "p_rtt q = p_rtt p" "p_last_recv_direct q = p_last_recv_direct p \<or> p_last_recv_direct q = None"
  shows "path_silent now q"
proof -
  have "dead_after q = dead_after p" by (simp add: dead_after_def assms(2))
  then show ?thesis using assms(1,3) by (cases "p_last_recv_direct p") (auto simp: path_silent_def)
qed

text \<open>A tick never makes a path look fresher, and sends a silent one to the relay.\<close>

lemma tick_peer_stale:
  assumes hs: "p_handshaked (k_peer k)" and q: "q = k_peer (tick_peer C E now own_pub force_relay k)"
  shows "p_handshaked q \<and> p_pubkey q = p_pubkey (k_peer k) \<and> p_rtt q = p_rtt (k_peer k) \<and>
    (p_last_recv_direct q = p_last_recv_direct (k_peer k) \<or> p_last_recv_direct q = None)"
proof -
  obtain k1 k2 where v: "path_view (k_peer k1) = path_view (k_peer k)"
    "k2 = tick_silent C (\<lambda>i. E (i + 6)) now own_pub force_relay k1"
    "path_view q = path_view (k_peer (tick_upgrade now k2))" using tick_peer_handshaked [OF hs q] .
  have "p_pubkey (k_peer (tick_upgrade now k2)) = p_pubkey (k_peer k2) \<and> p_handshaked (k_peer (tick_upgrade now k2)) = p_handshaked (k_peer k2) \<and>
     p_rtt (k_peer (tick_upgrade now k2)) = p_rtt (k_peer k2) \<and> p_last_recv_direct (k_peer (tick_upgrade now k2)) = p_last_recv_direct (k_peer k2)"
    by (simp add: tick_upgrade_def Let_def)
  then show ?thesis using v(1,3) hs tick_silent_view [OF refl arg_cong [OF v(2), of k_peer]]
    by (auto simp: path_view_def split: if_splits)
qed

lemma tick_peer_silent:
  assumes hs: "p_handshaked (k_peer k)" and q: "q = k_peer (tick_peer C E now own_pub False k)"
    and silent: "path_silent now (k_peer k)" and up: "\<And>j. e_relay (E j)"
  shows "p_prefer_relay q"
proof -
  obtain k1 k2 where v: "path_view (k_peer k1) = path_view (k_peer k)"
    "k2 = tick_silent C (\<lambda>i. E (i + 6)) now own_pub False k1"
    "path_view q = path_view (k_peer (tick_upgrade now k2))" using tick_peer_handshaked [OF hs q] .
  have s1: "path_silent now (k_peer k1)" using path_silent_stale [OF silent] v(1) by (simp add: path_view_def)
  have "p_prefer_relay (k_peer k2) \<and> path_silent now (k_peer k2)"
    using tick_silent_view [OF refl arg_cong [OF v(2), of k_peer]] s1 up [of 6] path_silent_stale [OF s1, of "k_peer k2"]
    by (auto simp: path_view_def split: if_splits)
  moreover from this have "\<not> now - t < from_secs LIVENESS_DEAD_SECS" if "p_last_recv_direct (k_peer k2) = Some t" for t
    using that dead_after_floor [of "k_peer k2"] by (simp add: path_silent_def)
  ultimately have "tick_upgrade now k2 = k2" by (auto simp: tick_upgrade_def Let_def split: option.split)
  then show ?thesis using v(3) \<open>p_prefer_relay (k_peer k2) \<and> _\<close> by (simp add: path_view_def)
qed

lemma tick_peer_recovers:
  assumes p: "p = k_peer k" "p_handshaked p" "p_relay_pinned p" "p_prefer_relay p" "p_flaps p \<le> 5"
    and q: "q = k_peer (tick_peer C E now own_pub force_relay k)"
    and t: "p_last_recv_direct p = Some t" "now - t < from_secs LIVENESS_DEAD_SECS"
    and t0: "p_pinned_at p = Some t0" "from_secs 32 \<le> now - t0"
  shows "\<not> p_relay_pinned q \<and> \<not> p_prefer_relay q \<and> p_pubkey q = p_pubkey p \<and> p_direct_addr q = p_direct_addr p \<and>
    p_prefer_tcp q = p_prefer_tcp p"
proof -
  obtain k1 k2 where v: "path_view (k_peer k1) = path_view (k_peer k)"
    "k2 = tick_silent C (\<lambda>i. E (i + 6)) now own_pub force_relay k1"
    "path_view q = path_view (k_peer (tick_upgrade now k2))" using tick_peer_handshaked [OF _ q] p by auto
  have "path_view (k_peer k2) = path_view p"
    using tick_silent_view [OF refl arg_cong [OF v(2), of k_peer]] v(1) p(1,4) by (auto simp: path_view_def split: if_splits)
  moreover have "min_pin (k_peer k2) \<le> from_secs 32"
  proof -
    have "unat (min (p_flaps (k_peer k2)) 5) \<le> 5" by (simp add: min_def word_le_nat_alt)
    then have "(2::nat) ^ unat (min (p_flaps (k_peer k2)) 5) \<le> 2 ^ 5" by (intro power_increasing) simp_all
    then show ?thesis by (simp add: min_pin_def from_secs_def)
  qed
  ultimately show ?thesis using v(3) p t t0 by (auto simp: tick_upgrade_def path_view_def Let_def split: if_splits)
qed

section \<open>All peers, several ticks\<close>

lemma tick_peers_nth:
  assumes "tick_peers C E now own_pub force_relay ps sh = (ps', sh', out)" "i < length ps"
  shows "length ps' = length ps \<and> (\<exists>d k. k_peer k = ps ! i \<and> ps' ! i = k_peer (tick_peer C (\<lambda>j. E (j + d)) now own_pub force_relay k))"
  using assms
proof (induction ps arbitrary: E sh ps' out i)
  case (Cons p ps)
  obtain t owner routes where sh: "sh = (t, owner, routes)" by (cases sh)
  define k where "k = tick_peer C E now own_pub force_relay
      \<lparr>k_peer = p, k_index = t, k_owner = owner, k_routes = routes, k_out = []\<rparr>"
  obtain qs out2 where q: "tick_peers C (\<lambda>i. E (i + 16)) now own_pub force_relay ps (k_index k, k_owner k, k_routes k) = (qs, sh', out2)"
      "ps' = k_peer k # qs"
    using Cons.prems(1) by (auto simp: sh k_def Let_def split: prod.splits)
  show ?case
  proof (cases i)
    case 0
    have "length qs = length ps" using Cons.IH [OF q(1), of 0] q(1) by (cases ps) auto
    then show ?thesis unfolding q(2) 0 k_def
      by (intro conjI exI [of _ "0::nat"]
          exI [of _ "\<lparr>k_peer = p, k_index = t, k_owner = owner, k_routes = routes, k_out = []\<rparr>"]) simp_all
  next
    case (Suc j)
    then have "j < length ps" using Cons.prems(2) by simp
    from Cons.IH [OF q(1) this] obtain d k' where "length qs = length ps" "k_peer k' = ps ! j"
        "qs ! j = k_peer (tick_peer C (\<lambda>i. E (i + d + 16)) now own_pub force_relay k')" by blast
    then show ?thesis unfolding q(2) Suc
      by (intro conjI exI [of _ "d + 16"] exI [of _ k']) (simp_all add: ac_simps)
  qed
qed simp

lemma on_tick_nth:
  assumes "i < length (w_peers w)"
  obtains d k where "k_peer k = w_peers w ! i" "length (w_peers (fst (on_tick C E w))) = length (w_peers w)"
    "w_peers (fst (on_tick C E w)) ! i =
       k_peer (tick_peer C (\<lambda>j. E (j + d)) (e_now (E 0)) (w_own_pub w) (w_force_relay w) k)"
proof -
  obtain ps t owner routes out where k: "tick_peers C (\<lambda>i. E (i + 1)) (e_now (E 0)) (w_own_pub w) (w_force_relay w)
      (w_peers w) (w_index w, w_owner w, w_routes w) = (ps, (t, owner, routes), out)" by (metis surj_pair)
  then have "w_peers (fst (on_tick C E w)) = ps" by (simp add: on_tick_def)
  moreover from tick_peers_nth [OF k assms] obtain d k where "length ps = length (w_peers w)" "k_peer k = w_peers w ! i"
      "ps ! i = k_peer (tick_peer C (\<lambda>j. E (j + d + 1)) (e_now (E 0)) (w_own_pub w) (w_force_relay w) k)" by blast
  ultimately show thesis by (intro that [of k "d + 1"]) (simp_all add: ac_simps)
qed

definition worker_ticks :: "crypto \<Rightarrow> (nat \<Rightarrow> env) list \<Rightarrow> worker \<Rightarrow> worker" where
  "worker_ticks C Es w = fold (\<lambda>E w. fst (on_tick C E w)) Es w"

lemma on_tick_settings: "w_force_relay (fst (on_tick C E w)) = w_force_relay w"
  using on_tick_ok [of C E w] by (cases "on_tick C E w") (simp add: worker_evolves_def)

lemma worker_ticks_stale:
  assumes "i < length (w_peers w)" "p_handshaked (w_peers w ! i)"
  shows "length (w_peers (worker_ticks C Es w)) = length (w_peers w) \<and> w_force_relay (worker_ticks C Es w) = w_force_relay w \<and>
    (let p = w_peers w ! i; q = w_peers (worker_ticks C Es w) ! i
     in p_handshaked q \<and> p_pubkey q = p_pubkey p \<and> p_rtt q = p_rtt p \<and>
        (p_last_recv_direct q = p_last_recv_direct p \<or> p_last_recv_direct q = None))"
  using assms
proof (induction Es arbitrary: w)
  case (Cons E Es)
  let ?w = "fst (on_tick C E w)"
  obtain d k where k: "k_peer k = w_peers w ! i" "length (w_peers ?w) = length (w_peers w)"
    "w_peers ?w ! i = k_peer (tick_peer C (\<lambda>j. E (j + d)) (e_now (E 0)) (w_own_pub w) (w_force_relay w) k)"
    using on_tick_nth [OF Cons.prems(1)] .
  have "p_handshaked (k_peer k)" using Cons.prems(2) k(1) by simp
  note s = tick_peer_stale [OF this k(3)]
  have "worker_ticks C (E # Es) w = worker_ticks C Es ?w" by (simp add: worker_ticks_def)
  then show ?case using Cons.IH [of ?w] s k(1,2) Cons.prems(1) on_tick_settings [of C E w] by (auto simp: Let_def)
qed (simp add: worker_ticks_def)

section \<open>Properties\<close>

text \<open>
  C23. A dead direct path is left: when a peer has not been heard on a direct path for the time
  after which it counts as silent, and the relay can be used, then at the next tick, however many
  ticks came before, the worker sends to that peer over the relay.
\<close>

theorem silent_path_falls_back:
  assumes i: "i < length (w_peers w)" "p_handshaked (w_peers w ! i)" and force: "\<not> w_force_relay w"
    and silent: "path_silent (e_now (E 0)) (w_peers w ! i)" and up: "\<forall>j. e_relay (E j)"
  shows "let p = w_peers (worker_ticks C (Es @ [E]) w) ! i
    in p_pubkey p = p_pubkey (w_peers w ! i) \<and> (\<forall>m. send_to_peer True p False m = [RelayTo (p_pubkey p) m])"
proof -
  let ?v = "worker_ticks C Es w"
  note v = worker_ticks_stale [OF i, of C Es]
  then have i': "i < length (w_peers ?v)" using i by simp
  obtain d k where k: "k_peer k = w_peers ?v ! i"
    "w_peers (fst (on_tick C E ?v)) ! i = k_peer (tick_peer C (\<lambda>j. E (j + d)) (e_now (E 0)) (w_own_pub ?v) (w_force_relay ?v) k)"
    using on_tick_nth [OF i'] .
  let ?p = "w_peers (fst (on_tick C E ?v)) ! i"
  have hs: "p_handshaked (k_peer k)" using v k(1) by (simp add: Let_def)
  have p: "?p = k_peer (tick_peer C (\<lambda>j. E (j + d)) (e_now (E 0)) (w_own_pub ?v) False k)" using k(2) v force by simp
  have "path_silent (e_now (E 0)) (k_peer k)" using path_silent_stale [OF silent] v k(1) by (simp add: Let_def)
  from tick_peer_silent [OF hs p this] up have "p_prefer_relay ?p" by simp
  moreover have "p_pubkey ?p = p_pubkey (w_peers w ! i)" using tick_peer_stale [OF hs k(2)] v k(1) by (simp add: Let_def)
  ultimately show ?thesis by (simp add: worker_ticks_def send_to_peer_def)
qed

theorem silent_path_falls_back_witness:
  "let p = w_peers (worker_ticks toy_crypto ([\<lambda>_. toy_env (from_secs 1), \<lambda>_. toy_env (from_secs 2)] @ [\<lambda>_. toy_env (from_secs 6)])
       toy_worker) ! 0
   in p_pubkey p = [2] \<and> (\<forall>m. send_to_peer True p False m = [RelayTo [2] m])"
proof -
  have "path_silent (from_secs 6) toy_peer"
    by (simp add: path_silent_def dead_after_def from_secs_def LIVENESS_DEAD_SECS_def)
  then show ?thesis
    using silent_path_falls_back [of 0 toy_worker "\<lambda>_. toy_env (from_secs 6)" toy_crypto
        "[\<lambda>_. toy_env (from_secs 1), \<lambda>_. toy_env (from_secs 2)]"]
    by (simp add: toy_env_def Let_def)
qed

text \<open>
  C24. A recovered direct path is taken again: a peer that is pinned to the relay and has been heard
  on a direct path within the last five seconds leaves the relay at the first tick at least 32
  seconds after it was pinned, however often the path has flapped before.
\<close>

theorem direct_path_recovers:
  assumes wf: "worker_wf C w" and i: "i < length (w_peers w)" "p = w_peers w ! i" "p_handshaked p" "p_relay_pinned p"
    and t: "p_last_recv_direct p = Some t" "e_now (E 0) < t + from_secs 5"
    and t0: "p_pinned_at p = Some t0" "t0 + from_secs 32 \<le> e_now (E 0)"
  shows "let q = w_peers (fst (on_tick C E w)) ! i
    in p_pubkey q = p_pubkey p \<and> \<not> p_relay_pinned q \<and> \<not> p_prefer_relay q \<and>
       (\<forall>addr up m. p_direct_addr p = Some addr \<and> \<not> p_prefer_tcp p \<longrightarrow> send_to_peer up q False m = [UdpTo addr m])"
proof -
  obtain d k where k: "k_peer k = w_peers w ! i"
    "w_peers (fst (on_tick C E w)) ! i = k_peer (tick_peer C (\<lambda>j. E (j + d)) (e_now (E 0)) (w_own_pub w) (w_force_relay w) k)"
    using on_tick_nth [OF i(1)] .
  have "peer_ok C (w_own_priv w) p" using wf i(1,2) by (simp add: worker_wf_def list_all_length)
  then have ok: "p_prefer_relay p" "p_flaps p \<le> 5" using i(4) by (simp_all add: peer_ok_def)
  have p: "p = k_peer k" using k(1) i(2) by simp
  have "e_now (E 0) - t < from_secs LIVENESS_DEAD_SECS" "from_secs 32 \<le> e_now (E 0) - t0"
    using t(2) t0(2) by (auto simp: LIVENESS_DEAD_SECS_def from_secs_def)
  from tick_peer_recovers [OF p i(3,4) ok k(2) t(1) this(1) t0(1) this(2)] show ?thesis
    by (simp add: Let_def send_to_peer_def)
qed

definition toy_pinned_worker :: worker where
  "toy_pinned_worker = toy_worker\<lparr>w_peers := [toy_peer\<lparr>p_prefer_relay := True, p_relay_pinned := True, p_flaps := 5,
     p_pinned_at := Some 0, p_last_recv_direct := Some (from_secs 30)\<rparr>]\<rparr>"

theorem direct_path_recovers_witness:
  "\<forall>m. send_to_peer True (w_peers (fst (on_tick toy_crypto (\<lambda>_. toy_env (from_secs 32)) toy_pinned_worker)) ! 0) False m =
     [UdpTo (SockV4 0x01020304 5000) m]"
proof -
  have "worker_wf toy_crypto toy_pinned_worker"
    using toy_worker_wf toy_peer_ok by (simp add: toy_pinned_worker_def worker_wf_def worker_keys_def peer_ok_def)
  then show ?thesis
    using direct_path_recovers [of toy_crypto toy_pinned_worker 0 "w_peers toy_pinned_worker ! 0" "from_secs 30"
        "\<lambda>_. toy_env (from_secs 32)" 0]
    by (simp add: toy_pinned_worker_def toy_env_def from_secs_def Let_def)
qed

end
