(* ===== verification/Enroll_Pop.thy ===== *)
theory Enroll_Pop
  imports Noise_Crypto Wg_Key Hash_Map
begin

text \<open>
  Proof of possession at enrolment (control-server/src/pop.rs): the server hands out an ephemeral
  public key, and the client answers with the shared secret of that key and the private half of the
  WireGuard key it claims. The table of outstanding challenges is an argument and a result; random
  bytes, identifiers and clock readings (in seconds) are arguments. Whether a shared secret is
  contributory is decided by the package of the curve, a parameter.
\<close>

section \<open>Challenges\<close>

definition CHALLENGE_TTL :: nat where "CHALLENGE_TTL = 60"
definition MAX_PENDING :: nat where "MAX_PENDING = 4096"

record pending =
  pn_ephemeral :: bytes
  pn_claimed_pub :: bytes
  pn_expires :: nat

type_synonym pending_map = "(string, pending) fmap"

definition pop_prune :: "pending_map \<Rightarrow> nat \<Rightarrow> pending_map" where
  "pop_prune m now = hm_retain (\<lambda>_ p. now < pn_expires p) m"

record challenge =
  ch_challenge_id :: string
  ch_server_pub :: string

definition new_challenge ::
    "key_codec \<Rightarrow> crypto \<Rightarrow> (bytes \<Rightarrow> bool) \<Rightarrow> pending_map \<Rightarrow> string \<Rightarrow> bytes \<Rightarrow> string \<Rightarrow> nat
       \<Rightarrow> pending_map \<times> challenge option" where
  "new_challenge K C was_contributory m claimed_pub_hex random_32 random_id now =
     (case key_decode K claimed_pub_hex of
        None \<Rightarrow> (m, None)
      | Some claimed \<Rightarrow>
          let ephemeral = random_32
          in if \<not> was_contributory (x25519_dh C ephemeral claimed) then (m, None)
             else
               let server_pub = hex_encode K (x25519_public C ephemeral);
                   m = pop_prune m now
               in if MAX_PENDING \<le> hm_len m then (m, None)
                  else (fmupd random_id \<lparr>pn_ephemeral = ephemeral, pn_claimed_pub = claimed, pn_expires = now + CHALLENGE_TTL\<rparr> m,
                        Some \<lparr>ch_challenge_id = random_id, ch_server_pub = server_pub\<rparr>))"

definition decode_proof :: "key_codec \<Rightarrow> string \<Rightarrow> bytes option" where
  "decode_proof K hex_str = Option.bind (hex_decode K hex_str) (\<lambda>v. if length v = 32 then Some v else None)"

definition verify_proof ::
    "key_codec \<Rightarrow> crypto \<Rightarrow> (bytes \<Rightarrow> bool) \<Rightarrow> pending_map \<Rightarrow> string \<Rightarrow> string \<Rightarrow> string \<Rightarrow> nat \<Rightarrow> pending_map \<times> bool" where
  "verify_proof K C was_contributory m challenge_id claimed_pub_hex proof_hex now =
     (let m = pop_prune m now;
          entry = fmlookup m challenge_id;
          m = fmdrop challenge_id m
      in (m, case entry of
           None \<Rightarrow> False
         | Some entry \<Rightarrow>
             if pn_expires entry \<le> now then False
             else case key_decode K claimed_pub_hex of
               None \<Rightarrow> False
             | Some claimed \<Rightarrow>
                 if claimed \<noteq> pn_claimed_pub entry then False
                 else case decode_proof K proof_hex of
                   None \<Rightarrow> False
                 | Some proof \<Rightarrow>
                     let expected = x25519_dh C (pn_ephemeral entry) (pn_claimed_pub entry)
                     in was_contributory expected \<and> ct_eq expected proof))"

section \<open>Runs\<close>

text \<open>A run of the server: challenges and proofs in the order they are handled, with what each draws
  and reads.\<close>

datatype pop_op =
    NewChallenge string bytes string nat
  | VerifyProof string string string nat

definition pop_step :: "key_codec \<Rightarrow> crypto \<Rightarrow> (bytes \<Rightarrow> bool) \<Rightarrow> pop_op \<Rightarrow> pending_map \<Rightarrow> pending_map" where
  "pop_step K C was_contributory x m =
     (case x of
        NewChallenge claimed r i now \<Rightarrow> fst (new_challenge K C was_contributory m claimed r i now)
      | VerifyProof i claimed proof now \<Rightarrow> fst (verify_proof K C was_contributory m i claimed proof now))"

definition pop_run :: "key_codec \<Rightarrow> crypto \<Rightarrow> (bytes \<Rightarrow> bool) \<Rightarrow> pop_op list \<Rightarrow> pending_map" where
  "pop_run K C was_contributory xs = fold (pop_step K C was_contributory) xs fmempty"

definition is_proof_of :: "string \<Rightarrow> pop_op \<Rightarrow> bool" where
  "is_proof_of i x = (case x of VerifyProof j _ _ _ \<Rightarrow> j = i | _ \<Rightarrow> False)"

section \<open>What a run leaves outstanding\<close>

lemma new_challenge_lookup:
  assumes "fmlookup (fst (new_challenge K C w m claimed r i now)) j = Some e"
  shows "fmlookup m j = Some e \<or>
         j = i \<and> key_decode K claimed = Some (pn_claimed_pub e) \<and> pn_ephemeral e = r \<and> pn_expires e = now + CHALLENGE_TTL"
  using assms
  by (auto simp: new_challenge_def pop_prune_def Let_def split: option.splits if_splits)

lemma verify_proof_lookup:
  assumes "fmlookup (fst (verify_proof K C w m i claimed proof now)) j = Some e"
  shows "j \<noteq> i \<and> fmlookup m j = Some e"
  using assms by (auto simp: verify_proof_def pop_prune_def Let_def split: option.splits if_splits)

lemma pop_run_snoc: "pop_run K C w (xs @ [x]) = pop_step K C w x (pop_run K C w xs)"
  by (simp add: pop_run_def)

text \<open>An outstanding challenge was minted in the run, and no proof has named it since.\<close>

lemma pop_run_minted:
  assumes "fmlookup (pop_run K C w xs) i = Some e"
  shows "\<exists>ys zs claimed t. xs = ys @ NewChallenge claimed (pn_ephemeral e) i t # zs \<and>
           key_decode K claimed = Some (pn_claimed_pub e) \<and> pn_expires e = t + CHALLENGE_TTL \<and>
           list_all (\<lambda>x. \<not> is_proof_of i x) zs"
  using assms
proof (induction xs rule: rev_induct)
  case (snoc x xs)
  have earlier: ?case if run: "fmlookup (pop_run K C w xs) i = Some e" and spared: "\<not> is_proof_of i x"
  proof -
    obtain ys zs claimed t where
      "xs = ys @ NewChallenge claimed (pn_ephemeral e) i t # zs" "key_decode K claimed = Some (pn_claimed_pub e)"
      "pn_expires e = t + CHALLENGE_TTL" "list_all (\<lambda>x. \<not> is_proof_of i x) zs"
      using snoc.IH [OF run] by blast
    with spared show ?thesis
      by (intro exI [of _ ys] exI [of _ "zs @ [x]"] exI [of _ claimed] exI [of _ t]) simp
  qed
  show ?case
  proof (cases x)
    case (NewChallenge claimed r j now)
    then have "fmlookup (fst (new_challenge K C w (pop_run K C w xs) claimed r j now)) i = Some e"
      using snoc.prems by (simp add: pop_run_snoc pop_step_def)
    then consider "fmlookup (pop_run K C w xs) i = Some e"
      | "i = j" "key_decode K claimed = Some (pn_claimed_pub e)" "pn_ephemeral e = r" "pn_expires e = now + CHALLENGE_TTL"
      using new_challenge_lookup by blast
    then show ?thesis
    proof cases
      case 1 then show ?thesis using NewChallenge by (intro earlier) (simp_all add: is_proof_of_def)
    next
      case 2 then show ?thesis using NewChallenge
        by (intro exI [of _ xs] exI [of _ "[]"] exI [of _ claimed] exI [of _ now]) simp
    qed
  next
    case (VerifyProof j claimed pf now)
    then have "fmlookup (fst (verify_proof K C w (pop_run K C w xs) j claimed pf now)) i = Some e"
      using snoc.prems by (simp add: pop_run_snoc pop_step_def)
    then have "i \<noteq> j \<and> fmlookup (pop_run K C w xs) i = Some e" by (rule verify_proof_lookup)
    then show ?thesis using VerifyProof by (intro earlier) (auto simp: is_proof_of_def)
  qed
qed (simp add: pop_run_def)

lemma verify_proof_entry:
  assumes "snd (verify_proof K C w m i claimed proof now)"
  shows "\<exists>e. fmlookup m i = Some e \<and> now < pn_expires e \<and> key_decode K claimed = Some (pn_claimed_pub e) \<and>
             decode_proof K proof = Some (x25519_dh C (pn_ephemeral e) (pn_claimed_pub e)) \<and>
             w (x25519_dh C (pn_ephemeral e) (pn_claimed_pub e))"
  using assms
  by (auto simp: verify_proof_def pop_prune_def Let_def split: option.splits if_splits)

text \<open>
  C17. An enrolment proof is accepted only if, earlier in the run, a challenge with that identifier
  was minted for the same key with an ephemeral secret, no proof has named the challenge since
  (whether or not it was accepted, so a challenge answers at most one attempt), it is within its
  sixty seconds, and the proof is the contributory shared secret of that ephemeral secret and the
  claimed key.
\<close>

theorem accepted_proof_is_fresh:
  assumes "snd (verify_proof K C w (pop_run K C w xs) i claimed proof now)"
  shows "\<exists>ys zs claimed' r t P.
           xs = ys @ NewChallenge claimed' r i t # zs \<and> list_all (\<lambda>x. \<not> is_proof_of i x) zs \<and>
           key_decode K claimed' = Some P \<and> key_decode K claimed = Some P \<and> now < t + 60 \<and>
           decode_proof K proof = Some (x25519_dh C r P) \<and> w (x25519_dh C r P)"
proof -
  obtain e where e: "fmlookup (pop_run K C w xs) i = Some e" "now < pn_expires e"
    "key_decode K claimed = Some (pn_claimed_pub e)"
    "decode_proof K proof = Some (x25519_dh C (pn_ephemeral e) (pn_claimed_pub e))"
    "w (x25519_dh C (pn_ephemeral e) (pn_claimed_pub e))"
    using verify_proof_entry [OF assms] by blast
  obtain ys zs claimed' t where
    "xs = ys @ NewChallenge claimed' (pn_ephemeral e) i t # zs" "key_decode K claimed' = Some (pn_claimed_pub e)"
    "pn_expires e = t + CHALLENGE_TTL" "list_all (\<lambda>x. \<not> is_proof_of i x) zs"
    using pop_run_minted [OF e(1)] by blast
  with e show ?thesis
    by (intro exI [of _ ys] exI [of _ zs] exI [of _ claimed'] exI [of _ "pn_ephemeral e"] exI [of _ t]
          exI [of _ "pn_claimed_pub e"]) (simp add: CHALLENGE_TTL_def)
qed

definition toy_secret :: bytes where "toy_secret = replicate 32 2"
definition toy_claim :: string where "toy_claim = hex_encode toy_key_codec (x25519_public toy_crypto toy_secret)"

definition toy_pop_run :: "pop_op list" where
  "toy_pop_run = [NewChallenge toy_claim (replicate 32 3) ''a'' 10]"

lemma toy_claim_decode: "key_decode toy_key_codec toy_claim = Some (x25519_public toy_crypto toy_secret)"
  unfolding toy_claim_def by (rule key_encodings) (simp_all add: toy_key_codec_ok crypto_ok_lengths toy_crypto_ok)

lemma toy_pop_run_eval:
  "new_challenge toy_key_codec toy_crypto (\<lambda>s. s \<noteq> replicate 32 0) fmempty toy_claim (replicate 32 3) ''a'' 10 =
     (fmupd ''a'' \<lparr>pn_ephemeral = replicate 32 3, pn_claimed_pub = x25519_public toy_crypto toy_secret, pn_expires = 70\<rparr>
        (pop_prune fmempty 10),
      Some \<lparr>ch_challenge_id = ''a'', ch_server_pub = hex_encode toy_key_codec (x25519_public toy_crypto (replicate 32 3))\<rparr>)"
proof -
  have "x25519_dh toy_crypto (replicate 32 3) (x25519_public toy_crypto toy_secret) \<noteq> replicate 32 0"
    by (simp add: toy_crypto_def toy_secret_def sum_list_replicate)
  moreover have "hm_len (pop_prune fmempty 10) < MAX_PENDING"
    using le_less_trans [OF hm_len_retain [of "\<lambda>_ p. 10 < pn_expires p" fmempty], of MAX_PENDING]
    by (simp add: pop_prune_def MAX_PENDING_def)
  ultimately show ?thesis
    by (simp add: new_challenge_def toy_claim_decode CHALLENGE_TTL_def Let_def)
qed

lemma toy_dh_length: "length (x25519_dh toy_crypto a b) = 32"
  by (simp add: toy_crypto_def)

lemma toy_proof_accepted:
  "snd (verify_proof toy_key_codec toy_crypto (\<lambda>s. s \<noteq> replicate 32 0)
          (pop_run toy_key_codec toy_crypto (\<lambda>s. s \<noteq> replicate 32 0) toy_pop_run)
          ''a'' toy_claim (hex_encode toy_key_codec (x25519_dh toy_crypto toy_secret (x25519_public toy_crypto (replicate 32 3)))) 69)"
proof -
  have hex: "hex_decode toy_key_codec (hex_encode toy_key_codec b) = Some b" for b
    using toy_key_codec_ok by (simp add: key_codec_ok_def)
  have "x25519_dh toy_crypto (replicate 32 3) (x25519_public toy_crypto toy_secret) \<noteq> replicate 32 0"
    by (simp add: toy_crypto_def toy_secret_def sum_list_replicate)
  then show ?thesis
    by (simp add: toy_pop_run_def pop_run_def pop_step_def toy_pop_run_eval verify_proof_def pop_prune_def toy_claim_decode
          decode_proof_def hex toy_dh_length crypto_ok_dh [OF toy_crypto_ok, of toy_secret])
qed

theorem accepted_proof_is_fresh_witness:
  "\<exists>ys zs claimed' r t P.
     toy_pop_run = ys @ NewChallenge claimed' r ''a'' t # zs \<and> list_all (\<lambda>x. \<not> is_proof_of ''a'' x) zs \<and>
     key_decode toy_key_codec claimed' = Some P \<and> key_decode toy_key_codec toy_claim = Some P \<and> 69 < t + 60 \<and>
     decode_proof toy_key_codec
       (hex_encode toy_key_codec (x25519_dh toy_crypto toy_secret (x25519_public toy_crypto (replicate 32 3))))
       = Some (x25519_dh toy_crypto r P) \<and>
     x25519_dh toy_crypto r P \<noteq> replicate 32 0"
  using accepted_proof_is_fresh [OF toy_proof_accepted] .

section \<open>Honest clients and the bound\<close>

text \<open>An operation that leaves the challenge \<open>i\<close> alone: it names another identifier and runs before
  the challenge expires.\<close>

definition spares :: "string \<Rightarrow> nat \<Rightarrow> pop_op \<Rightarrow> bool" where
  "spares i expires x =
     (case x of NewChallenge _ _ j now \<Rightarrow> j \<noteq> i \<and> now < expires | VerifyProof j _ _ now \<Rightarrow> j \<noteq> i \<and> now < expires)"

lemma pop_step_spares:
  assumes "fmlookup m i = Some e" "spares i (pn_expires e) x"
  shows "fmlookup (pop_step K C w x m) i = Some e"
  using assms
  by (auto simp: spares_def pop_step_def new_challenge_def verify_proof_def pop_prune_def Let_def
           split: pop_op.splits option.splits)

lemma pop_fold_spares:
  "fmlookup m i = Some e \<Longrightarrow> list_all (spares i (pn_expires e)) xs
     \<Longrightarrow> fmlookup (fold (pop_step K C w) xs m) i = Some e"
  by (induction xs arbitrary: m) (simp_all add: pop_step_spares)

lemma new_challenge_len:
  "hm_len m \<le> MAX_PENDING \<Longrightarrow> hm_len (fst (new_challenge K C w m claimed r i now)) \<le> MAX_PENDING"
  using hm_len_retain [of "\<lambda>_ p. now < pn_expires p" m] hm_len_upd [of i _ "pop_prune m now"]
  by (auto simp: new_challenge_def pop_prune_def Let_def split: option.splits intro: order_trans [OF hm_len_upd])

lemma verify_proof_len: "hm_len (fst (verify_proof K C w m i claimed proof now)) \<le> hm_len m"
  using hm_len_drop [of i "pop_prune m now"] hm_len_retain [of "\<lambda>_ p. now < pn_expires p" m]
  by (simp add: verify_proof_def pop_prune_def Let_def)

text \<open>The table never holds more than \<^const>\<open>MAX_PENDING\<close> challenges.\<close>

lemma pop_run_bounded: "hm_len (pop_run K C w xs) \<le> MAX_PENDING"
proof (induction xs rule: rev_induct)
  case (snoc x xs)
  then show ?case
    by (cases x)
       (simp_all add: pop_run_snoc pop_step_def new_challenge_len order_trans [OF verify_proof_len])
qed (simp add: pop_run_def)

text \<open>
  C19. A client that holds the private half of the key it claims and answers within the lifetime of
  its challenge is accepted: the hexadecimal form of the secret it computes from the server's public
  key verifies, whatever the server handles in between, as long as no request in between is a proof
  that names the same challenge or a challenge that draws the same identifier, and none comes after
  the challenge has expired. A proof that names the challenge uses it up, right or wrong.
\<close>

theorem honest_client_accepted:
  assumes "crypto_ok C" "key_codec_ok K"
      and "key_decode K claimed = Some (x25519_public C priv)"
      and "new_challenge K C w m claimed r i t = (m', Some ch)"
      and "length (x25519_dh C r (x25519_public C priv)) = 32"
      and "list_all (spares i (t + 60)) xs" "now < t + 60"
  shows "\<exists>S. hex_decode K (ch_server_pub ch) = Some S \<and>
             snd (verify_proof K C w (fold (pop_step K C w) xs m') (ch_challenge_id ch) claimed
                    (hex_encode K (x25519_dh C priv S)) now)"
proof -
  define e where "e = \<lparr>pn_ephemeral = r, pn_claimed_pub = x25519_public C priv, pn_expires = t + CHALLENGE_TTL\<rparr>"
  have ch: "ch = \<lparr>ch_challenge_id = i, ch_server_pub = hex_encode K (x25519_public C r)\<rparr>"
    and m': "fmlookup m' i = Some e" and w: "w (x25519_dh C r (x25519_public C priv))"
    using assms(3,4) by (auto simp: new_challenge_def e_def Let_def split: if_splits)
  have entry: "fmlookup (fold (pop_step K C w) xs m') i = Some e"
    using assms(6) by (intro pop_fold_spares m') (simp add: e_def CHALLENGE_TTL_def)
  have dh: "x25519_dh C priv (x25519_public C r) = x25519_dh C r (x25519_public C priv)"
    using assms(1) by (rule crypto_ok_dh)
  have hex: "hex_decode K (hex_encode K b) = Some b" for b
    using assms(2) by (simp add: key_codec_ok_def)
  have "snd (verify_proof K C w (fold (pop_step K C w) xs m') i claimed
                    (hex_encode K (x25519_dh C priv (x25519_public C r))) now)"
    using assms(3,5,7) w
    by (simp add: verify_proof_def pop_prune_def entry e_def CHALLENGE_TTL_def decode_proof_def hex dh)
  then show ?thesis by (simp add: ch hex)
qed

theorem honest_client_accepted_witness:
  "\<exists>S. hex_decode toy_key_codec (hex_encode toy_key_codec (x25519_public toy_crypto (replicate 32 3))) = Some S \<and>
     snd (verify_proof toy_key_codec toy_crypto (\<lambda>s. s \<noteq> replicate 32 0)
            (fold (pop_step toy_key_codec toy_crypto (\<lambda>s. s \<noteq> replicate 32 0)) [VerifyProof ''b'' ''x'' ''y'' 20]
               (fst (new_challenge toy_key_codec toy_crypto (\<lambda>s. s \<noteq> replicate 32 0) fmempty toy_claim (replicate 32 3) ''a'' 10)))
            ''a'' toy_claim (hex_encode toy_key_codec (x25519_dh toy_crypto toy_secret S)) 69)"
  using honest_client_accepted [OF toy_crypto_ok toy_key_codec_ok toy_claim_decode toy_pop_run_eval,
      of "[VerifyProof ''b'' ''x'' ''y'' 20]" 69]
  by (simp add: toy_pop_run_eval spares_def toy_dh_length)

end
