(* ===== verification/Sql_Tables.thy ===== *)
theory Sql_Tables
  imports Control_Store
begin

text \<open>
  The database of the coordination server (control-server/src/persistence.rs, the identifiers and the
  lock of control-server/src/integrity.rs, the retries of control-server/src/contention.rs): its
  tables, one definition per query, and transactions.

  A table with a primary key is a finite map from the key to the row; inserting a key that is present
  and violating one of the two unique indexes on active devices are errors of the database. An action
  runs statements one after the other on a session. Any statement may fail for reasons of the database
  (locks, deadlines, lost connections), which the function \<open>b_fault\<close> of the backend decides from the
  number of statements run so far; a failed statement changes nothing, and a failed action inside a
  transaction leaves the tables as they were. The order of rows that a query leaves open, or leaves to
  the collation of the database, is the order \<open>b_order\<close>; entries of the audit log with equal times come in
  the order they were written. Counters in the 64-bit columns of the tables are unbounded integers,
  except for the sequence of identifiers, whose limit the query checks.
\<close>

section \<open>Errors\<close>

record database_error =
  de_sqlite :: bool
  de_code :: "string option"
  de_unique :: bool

datatype sqlx_error = Database database_error | Protocol string | PoolTimedOut | OtherSqlx

datatype sql_error =
    SqlNetworkNotFound | SqlDeviceNotFound | SqlRelayNotFound | SqlRouteNotFound | SqlDeviceUnauthorized
  | SqlDeviceForbidden | SqlRouteApproved | SqlInvalidPrefix | SqlInvalidKey | SqlInvalidAddress
  | SqlInvalidInvite | SqlPoolExhausted | SqlBadPool string | SqlDb sqlx_error

definition sqlite_busy :: "sqlx_error \<Rightarrow> bool" where
  "sqlite_busy e =
     (case e of
        Database d \<Rightarrow>
          de_sqlite d \<and>
          (case Option.bind (de_code d) (parse_uint 32) of Some code \<Rightarrow> code mod 256 \<in> {5, 6} | None \<Rightarrow> False)
      | _ \<Rightarrow> False)"

definition retryable :: "sqlx_error \<Rightarrow> bool" where
  "retryable e =
     (case e of
        Database d \<Rightarrow>
          (case de_code d of
             Some code \<Rightarrow> code \<in> set [''40001'', ''40P01'', ''5'', ''6'', ''261'', ''262'', ''517'']
           | None \<Rightarrow> False)
      | _ \<Rightarrow> False)"

text \<open>The constant-time comparison on the bytes of two texts.\<close>

definition ct_eq_text :: "string \<Rightarrow> string \<Rightarrow> bool" where
  "ct_eq_text a b = ct_eq (map (\<lambda>c. word_of_nat (of_char c)) a) (map (\<lambda>c. word_of_nat (of_char c)) b)"

lemma ct_eq_text_iff [simp]: "ct_eq_text a b \<longleftrightarrow> a = b"
proof -
  have "unat (word_of_nat (of_char c) :: byte) = of_char c" for c
    by (simp add: unat_of_nat)
  then have "inj (\<lambda>c. word_of_nat (of_char c) :: byte)"
    by (intro injI) (metis of_char_eq_iff)
  then show ?thesis by (simp add: ct_eq_text_def inj_map_eq_map)
qed

section \<open>Tables\<close>

record network_row =
  nr_name :: string
  nr_ipv4_pool :: string
  nr_ipv6_ula :: string
  nr_config_epoch :: int

record invite_row =
  ir_network_id :: string
  ir_expires_at :: "int option"
  ir_max_uses :: "int option"
  ir_uses :: int

record device_row =
  dr_network_id :: string
  dr_name :: string
  dr_wg_public_key :: string
  dr_address_v4 :: "string option"
  dr_address_v6 :: "string option"
  dr_status :: string
  dr_endpoints :: "string option"
  dr_settings :: "string option"
  dr_auth_token :: "string option"

record relay_row =
  rr_region :: string
  rr_url :: string
  rr_network_id :: "string option"
  rr_anytls :: int
  rr_stun_url :: "string option"
  rr_node_id :: "string option"
  rr_public_key :: "string option"

record route_row =
  or_network_id :: string
  or_device_id :: string
  or_prefix :: string
  or_approved :: int

record stats_row =
  sr_rx_bytes :: int
  sr_tx_bytes :: int
  sr_peers :: "string option"
  sr_updated_at :: int

record admin_row =
  ar_password_hash :: string
  ar_created_at :: int

record audit_entry =
  ae_ts :: int
  ae_actor :: string
  ae_action :: string

text \<open>The sequence is the row \<^verbatim>\<open>entity\<close> of \<^verbatim>\<open>control_sequence\<close>, if there is one.\<close>

record db =
  t_network :: "(string, network_row) fmap"
  t_invite :: "(string, invite_row) fmap"
  t_device :: "(string, device_row) fmap"
  t_relay :: "(string, relay_row) fmap"
  t_route :: "(string, route_row) fmap"
  t_device_stats :: "(string, stats_row) fmap"
  t_admin :: "(string, admin_row) fmap"
  t_audit :: "audit_entry list"
  t_sequence :: "int option"

section \<open>Sessions and actions\<close>

text \<open>
  What the server holds besides the tables: the statements run so far, the index of the next network
  pool and the watch channels.
\<close>

record db_session =
  tables :: db
  statements :: nat
  ss_net_index :: u64
  watchers :: "(string, watch) fmap"

record backend =
  b_fault :: "nat \<Rightarrow> sqlx_error option"
  b_unique :: sqlx_error
  b_order :: "string iter_order"

type_synonym 'a action = "backend \<Rightarrow> db_session \<Rightarrow> db_session \<times> (sql_error + 'a)"

definition yield :: "'a \<Rightarrow> 'a action" where
  "yield x = (\<lambda>B s. (s, Inr x))"

definition fail :: "sql_error \<Rightarrow> 'a action" where
  "fail e = (\<lambda>B s. (s, Inl e))"

definition andthen :: "'a action \<Rightarrow> ('a \<Rightarrow> 'b action) \<Rightarrow> 'b action" where
  "andthen m f = (\<lambda>B s. case m B s of (s, Inl e) \<Rightarrow> (s, Inl e) | (s, Inr x) \<Rightarrow> f x B s)"

text \<open>One statement: the database may refuse it, or run it.\<close>

definition statement :: "(backend \<Rightarrow> db \<Rightarrow> sqlx_error + db \<times> 'a) \<Rightarrow> 'a action" where
  "statement q = (\<lambda>B s.
     let n = statements s; s = s\<lparr>statements := Suc n\<rparr>
     in case b_fault B n of
          Some e \<Rightarrow> (s, Inl (SqlDb e))
        | None \<Rightarrow>
            (case q B (tables s) of
               Inl e \<Rightarrow> (s, Inl (SqlDb e))
             | Inr (t, x) \<Rightarrow> (s\<lparr>tables := t\<rparr>, Inr x)))"

definition select :: "(string iter_order \<Rightarrow> db \<Rightarrow> 'a) \<Rightarrow> 'a action" where
  "select q = statement (\<lambda>B t. Inr (t, q (b_order B) t))"

definition update :: "(db \<Rightarrow> db) \<Rightarrow> unit action" where
  "update u = statement (\<lambda>B t. Inr (u t, ()))"

definition guarded :: "(db \<Rightarrow> bool) \<Rightarrow> (db \<Rightarrow> db) \<Rightarrow> unit action" where
  "guarded unique u = statement (\<lambda>B t. if unique t then Inr (u t, ()) else Inl (b_unique B))"

definition require :: "'a option \<Rightarrow> sql_error \<Rightarrow> 'a action" where
  "require x e = (case x of None \<Rightarrow> fail e | Some v \<Rightarrow> yield v)"

fun for_each :: "('a \<Rightarrow> 'b \<Rightarrow> 'b action) \<Rightarrow> 'a list \<Rightarrow> 'b \<Rightarrow> 'b action" where
  "for_each f [] acc = yield acc"
| "for_each f (x # xs) acc = andthen (f x acc) (for_each f xs)"

text \<open>A transaction: what it did is undone unless it reaches its commit and the commit succeeds. A commit that
  is reported as failed has not happened.\<close>

definition transaction :: "'a action \<Rightarrow> 'a action" where
  "transaction m = (\<lambda>B s.
     case andthen (statement (\<lambda>B t. Inr (t, ())))
            (\<lambda>_. andthen m (\<lambda>x. andthen (statement (\<lambda>B t. Inr (t, ()))) (\<lambda>_. yield x))) B s of
       (s', Inl e) \<Rightarrow> (s'\<lparr>tables := tables s\<rparr>, Inl e)
     | (s', Inr x) \<Rightarrow> (s', Inr x))"

section \<open>Identifiers and the lock\<close>

text \<open>The lock of every transaction that allocates: a write to the row of the sequence, which must exist.\<close>

definition integrity_lock :: "unit action" where
  "integrity_lock =
     statement (\<lambda>B t. if t_sequence t = None then Inl (Protocol ''entity ID sequence missing'') else Inr (t, ()))"

definition locked :: "'a action \<Rightarrow> 'a action" where
  "locked m = transaction (andthen integrity_lock (\<lambda>_. m))"

definition integrity_next :: "int action" where
  "integrity_next =
     statement (\<lambda>B t. case t_sequence t of
        Some v \<Rightarrow> if v < 9223372036854775807 then Inr (t\<lparr>t_sequence := Some (v + 1)\<rparr>, v + 1)
                  else Inl (Protocol ''entity ID sequence exhausted or missing'')
      | None \<Rightarrow> Inl (Protocol ''entity ID sequence exhausted or missing''))"

definition entity_id :: "string \<Rightarrow> int \<Rightarrow> string" where
  "entity_id kind n = kind @ show_dec (nat n)"

section \<open>Queries: routes, statistics and relays\<close>

definition row_to_route :: "string \<Rightarrow> route_row \<Rightarrow> route" where
  "row_to_route i r =
     \<lparr>route_id = i, route_network_id = or_network_id r, route_device_id = or_device_id r,
      route_prefix = or_prefix r, approved = (or_approved r \<noteq> 0)\<rparr>"

text \<open>The rows of a table that satisfy a condition, with their keys.\<close>

definition rows :: "string iter_order \<Rightarrow> (string, 'r) fmap \<Rightarrow> (string \<Rightarrow> 'r \<Rightarrow> bool) \<Rightarrow> (string \<times> 'r) list" where
  "rows ord m cond = filter (\<lambda>(k, r). cond k r) (map (\<lambda>k. (k, the (fmlookup m k))) (hm_keys ord m))"

definition fm_update :: "'k \<Rightarrow> ('v \<Rightarrow> 'v) \<Rightarrow> ('k, 'v) fmap \<Rightarrow> ('k, 'v) fmap" where
  "fm_update k f m = (case fmlookup m k of None \<Rightarrow> m | Some v \<Rightarrow> fmupd k (f v) m)"

lemma fm_update_lookup [simp]:
  "fmlookup (fm_update k f m) j = (if j = k then map_option f (fmlookup m k) else fmlookup m j)"
  by (simp add: fm_update_def split: option.split)

lemma fmdrop_fm_update [simp]: "fmdrop k (fm_update k f m) = fmdrop k m"
  by (rule fmap_ext) simp

lemma set_rows:
  "iter_ok ord \<Longrightarrow> (k, r) \<in> set (rows ord m cond) \<longleftrightarrow> fmlookup m k = Some r \<and> cond k r"
  by (auto simp: rows_def set_hm_keys)

definition db_insert_route :: "route \<Rightarrow> unit action" where
  "db_insert_route r =
     guarded (\<lambda>t. fmlookup (t_route t) (route_id r) = None)
       (\<lambda>t. t\<lparr>t_route := fmupd (route_id r)
          \<lparr>or_network_id = route_network_id r, or_device_id = route_device_id r, or_prefix = route_prefix r,
           or_approved = (if approved r then 1 else 0)\<rparr> (t_route t)\<rparr>)"

definition db_get_route :: "string \<Rightarrow> route option action" where
  "db_get_route i = select (\<lambda>ord t. map_option (row_to_route i) (fmlookup (t_route t) i))"

definition db_list_routes_for_device :: "string \<Rightarrow> route list action" where
  "db_list_routes_for_device device_id =
     select (\<lambda>ord t. map (\<lambda>(i, r). row_to_route i r) (rows ord (t_route t) (\<lambda>_ r. or_device_id r = device_id)))"

definition db_approved_routes_for_network :: "string \<Rightarrow> (string \<times> string) list action" where
  "db_approved_routes_for_network network_id =
     select (\<lambda>ord t. map (\<lambda>(_, r). (or_device_id r, or_prefix r))
       (rows ord (t_route t) (\<lambda>_ r. or_network_id r = network_id \<and> or_approved r \<noteq> 0)))"

definition db_set_route_approved :: "string \<Rightarrow> bool \<Rightarrow> unit action" where
  "db_set_route_approved i value =
     update (\<lambda>t. t\<lparr>t_route := fm_update i (\<lambda>r. r\<lparr>or_approved := if value then 1 else 0\<rparr>) (t_route t)\<rparr>)"

definition db_delete_route :: "string \<Rightarrow> unit action" where
  "db_delete_route i = update (\<lambda>t. t\<lparr>t_route := fmdrop i (t_route t)\<rparr>)"

definition db_upsert_device_stats :: "string \<Rightarrow> int \<Rightarrow> int \<Rightarrow> string \<Rightarrow> int \<Rightarrow> unit action" where
  "db_upsert_device_stats device_id rx tx peers_json at =
     update (\<lambda>t. t\<lparr>t_device_stats := fmupd device_id
       \<lparr>sr_rx_bytes = rx, sr_tx_bytes = tx, sr_peers = Some peers_json, sr_updated_at = at\<rparr> (t_device_stats t)\<rparr>)"

definition db_get_device_stats :: "string \<Rightarrow> (int \<times> int \<times> string \<times> int) option action" where
  "db_get_device_stats device_id =
     select (\<lambda>ord t. map_option
       (\<lambda>r. (sr_rx_bytes r, sr_tx_bytes r, case sr_peers r of Some p \<Rightarrow> p | None \<Rightarrow> [], sr_updated_at r))
       (fmlookup (t_device_stats t) device_id))"

definition db_list_network_stats :: "string \<Rightarrow> (string \<times> int \<times> int \<times> int) list action" where
  "db_list_network_stats network_id =
     select (\<lambda>ord t. map (\<lambda>(i, r). (i, sr_rx_bytes r, sr_tx_bytes r, sr_updated_at r))
       (rows ord (t_device_stats t)
         (\<lambda>i _. case fmlookup (t_device t) i of Some d \<Rightarrow> dr_network_id d = network_id | None \<Rightarrow> False)))"

definition relay_columns :: "relay_node \<Rightarrow> relay_row" where
  "relay_columns r =
     \<lparr>rr_region = rn_region r, rr_url = rn_url r, rr_network_id = rn_network_id r,
      rr_anytls = (if rn_anytls r then 1 else 0), rr_stun_url = rn_stun_url r, rr_node_id = rn_node_id r,
      rr_public_key = rn_public_key r\<rparr>"

definition db_insert_relay :: "relay_node \<Rightarrow> unit action" where
  "db_insert_relay r =
     guarded (\<lambda>t. fmlookup (t_relay t) (rn_id r) = None)
       (\<lambda>t. t\<lparr>t_relay := fmupd (rn_id r) (relay_columns r) (t_relay t)\<rparr>)"

definition row_to_relay :: "string \<Rightarrow> relay_row \<Rightarrow> relay_node" where
  "row_to_relay i r =
     \<lparr>rn_id = i, rn_region = rr_region r, rn_url = rr_url r, rn_network_id = rr_network_id r,
      rn_anytls = (rr_anytls r \<noteq> 0), rn_stun_url = rr_stun_url r, rn_node_id = rr_node_id r,
      rn_public_key = rr_public_key r\<rparr>"

definition db_list_relays :: "string \<Rightarrow> relay_node list action" where
  "db_list_relays network_id =
     select (\<lambda>ord t. map (\<lambda>(i, r). row_to_relay i r)
       (rows ord (t_relay t) (\<lambda>_ r. rr_network_id r = Some network_id \<or> rr_network_id r = None)))"

section \<open>Queries: networks and invites\<close>

text \<open>\<^verbatim>\<open>str::join\<close>.\<close>

fun join :: "string \<Rightarrow> string list \<Rightarrow> string" where
  "join sep [] = []"
| "join sep [x] = x"
| "join sep (x # xs) = x @ sep @ join sep xs"

definition set_device :: "string \<Rightarrow> (device_row \<Rightarrow> device_row) \<Rightarrow> db \<Rightarrow> db" where
  "set_device i f t = t\<lparr>t_device := fm_update i f (t_device t)\<rparr>"

definition db_set_device_endpoints :: "string \<Rightarrow> string list \<Rightarrow> unit action" where
  "db_set_device_endpoints i eps = update (set_device i (\<lambda>r. r\<lparr>dr_endpoints := Some (join '','' eps)\<rparr>))"

definition db_get_device_endpoints :: "string \<Rightarrow> string list action" where
  "db_get_device_endpoints i =
     select (\<lambda>ord t. case Option.bind (fmlookup (t_device t) i) dr_endpoints of
        Some s \<Rightarrow> filter (\<lambda>x. x \<noteq> []) (split_any '','' s)
      | None \<Rightarrow> [])"

definition row_to_network :: "string \<Rightarrow> network_row \<Rightarrow> network" where
  "row_to_network i r =
     \<lparr>net_id = i, net_name = nr_name r, ipv4_pool = nr_ipv4_pool r, ipv6_ula = nr_ipv6_ula r,
      config_epoch = word_of_int (nr_config_epoch r)\<rparr>"

definition db_insert_network :: "network \<Rightarrow> unit action" where
  "db_insert_network n =
     guarded (\<lambda>t. fmlookup (t_network t) (net_id n) = None)
       (\<lambda>t. t\<lparr>t_network := fmupd (net_id n)
          \<lparr>nr_name = net_name n, nr_ipv4_pool = ipv4_pool n, nr_ipv6_ula = ipv6_ula n,
           nr_config_epoch = sint (config_epoch n)\<rparr> (t_network t)\<rparr>)"

definition db_get_network :: "string \<Rightarrow> network option action" where
  "db_get_network i = select (\<lambda>ord t. map_option (row_to_network i) (fmlookup (t_network t) i))"

definition bump_row :: "string \<Rightarrow> db \<Rightarrow> db" where
  "bump_row i t = t\<lparr>t_network := fm_update i (\<lambda>r. r\<lparr>nr_config_epoch := nr_config_epoch r + 1\<rparr>) (t_network t)\<rparr>"

definition db_bump_network_epoch :: "string \<Rightarrow> unit action" where
  "db_bump_network_epoch i = update (bump_row i)"

definition db_insert_invite :: "invite \<Rightarrow> unit action" where
  "db_insert_invite v =
     guarded (\<lambda>t. fmlookup (t_invite t) (inv_code v) = None)
       (\<lambda>t. t\<lparr>t_invite := fmupd (inv_code v)
          \<lparr>ir_network_id = inv_network_id v, ir_expires_at = expires_at v,
           ir_max_uses = map_option uint (max_uses v), ir_uses = uint (inv_uses v)\<rparr> (t_invite t)\<rparr>)"

definition row_to_invite :: "string \<Rightarrow> invite_row \<Rightarrow> invite" where
  "row_to_invite code r =
     \<lparr>inv_code = code, inv_network_id = ir_network_id r, expires_at = ir_expires_at r,
      max_uses = map_option word_of_int (ir_max_uses r), inv_uses = word_of_int (ir_uses r)\<rparr>"

definition db_get_invite :: "string \<Rightarrow> invite option action" where
  "db_get_invite code = select (\<lambda>ord t. map_option (row_to_invite code) (fmlookup (t_invite t) code))"

definition db_list_invites :: "string \<Rightarrow> invite list action" where
  "db_list_invites network_id =
     select (\<lambda>ord t. map (\<lambda>(c, r). row_to_invite c r) (rows ord (t_invite t) (\<lambda>_ r. ir_network_id r = network_id)))"

definition db_list_networks :: "network list action" where
  "db_list_networks = select (\<lambda>ord t. map (\<lambda>(i, r). row_to_network i r) (rows ord (t_network t) (\<lambda>_ _. True)))"

definition db_count_networks :: "int action" where
  "db_count_networks = select (\<lambda>ord t. int (hm_len (t_network t)))"

definition db_incr_invite_uses :: "string \<Rightarrow> unit action" where
  "db_incr_invite_uses code =
     update (\<lambda>t. t\<lparr>t_invite := fm_update code (\<lambda>r. r\<lparr>ir_uses := ir_uses r + 1\<rparr>) (t_invite t)\<rparr>)"

section \<open>Queries: devices\<close>

text \<open>The unique indexes on the active devices of a network: one for the key, one for the IPv4 address,
  in which rows without an address never collide.\<close>

definition active_row :: "device_row \<Rightarrow> bool" where
  "active_row r \<longleftrightarrow> dr_status r = ''active''"

definition collides :: "device_row \<Rightarrow> device_row \<Rightarrow> bool" where
  "collides a b \<longleftrightarrow>
     active_row a \<and> active_row b \<and> dr_network_id a = dr_network_id b \<and>
     (dr_wg_public_key a = dr_wg_public_key b \<or> dr_address_v4 a \<noteq> None \<and> dr_address_v4 a = dr_address_v4 b)"

definition device_free :: "string \<Rightarrow> device_row \<Rightarrow> (string, device_row) fmap \<Rightarrow> bool" where
  "device_free i r m \<longleftrightarrow> fmlookup m i = None \<and> \<not> fBex (fmran m) (collides r)"

definition status_text :: "device_status \<Rightarrow> string" where
  "status_text st = (case st of Active \<Rightarrow> ''active'' | Revoked \<Rightarrow> ''revoked'')"

definition db_insert_device :: "key_codec \<Rightarrow> device \<Rightarrow> unit action" where
  "db_insert_device K d =
     (case key_normalize K (wg_public_key d) of
        None \<Rightarrow> fail (SqlDb (Protocol ''invalid 32-byte public key''))
      | Some key \<Rightarrow>
          let row = \<lparr>dr_network_id = dev_network_id d, dr_name = dev_name d, dr_wg_public_key = key,
                     dr_address_v4 = address_v4 d, dr_address_v6 = address_v6 d,
                     dr_status = status_text (dev_status d), dr_endpoints = None, dr_settings = None,
                     dr_auth_token = None\<rparr>
          in guarded (\<lambda>t. device_free (dev_id d) row (t_device t))
               (\<lambda>t. t\<lparr>t_device := fmupd (dev_id d) row (t_device t)\<rparr>))"

definition db_set_device_token :: "string \<Rightarrow> string \<Rightarrow> unit action" where
  "db_set_device_token i token = update (set_device i (\<lambda>r. r\<lparr>dr_auth_token := Some token\<rparr>))"

text \<open>The condition that most queries put on a device: active, in a network that exists.\<close>

definition live_row :: "db \<Rightarrow> device_row \<Rightarrow> bool" where
  "live_row t r \<longleftrightarrow> active_row r \<and> fmlookup (t_network t) (dr_network_id r) \<noteq> None"

definition live_device :: "db \<Rightarrow> string \<Rightarrow> device_row option" where
  "live_device t i = (case fmlookup (t_device t) i of Some r \<Rightarrow> if live_row t r then Some r else None | None \<Rightarrow> None)"

definition db_get_device_token :: "string \<Rightarrow> string option action" where
  "db_get_device_token i = select (\<lambda>ord t. Option.bind (live_device t i) dr_auth_token)"

definition row_to_device :: "string \<Rightarrow> device_row \<Rightarrow> device" where
  "row_to_device i r =
     \<lparr>dev_id = i, dev_network_id = dr_network_id r, dev_name = dr_name r, wg_public_key = dr_wg_public_key r,
      address_v4 = dr_address_v4 r, address_v6 = dr_address_v6 r,
      dev_status = (if dr_status r = ''active'' then Active else Revoked)\<rparr>"

definition db_list_devices :: "string \<Rightarrow> device list action" where
  "db_list_devices network_id =
     select (\<lambda>ord t. map (\<lambda>(i, r). row_to_device i r) (rows ord (t_device t) (\<lambda>_ r. dr_network_id r = network_id)))"

definition db_get_device :: "string \<Rightarrow> device option action" where
  "db_get_device i = select (\<lambda>ord t. map_option (row_to_device i) (fmlookup (t_device t) i))"

definition db_set_device_settings :: "string \<Rightarrow> string \<Rightarrow> unit action" where
  "db_set_device_settings i settings_json = update (set_device i (\<lambda>r. r\<lparr>dr_settings := Some settings_json\<rparr>))"

definition db_get_device_settings :: "string \<Rightarrow> string action" where
  "db_get_device_settings i =
     select (\<lambda>ord t. case Option.bind (fmlookup (t_device t) i) dr_settings of
        Some s \<Rightarrow> if s = [] then ''{}'' else s
      | None \<Rightarrow> ''{}'')"

definition db_set_device_name :: "string \<Rightarrow> string \<Rightarrow> unit action" where
  "db_set_device_name i name = update (set_device i (\<lambda>r. r\<lparr>dr_name := name\<rparr>))"

section \<open>Queries: administrators and the audit log\<close>

definition db_count_admins :: "int action" where
  "db_count_admins = select (\<lambda>ord t. int (hm_len (t_admin t)))"

definition db_admin_hash :: "string \<Rightarrow> string option action" where
  "db_admin_hash username = select (\<lambda>ord t. map_option ar_password_hash (fmlookup (t_admin t) username))"

definition db_create_admin :: "string \<Rightarrow> string \<Rightarrow> int \<Rightarrow> unit action" where
  "db_create_admin username hash now =
     guarded (\<lambda>t. fmlookup (t_admin t) username = None)
       (\<lambda>t. t\<lparr>t_admin := fmupd username \<lparr>ar_password_hash = hash, ar_created_at = now\<rparr> (t_admin t)\<rparr>)"

definition db_update_admin_password :: "string \<Rightarrow> string \<Rightarrow> unit action" where
  "db_update_admin_password username hash =
     update (\<lambda>t. t\<lparr>t_admin := fm_update username (\<lambda>r. r\<lparr>ar_password_hash := hash\<rparr>) (t_admin t)\<rparr>)"

definition db_list_admins :: "string list action" where
  "db_list_admins = select (\<lambda>ord t. hm_keys ord (t_admin t))"

definition db_delete_admin :: "string \<Rightarrow> unit action" where
  "db_delete_admin username = update (\<lambda>t. t\<lparr>t_admin := fmdrop username (t_admin t)\<rparr>)"

definition db_insert_audit :: "int \<Rightarrow> string \<Rightarrow> string \<Rightarrow> unit action" where
  "db_insert_audit ts actor act =
     update (\<lambda>t. t\<lparr>t_audit := t_audit t @ [\<lparr>ae_ts = ts, ae_actor = actor, ae_action = act\<rparr>]\<rparr>)"

definition db_list_audit :: "nat \<Rightarrow> audit_entry list action" where
  "db_list_audit limit = select (\<lambda>ord t. take limit (sort_key (\<lambda>e. - ae_ts e) (t_audit t)))"

section \<open>Retries\<close>

text \<open>
  A write is repeated while the database reports contention: SQLite at most three times in all, the
  serialization failures of PostgreSQL at most eight times, and those only where the caller asks. The
  attempts are numbered, since each of them draws its own random values.
\<close>

function retry_from :: "bool \<Rightarrow> (nat \<Rightarrow> 'a action) \<Rightarrow> nat \<Rightarrow> 'a action" where
  "retry_from legacy_pg_retry write attempt B s =
     (case write attempt B s of
        (s', Inl (SqlDb e)) \<Rightarrow>
          if sqlite_busy e then
            if 2 \<le> attempt then (s', Inl (SqlDb e))
            else retry_from legacy_pg_retry write (attempt + 1) B s'
          else if legacy_pg_retry \<and> retryable e \<and> attempt < 7 then
            retry_from legacy_pg_retry write (attempt + 1) B s'
          else (s', Inl (SqlDb e))
      | r \<Rightarrow> r)"
  by pat_completeness auto
termination
  by (relation "measure (\<lambda>(l, w, attempt, B, s). 8 - attempt)") auto

declare retry_from.simps [simp del]

definition retry :: "bool \<Rightarrow> (nat \<Rightarrow> 'a action) \<Rightarrow> 'a action" where
  "retry legacy_pg_retry write = retry_from legacy_pg_retry write 0"

end
