(* ===== verification/Sql_Store.thy ===== *)
theory Sql_Store
  imports Sql_Tables
begin

text \<open>
  The persistent coordination store (control-server/src/sql_store.rs and device_routes.rs): every
  operation as an action on the session, with its transactions, its early returns and the
  notifications it sends after the commit. Random values are functions of the attempt that draws them;
  the settings of a device are JSON, read by a package that is a parameter.
\<close>

section \<open>Notifications and identifiers\<close>

definition set_watch :: "string \<Rightarrow> (watch \<Rightarrow> watch) \<Rightarrow> db_session \<Rightarrow> db_session" where
  "set_watch i f s = s\<lparr>watchers := fm_update i f (watchers s)\<rparr>"

definition bump_and_notify :: "string \<Rightarrow> unit action" where
  "bump_and_notify network_id =
     andthen (db_bump_network_epoch network_id) (\<lambda>_.
     andthen (db_get_network network_id) (\<lambda>net B s.
       case net of
         Some net \<Rightarrow> (set_watch network_id (\<lambda>w. watch_send w (config_epoch net)) s, Inr ())
       | None \<Rightarrow> (s, Inr ())))"

text \<open>A new listener of a network; the channel is created when the network has none.\<close>

definition sqlstore_subscribe :: "db_session \<Rightarrow> string \<Rightarrow> db_session \<times> u64" where
  "sqlstore_subscribe s network_id =
     (let w = (case fmlookup (watchers s) network_id of Some w \<Rightarrow> w | None \<Rightarrow> \<lparr>w_value = 0, w_receivers = 0\<rparr>)
      in (s\<lparr>watchers := fmupd network_id (w\<lparr>w_receivers := w_receivers w + 1\<rparr>) (watchers s)\<rparr>, w_value w))"

definition sqlstore_network_of :: "string \<Rightarrow> string option action" where
  "sqlstore_network_of device_id = andthen (db_get_device device_id) (\<lambda>d. yield (map_option dev_network_id d))"

definition next_seq_once :: "int action" where
  "next_seq_once = locked integrity_next"

definition sqlstore_next_seq :: "int action" where
  "sqlstore_next_seq = retry True (\<lambda>_. next_seq_once)"

text \<open>After a commit: the channel takes the epoch over if it is newer. A failing query is only logged.\<close>

definition notify :: "string \<Rightarrow> unit action" where
  "notify network_id = (\<lambda>B s.
     case db_get_network network_id B s of
       (s, Inr (Some net)) \<Rightarrow>
         (set_watch network_id (\<lambda>w. if config_epoch net \<le> w_value w then w else w\<lparr>w_value := config_epoch net\<rparr>) s, Inr ())
     | (s, _) \<Rightarrow> (s, Inr ()))"

section \<open>Networks and invites\<close>

definition sqlstore_create_network :: "string \<Rightarrow> network action" where
  "sqlstore_create_network name = (\<lambda>B s.
     let idx = ss_net_index s;
         s = s\<lparr>ss_net_index := idx + 1\<rparr>;
         octet = unat idx mod 200 + 16
     in andthen sqlstore_next_seq (\<lambda>n.
          let net = \<lparr>net_id = entity_id ''net-'' n, net_name = name,
                     ipv4_pool = ''100.72.'' @ show_dec octet @ ''.0/24'',
                     ipv6_ula = ''fd72:15ab:'' @ show_hex4 (ucast idx) @ ''::/48'', config_epoch = 0\<rparr>
          in andthen (db_insert_network net) (\<lambda>_ B s.
               (s\<lparr>watchers := fmupd (net_id net) \<lparr>w_value = 0, w_receivers = 0\<rparr> (watchers s)\<rparr>, Inr net))) B s)"

definition create_invite_once :: "string \<Rightarrow> string \<Rightarrow> int option \<Rightarrow> u32 option \<Rightarrow> invite action" where
  "create_invite_once code network_id expires limit =
     locked
      (andthen (db_get_network network_id) (\<lambda>net.
         if net = None then fail SqlNetworkNotFound
         else
           let v = \<lparr>inv_code = code, inv_network_id = network_id, expires_at = expires, max_uses = limit, inv_uses = 0\<rparr>
           in andthen (db_insert_invite v) (\<lambda>_. yield v)))"

definition sqlstore_create_invite :: "(nat \<Rightarrow> string) \<Rightarrow> string \<Rightarrow> int option \<Rightarrow> u32 option \<Rightarrow> invite action" where
  "sqlstore_create_invite code network_id expires limit =
     retry False (\<lambda>n. create_invite_once (code n) network_id expires limit)"

definition revoke_row :: "device_row \<Rightarrow> device_row" where
  "revoke_row r = r\<lparr>dr_status := ''revoked'', dr_auth_token := None, dr_address_v4 := None, dr_address_v6 := None\<rparr>"

text \<open>Everything of a network but its device rows, which stay as revoked tombstones.\<close>

definition delete_network_once :: "string \<Rightarrow> unit action" where
  "delete_network_once network_id =
     andthen
      (locked
        (andthen (db_get_network network_id) (\<lambda>net. andthen (require net SqlNetworkNotFound) (\<lambda>_.
         andthen (update (\<lambda>t. t\<lparr>t_device :=
           fmmap (\<lambda>r. if dr_network_id r = network_id then revoke_row r else r) (t_device t)\<rparr>)) (\<lambda>_.
         andthen (update (\<lambda>t. t\<lparr>t_device_stats :=
           hm_retain (\<lambda>i _. \<not> (case fmlookup (t_device t) i of Some r \<Rightarrow> dr_network_id r = network_id | None \<Rightarrow> False))
             (t_device_stats t)\<rparr>)) (\<lambda>_.
         andthen (update (\<lambda>t. t\<lparr>t_invite := hm_retain (\<lambda>_ r. ir_network_id r \<noteq> network_id) (t_invite t)\<rparr>)) (\<lambda>_.
         andthen (update (\<lambda>t. t\<lparr>t_route := hm_retain (\<lambda>_ r. or_network_id r \<noteq> network_id) (t_route t)\<rparr>)) (\<lambda>_.
         andthen (update (\<lambda>t. t\<lparr>t_relay := hm_retain (\<lambda>_ r. rr_network_id r \<noteq> Some network_id) (t_relay t)\<rparr>)) (\<lambda>_.
         andthen (db_bump_network_epoch network_id) (\<lambda>_.
         update (\<lambda>t. t\<lparr>t_network := fmdrop network_id (t_network t)\<rparr>)))))))))))
      (\<lambda>_ B s. (s\<lparr>watchers := fmdrop network_id (watchers s)\<rparr>, Inr ()))"

definition sqlstore_delete_network :: "string \<Rightarrow> unit action" where
  "sqlstore_delete_network network_id = retry False (\<lambda>_. delete_network_once network_id)"

definition revoke_invite_once :: "string \<Rightarrow> string \<Rightarrow> unit action" where
  "revoke_invite_once network_id code =
     locked
      (andthen (db_get_network network_id) (\<lambda>net.
         if net = None then fail SqlNetworkNotFound
         else
           andthen (statement (\<lambda>B t.
             case fmlookup (t_invite t) code of
               Some r \<Rightarrow> if ir_network_id r = network_id then Inr (t\<lparr>t_invite := fmdrop code (t_invite t)\<rparr>, 1 :: nat) else Inr (t, 0)
             | None \<Rightarrow> Inr (t, 0))) (\<lambda>affected.
           if affected = 0 then fail SqlInvalidInvite else yield ())))"

definition sqlstore_revoke_invite :: "string \<Rightarrow> string \<Rightarrow> unit action" where
  "sqlstore_revoke_invite network_id code = retry False (\<lambda>_. revoke_invite_once network_id code)"

definition sqlstore_list_networks :: "network list action" where
  "sqlstore_list_networks = db_list_networks"

definition sqlstore_list_invites :: "string \<Rightarrow> invite list action" where
  "sqlstore_list_invites network_id = db_list_invites network_id"

section \<open>Device tokens and names\<close>

definition sqlstore_token_network :: "string \<Rightarrow> string option action" where
  "sqlstore_token_network token =
     select (\<lambda>ord t. map_option (\<lambda>(_, r). dr_network_id r)
       (List.find (\<lambda>_. True) (rows ord (t_device t) (\<lambda>_ r. dr_auth_token r = Some token \<and> live_row t r))))"

definition sqlstore_list_devices :: "string \<Rightarrow> device list action" where
  "sqlstore_list_devices network_id =
     andthen (db_get_network network_id) (\<lambda>net.
       if net = None then fail SqlNetworkNotFound else db_list_devices network_id)"

definition sqlstore_resolve :: "string \<Rightarrow> string \<Rightarrow> device action" where
  "sqlstore_resolve network_id name =
     andthen (sqlstore_list_devices network_id) (\<lambda>ds.
       require (List.find (\<lambda>d. dev_name d = name \<and> dev_status d = Active) ds) SqlDeviceNotFound)"

definition sqlstore_device_token :: "string \<Rightarrow> string option action" where
  "sqlstore_device_token device_id = db_get_device_token device_id"

definition sqlstore_has_device_token :: "string \<Rightarrow> bool action" where
  "sqlstore_has_device_token token =
     select (\<lambda>ord t. rows ord (t_device t) (\<lambda>_ r. dr_auth_token r = Some token \<and> active_row r) \<noteq> [])"

section \<open>Addresses\<close>

text \<open>The part of a text before the first occurrence of a separator; \<^verbatim>\<open>u16::from_str_radix\<close>.\<close>

fun before :: "string \<Rightarrow> string \<Rightarrow> string" where
  "before sep [] = []"
| "before sep (c # cs) = (if take (length sep) (c # cs) = sep then [] else c # before sep cs)"

definition parse_hex16 :: "string \<Rightarrow> u16 option" where
  "parse_hex16 s =
     (let digits = (case s of c # cs \<Rightarrow> if c = CHR ''+'' then cs else s | [] \<Rightarrow> [])
      in case read_digits 16 (2 ^ 16) None 0 0 digits of
           Some (n, count, rest) \<Rightarrow> if 0 < count \<and> rest = [] then Some (word_of_nat n) else None
         | None \<Rightarrow> None)"

definition parse_v4_base :: "string \<Rightarrow> sql_error + byte list" where
  "parse_v4_base pool =
     (case parse_ipv4 (before ''/'' pool) of
        None \<Rightarrow> Inl (SqlBadPool pool)
      | Some ip \<Rightarrow> Inr (take 3 (to_be_bytes 4 ip)))"

definition parse_v6_prefix :: "string \<Rightarrow> sql_error + u16 list" where
  "parse_v6_prefix ula =
     (let parts = filter (\<lambda>p. p \<noteq> []) (split_any '':'' (before ''/'' (before ''::'' ula)))
      in if length parts < 3 then Inl (SqlBadPool ula)
         else case those (map parse_hex16 (take 3 parts)) of
                None \<Rightarrow> Inl (SqlBadPool ula)
              | Some segments \<Rightarrow> Inr segments)"

text \<open>The last octets that the active devices occupy, and the lowest free host of the device range.\<close>

definition used_hosts :: "device list \<Rightarrow> nat list" where
  "used_hosts ds =
     map (\<lambda>ip. unat (to_be_bytes 4 ip ! 3))
       (List.map_filter parse_ipv4
         (List.map_filter address_v4 (filter (\<lambda>d. dev_status d = Active) ds)))"

definition allocate_address :: "network \<Rightarrow> device list \<Rightarrow> sql_error + (u32 \<times> u128)" where
  "allocate_address net ds =
     rbind (parse_v4_base (ipv4_pool net)) (\<lambda>base.
     rbind (parse_v6_prefix (ipv6_ula net)) (\<lambda>v6p.
     case List.find (\<lambda>h. h \<notin> set (used_hosts ds)) [DEVICE_HOST_MIN..<Suc DEVICE_HOST_MAX] of
       None \<Rightarrow> Inl SqlPoolExhausted
     | Some host \<Rightarrow>
         Inr (from_be_bytes (base @ [word_of_nat host]), ipv6_of_segments (v6p @ [1, 0, 0, 0, word_of_nat host]))))"

section \<open>Enrolment and import\<close>

definition from_result :: "sql_error + 'a \<Rightarrow> 'a action" where
  "from_result r = (case r of Inl e \<Rightarrow> fail e | Inr x \<Rightarrow> yield x)"

text \<open>The conditional update that consumes one use of an invite, with the number of rows it changed.\<close>

definition consume_invite :: "string \<Rightarrow> int \<Rightarrow> nat action" where
  "consume_invite code now =
     statement (\<lambda>B t. case fmlookup (t_invite t) code of
        Some r \<Rightarrow>
          if (case ir_expires_at r of Some e \<Rightarrow> now < e | None \<Rightarrow> True) \<and>
             (case ir_max_uses r of Some m \<Rightarrow> ir_uses r < m | None \<Rightarrow> True)
          then Inr (t\<lparr>t_invite := fmupd code (r\<lparr>ir_uses := ir_uses r + 1\<rparr>) (t_invite t)\<rparr>, 1)
          else Inr (t, 0)
      | None \<Rightarrow> Inr (t, 0))"

definition enroll_new :: "key_codec \<Rightarrow> string \<Rightarrow> string \<Rightarrow> string \<Rightarrow> int \<Rightarrow> string \<Rightarrow> network \<Rightarrow> device list \<Rightarrow> (device \<times> string) action" where
  "enroll_new K invite_code name key now token net ds =
     andthen (consume_invite invite_code now) (\<lambda>consumed.
     if consumed \<noteq> 1 then fail SqlInvalidInvite
     else
       andthen (from_result (allocate_address net ds)) (\<lambda>(v4, v6).
       andthen integrity_next (\<lambda>n.
         let dev = \<lparr>dev_id = entity_id ''dev-'' n, dev_network_id = net_id net, dev_name = name, wg_public_key = key,
                    address_v4 = Some (show_ipv4 v4), address_v6 = Some (show_ipv6 v6), dev_status = Active\<rparr>
         in andthen (db_insert_device K dev) (\<lambda>_.
            andthen (db_set_device_token (dev_id dev) token) (\<lambda>_.
            andthen (db_bump_network_epoch (net_id net)) (\<lambda>_. yield (dev, token)))))))"

definition enroll_tx :: "key_codec \<Rightarrow> string \<Rightarrow> string \<Rightarrow> string \<Rightarrow> int \<Rightarrow> string \<Rightarrow> (device \<times> string) action" where
  "enroll_tx K invite_code name key now token =
     andthen (db_get_invite invite_code) (\<lambda>v. andthen (require v SqlInvalidInvite) (\<lambda>v.
     if (case expires_at v of Some expiry \<Rightarrow> expiry \<le> now | None \<Rightarrow> False) then fail SqlInvalidInvite
     else
       andthen (db_get_network (inv_network_id v)) (\<lambda>net. andthen (require net SqlNetworkNotFound) (\<lambda>net.
       andthen (db_list_devices (net_id net)) (\<lambda>ds.
         case List.find (\<lambda>d. dev_status d = Active \<and> wg_public_key d = key) ds of
           Some d \<Rightarrow> andthen (db_set_device_token (dev_id d) token) (\<lambda>_. yield (d, token))
         | None \<Rightarrow> enroll_new K invite_code name key now token net ds)))))"

definition enroll_once :: "key_codec \<Rightarrow> string \<Rightarrow> string \<Rightarrow> string \<Rightarrow> int \<Rightarrow> string \<Rightarrow> (device \<times> string) action" where
  "enroll_once K invite_code name key now token =
     andthen (locked (enroll_tx K invite_code name key now token)) (\<lambda>res.
     andthen (notify (dev_network_id (fst res))) (\<lambda>_. yield res))"

definition sqlstore_enroll :: "key_codec \<Rightarrow> (nat \<Rightarrow> string) \<Rightarrow> string \<Rightarrow> string \<Rightarrow> string \<Rightarrow> int \<Rightarrow> (device \<times> string) action" where
  "sqlstore_enroll K token invite_code name public_key now =
     (case key_normalize K public_key of
        None \<Rightarrow> fail SqlInvalidKey
      | Some key \<Rightarrow> retry True (\<lambda>n. enroll_once K invite_code name key now (token n)))"

definition import_one_row ::
    "key_codec \<Rightarrow> string \<Rightarrow> import_device \<times> string \<Rightarrow> string set \<times> import_result \<Rightarrow> (string set \<times> import_result) action" where
  "import_one_row K network_id = (\<lambda>(d, key) (seen, res).
     if key \<in> seen then yield (seen, res\<lparr>imp_skipped := imp_skipped res @ [key]\<rparr>)
     else
       andthen integrity_next (\<lambda>n.
         let dev = \<lparr>dev_id = entity_id ''dev-'' n, dev_network_id = network_id, dev_name = imp_name d,
                    wg_public_key = key, address_v4 = imp_address_v4 d, address_v6 = imp_address_v6 d,
                    dev_status = Active\<rparr>
         in andthen (db_insert_device K dev) (\<lambda>_.
            andthen (db_set_device_endpoints (dev_id dev) (imp_endpoints d)) (\<lambda>_.
            yield (insert key seen, res\<lparr>imp_created := imp_created res @ [dev]\<rparr>)))))"

definition import_once :: "key_codec \<Rightarrow> string \<Rightarrow> import_device list \<Rightarrow> string list \<Rightarrow> import_result action" where
  "import_once K network_id devs keys =
     andthen
      (locked
        (andthen (db_get_network network_id) (\<lambda>net.
         if net = None then fail SqlNetworkNotFound
         else
           andthen (db_list_devices network_id) (\<lambda>ds.
           andthen (for_each (import_one_row K network_id) (zip devs keys)
                     (wg_public_key ` set (filter (\<lambda>d. dev_status d = Active) ds), \<lparr>imp_created = [], imp_skipped = []\<rparr>))
            (\<lambda>(_, res).
           andthen (if imp_created res \<noteq> [] then db_bump_network_epoch network_id else yield ()) (\<lambda>_. yield res))))))
      (\<lambda>res. andthen (notify network_id) (\<lambda>_. yield res))"

definition import_address :: "import_device \<Rightarrow> import_device option" where
  "import_address d =
     (case imp_address_v4 d of
        None \<Rightarrow> Some d
      | Some a \<Rightarrow> map_option (\<lambda>ip. d\<lparr>imp_address_v4 := Some (show_ipv4 ip)\<rparr>) (parse_ipv4 a))"

definition sqlstore_import_devices :: "key_codec \<Rightarrow> string \<Rightarrow> import_device list \<Rightarrow> import_result action" where
  "sqlstore_import_devices K network_id devs =
     (case those (map import_address devs) of
        None \<Rightarrow> fail SqlInvalidAddress
      | Some devs \<Rightarrow>
          (case those (map (\<lambda>d. key_normalize K (imp_public_key d)) devs) of
             None \<Rightarrow> fail SqlInvalidKey
           | Some keys \<Rightarrow> retry True (\<lambda>_. import_once K network_id devs keys)))"

section \<open>Devices\<close>

definition revoke_device_once :: "string \<Rightarrow> unit action" where
  "revoke_device_once device_id =
     andthen
      (locked
        (andthen (db_get_device device_id) (\<lambda>d. andthen (require d SqlDeviceNotFound) (\<lambda>d.
         andthen (update (set_device device_id revoke_row)) (\<lambda>_.
         andthen (db_bump_network_epoch (dev_network_id d)) (\<lambda>_. yield d))))))
      (\<lambda>d. notify (dev_network_id d))"

definition sqlstore_revoke_device :: "string \<Rightarrow> unit action" where
  "sqlstore_revoke_device device_id = retry True (\<lambda>_. revoke_device_once device_id)"

definition sqlstore_rename_device :: "string \<Rightarrow> string \<Rightarrow> device action" where
  "sqlstore_rename_device device_id name =
     andthen (db_get_device device_id) (\<lambda>d. andthen (require d SqlDeviceNotFound) (\<lambda>d.
     andthen (db_set_device_name device_id name) (\<lambda>_. yield (d\<lparr>dev_name := name\<rparr>))))"

definition sqlstore_device_settings :: "string \<Rightarrow> string action" where
  "sqlstore_device_settings device_id =
     andthen (db_get_device device_id) (\<lambda>d.
       if d = None then fail SqlDeviceNotFound else db_get_device_settings device_id)"

definition sqlstore_set_device_settings :: "string \<Rightarrow> string \<Rightarrow> unit action" where
  "sqlstore_set_device_settings device_id settings_json =
     andthen (db_get_device device_id) (\<lambda>d. andthen (require d SqlDeviceNotFound) (\<lambda>d.
     andthen (db_set_device_settings device_id settings_json) (\<lambda>_. bump_and_notify (dev_network_id d))))"

section \<open>Routes\<close>

definition advertise_route_once :: "string \<Rightarrow> string \<Rightarrow> route action" where
  "advertise_route_once device_id prefix =
     locked
      (andthen (db_get_device device_id) (\<lambda>d. andthen (require d SqlDeviceNotFound) (\<lambda>d.
       andthen (if dev_status d \<noteq> Active then yield None else db_get_network (dev_network_id d)) (\<lambda>net.
       if dev_status d \<noteq> Active \<or> net = None then fail SqlDeviceNotFound
       else
         andthen integrity_next (\<lambda>n. andthen (require (normalize_prefix prefix) SqlInvalidPrefix) (\<lambda>prefix.
           let r = \<lparr>route_id = entity_id ''route-'' n, route_network_id = dev_network_id d,
                    route_device_id = device_id, route_prefix = prefix, approved = False\<rparr>
           in andthen (db_insert_route r) (\<lambda>_. yield r)))))))"

definition sqlstore_advertise_route :: "string \<Rightarrow> string \<Rightarrow> route action" where
  "sqlstore_advertise_route device_id prefix = retry False (\<lambda>_. advertise_route_once device_id prefix)"

definition sqlstore_list_device_routes :: "string \<Rightarrow> route list action" where
  "sqlstore_list_device_routes device_id = db_list_routes_for_device device_id"

definition sqlstore_approve_route :: "string \<Rightarrow> unit action" where
  "sqlstore_approve_route rid =
     andthen (db_get_route rid) (\<lambda>r. andthen (require r SqlRouteNotFound) (\<lambda>r.
     andthen (db_set_route_approved rid True) (\<lambda>_. bump_and_notify (route_network_id r))))"

definition sqlstore_delete_route :: "string \<Rightarrow> unit action" where
  "sqlstore_delete_route rid =
     andthen (db_get_route rid) (\<lambda>r. andthen (require r SqlRouteNotFound) (\<lambda>r.
     andthen (db_delete_route rid) (\<lambda>_.
     if approved r then bump_and_notify (route_network_id r) else yield ())))"

definition pending_request :: "string \<Rightarrow> string \<Rightarrow> route_row \<Rightarrow> bool" where
  "pending_request device prefix r \<longleftrightarrow> or_device_id r = device \<and> or_prefix r = prefix \<and> or_approved r = 0"

text \<open>
  A device asks for a route, or withdraws a request, with its own token, checked in the transaction.
  The rows come back ordered by prefix and then by identifier.
\<close>

definition device_route_change_once :: "string \<Rightarrow> string \<Rightarrow> string \<Rightarrow> bool \<Rightarrow> route list action" where
  "device_route_change_once device token prefix withdraw =
     locked
      (andthen (select (\<lambda>ord t. Option.bind (live_device t device) dr_auth_token)) (\<lambda>stored.
       if token = [] \<or> \<not> (case stored of Some v \<Rightarrow> ct_eq_text v token | None \<Rightarrow> False) then
         andthen (select (\<lambda>ord t. length (rows ord (t_device t) (\<lambda>_ r. dr_auth_token r = Some token \<and> live_row t r)))) (\<lambda>known.
           fail (if token \<noteq> [] \<and> 0 < known then SqlDeviceForbidden else SqlDeviceUnauthorized))
       else
         andthen (require (normalize_prefix prefix) SqlInvalidPrefix) (\<lambda>prefix.
         andthen (update (\<lambda>t. t)) (\<lambda>_.
         andthen (db_list_routes_for_device device) (\<lambda>rs.
         andthen
          (if withdraw then
             if list_ex (\<lambda>r. route_prefix r = prefix \<and> approved r) rs then fail SqlRouteApproved
             else update (\<lambda>t. t\<lparr>t_route := hm_retain (\<lambda>_ r. \<not> pending_request device prefix r) (t_route t)\<rparr>)
           else if \<not> list_ex (\<lambda>r. route_prefix r = prefix) rs then
             andthen (db_get_device device) (\<lambda>d. andthen (require d SqlDeviceNotFound) (\<lambda>d.
             andthen integrity_next (\<lambda>n.
               db_insert_route \<lparr>route_id = entity_id ''route-'' n, route_network_id = dev_network_id d,
                 route_device_id = device, route_prefix = prefix, approved = False\<rparr>)))
           else yield ()) (\<lambda>_.
         andthen (db_list_routes_for_device device) (\<lambda>rs.
         yield (sort_key route_prefix (sort_key route_id rs)))))))))"

definition sqlstore_device_route_change :: "string \<Rightarrow> string \<Rightarrow> string \<Rightarrow> bool \<Rightarrow> route list action" where
  "sqlstore_device_route_change device token prefix withdraw =
     retry False (\<lambda>_. device_route_change_once device token prefix withdraw)"

section \<open>Reports of a device\<close>

definition lock_active_device :: "string \<Rightarrow> unit action" where
  "lock_active_device device_id =
     andthen (statement (\<lambda>B t. Inr (t, if live_device t device_id = None then 0 else 1 :: nat))) (\<lambda>n.
       if n \<noteq> 1 then fail SqlDeviceNotFound else yield ())"

definition report_stats_once :: "string \<Rightarrow> int \<Rightarrow> int \<Rightarrow> string \<Rightarrow> int \<Rightarrow> unit action" where
  "report_stats_once device_id rx tx peers_json at =
     transaction (andthen (lock_active_device device_id) (\<lambda>_. db_upsert_device_stats device_id rx tx peers_json at))"

definition sqlstore_report_stats :: "string \<Rightarrow> int \<Rightarrow> int \<Rightarrow> string \<Rightarrow> int \<Rightarrow> unit action" where
  "sqlstore_report_stats device_id rx tx peers_json at =
     retry False (\<lambda>_. report_stats_once device_id rx tx peers_json at)"

definition sqlstore_device_stats :: "string \<Rightarrow> (int \<times> int \<times> string \<times> int) option action" where
  "sqlstore_device_stats device_id = db_get_device_stats device_id"

definition sqlstore_network_stats :: "string \<Rightarrow> (string \<times> int \<times> int \<times> int) list action" where
  "sqlstore_network_stats network_id = db_list_network_stats network_id"

definition set_endpoints_once :: "string \<Rightarrow> string list \<Rightarrow> unit action" where
  "set_endpoints_once device_id eps =
     andthen
      (transaction
        (andthen (lock_active_device device_id) (\<lambda>_.
         andthen (db_get_device device_id) (\<lambda>d. andthen (require d SqlDeviceNotFound) (\<lambda>d.
         andthen (db_set_device_endpoints device_id eps) (\<lambda>_.
         andthen (db_bump_network_epoch (dev_network_id d)) (\<lambda>_. yield d)))))))
      (\<lambda>d. notify (dev_network_id d))"

definition sqlstore_set_endpoints :: "string \<Rightarrow> string list \<Rightarrow> unit action" where
  "sqlstore_set_endpoints device_id eps = retry False (\<lambda>_. set_endpoints_once device_id eps)"

section \<open>The configuration of a device\<close>

text \<open>What the JSON package reads from the settings of a device: the integer \<^verbatim>\<open>mtu\<close>, the strings of the
  array \<^verbatim>\<open>dns\<close> and the string \<^verbatim>\<open>endpoint\<close>.\<close>

record settings_codec =
  sc_mtu :: "string \<Rightarrow> int option"
  sc_dns :: "string \<Rightarrow> string list option"
  sc_endpoint :: "string \<Rightarrow> string option"

definition is_exit :: "(string \<times> string) list \<Rightarrow> string \<Rightarrow> bool" where
  "is_exit appr device_id = list_ex (\<lambda>(did, prefix). did = device_id \<and> is_default_prefix prefix) appr"

definition sql_allowed_ips :: "(string \<times> string) list \<Rightarrow> device \<Rightarrow> string list" where
  "sql_allowed_ips appr d =
     (case address_v4 d of Some v4 \<Rightarrow> [v4 @ ''/32''] | None \<Rightarrow> []) @
     (case address_v6 d of Some v6 \<Rightarrow> [v6 @ ''/128''] | None \<Rightarrow> []) @
     map snd (filter (\<lambda>(did, _). did = dev_id d) appr)"

definition sql_peer_config :: "settings_codec \<Rightarrow> (string \<times> string) list \<Rightarrow> device \<Rightarrow> peer_config list \<Rightarrow> peer_config list action" where
  "sql_peer_config J appr d peers =
     andthen (db_get_device_endpoints (dev_id d)) (\<lambda>eps.
     andthen (db_get_device_settings (dev_id d)) (\<lambda>ps.
     yield (peers @ [\<lparr>pc_public_key = wg_public_key d, pc_allowed_ips = sql_allowed_ips appr d,
       pc_endpoints = (case sc_endpoint J ps of Some ep \<Rightarrow> if ep = [] then eps else ep # eps | None \<Rightarrow> eps),
       pc_exit = is_exit appr (dev_id d)\<rparr>])))"

definition sqlstore_device_config :: "settings_codec \<Rightarrow> string \<Rightarrow> device_config action" where
  "sqlstore_device_config J device_id =
     andthen (db_get_device device_id) (\<lambda>me. andthen (require me SqlDeviceNotFound) (\<lambda>me.
     if dev_status me \<noteq> Active then fail SqlDeviceNotFound
     else
       andthen (db_get_network (dev_network_id me)) (\<lambda>net. andthen (require net SqlNetworkNotFound) (\<lambda>net.
       andthen (db_approved_routes_for_network (dev_network_id me)) (\<lambda>appr.
       andthen (db_get_device_settings device_id) (\<lambda>my_settings.
       andthen (db_list_devices (dev_network_id me)) (\<lambda>ds.
       andthen (for_each (sql_peer_config J appr) (filter (\<lambda>d. dev_id d \<noteq> dev_id me \<and> dev_status d = Active) ds) []) (\<lambda>peers.
       andthen (db_list_relays (dev_network_id me)) (\<lambda>relays.
       yield \<lparr>overlay_cidrs = [ipv4_pool net, ipv6_ula net], dc_network_id = dev_network_id me,
              dc_config_epoch = config_epoch net, dc_address_v4 = address_v4 me, dc_address_v6 = address_v6 me,
              dc_peers = peers, dc_relays = relays,
              dc_mtu = map_option (\<lambda>m. sint (word_of_int m :: 32 word)) (sc_mtu J my_settings),
              dc_dns = (case sc_dns J my_settings of Some dns \<Rightarrow> dns | None \<Rightarrow> []),
              dc_self_exit = is_exit appr (dev_id me)\<rparr>)))))))))"

section \<open>Relays\<close>

definition bump_all :: "string list \<Rightarrow> unit action" where
  "bump_all ids = for_each (\<lambda>i _. db_bump_network_epoch i) ids ()"

definition notify_all :: "string list \<Rightarrow> unit action" where
  "notify_all ids = for_each (\<lambda>i _. notify i) ids ()"

definition register_relay_once ::
    "string \<Rightarrow> string \<Rightarrow> string option \<Rightarrow> bool \<Rightarrow> string option \<Rightarrow> string option \<times> string option \<Rightarrow> relay_node action" where
  "register_relay_once region url network_id anytls stun_url identity =
     andthen
      (locked
        (andthen (case network_id of None \<Rightarrow> yield True | Some i \<Rightarrow> andthen (db_get_network i) (\<lambda>net. yield (net \<noteq> None))) (\<lambda>known.
         if \<not> known then fail SqlNetworkNotFound
         else
           andthen integrity_next (\<lambda>n.
             let r = \<lparr>rn_id = entity_id ''relay-'' n, rn_region = region, rn_url = url, rn_network_id = network_id,
                      rn_anytls = anytls, rn_stun_url = (case stun_url of Some u \<Rightarrow> Some u | None \<Rightarrow> Some url),
                      rn_node_id = fst identity, rn_public_key = snd identity\<rparr>
             in andthen (db_insert_relay r) (\<lambda>_.
                andthen (select (\<lambda>ord t. map fst (rows ord (t_network t) (\<lambda>i _. relay_serves network_id i)))) (\<lambda>nets.
                andthen (bump_all nets) (\<lambda>_. yield (r, nets))))))))
      (\<lambda>(r, nets). andthen (notify_all nets) (\<lambda>_. yield r))"

definition sqlstore_register_relay_authenticated ::
    "string \<Rightarrow> string \<Rightarrow> string option \<Rightarrow> bool \<Rightarrow> string option \<Rightarrow> string option \<times> string option \<Rightarrow> relay_node action" where
  "sqlstore_register_relay_authenticated region url network_id anytls stun_url identity =
     retry False (\<lambda>_. register_relay_once region url network_id anytls stun_url identity)"

definition sqlstore_register_relay ::
    "string \<Rightarrow> string \<Rightarrow> string option \<Rightarrow> bool \<Rightarrow> string option \<Rightarrow> string option \<Rightarrow> relay_node action" where
  "sqlstore_register_relay region url network_id anytls stun_url node_id =
     sqlstore_register_relay_authenticated region url network_id anytls stun_url (node_id, None)"

definition update_relay_once :: "relay_node \<Rightarrow> relay_node action" where
  "update_relay_once r =
     andthen
      (locked
        (andthen (case rn_network_id r of None \<Rightarrow> yield True | Some i \<Rightarrow> andthen (db_get_network i) (\<lambda>net. yield (net \<noteq> None))) (\<lambda>known.
         if \<not> known then fail SqlNetworkNotFound
         else
           andthen (select (\<lambda>ord t. map_option rr_network_id (fmlookup (t_relay t) (rn_id r)))) (\<lambda>old.
           andthen (require old SqlRelayNotFound) (\<lambda>old_scope.
           andthen (update (\<lambda>t. t\<lparr>t_relay := fm_update (rn_id r) (\<lambda>_. relay_columns r) (t_relay t)\<rparr>)) (\<lambda>_.
           andthen (select (\<lambda>ord t. map fst (rows ord (t_network t)
                     (\<lambda>i _. relay_serves old_scope i \<or> relay_serves (rn_network_id r) i)))) (\<lambda>nets.
           andthen (bump_all nets) (\<lambda>_. yield nets))))))))
      (\<lambda>nets. andthen (notify_all nets) (\<lambda>_. yield r))"

definition sqlstore_update_relay :: "relay_node \<Rightarrow> relay_node action" where
  "sqlstore_update_relay r = retry False (\<lambda>_. update_relay_once r)"

definition sqlstore_list_relays :: "string \<Rightarrow> relay_node list action" where
  "sqlstore_list_relays network_id = db_list_relays network_id"

section \<open>Administrators\<close>

definition sqlstore_record_audit :: "int \<Rightarrow> string \<Rightarrow> string \<Rightarrow> unit action" where
  "sqlstore_record_audit ts actor act = (\<lambda>B s. (fst (db_insert_audit ts actor act B s), Inr ()))"

end
