(* ===== verification/Http_Auth.thy ===== *)
theory Http_Auth
  imports Sql_Store Enroll_Pop
begin

text \<open>
  Administrators and their sessions (control-server/src/auth.rs) and the guards of the device endpoints
  (control-server/src/lib.rs). A handler takes the state of the server and returns it with a result or
  the status code of its error. What a request reads from outside (the database's faults, random
  texts, clocks, the salt of a password hash, the environment variable with the master key) is the
  record \<open>http_env\<close>; packages are the record \<open>http_lib\<close>.
\<close>

section \<open>Server state and handlers\<close>

record auth_session =
  as_username :: string
  as_expiry :: nat
  as_password_hash :: string

record server =
  sv_session :: db_session
  sv_master :: "string option"
  sv_sessions :: "(string, auth_session) fmap"
  sv_pending :: pending_map

text \<open>\<open>hl_json_value\<close> reads a JSON text and prints the value again; None if the text is not JSON.\<close>

record http_lib =
  hl_codec :: key_codec
  hl_crypto :: crypto
  hl_contributory :: "bytes \<Rightarrow> bool"
  hl_settings :: settings_codec
  hl_json_value :: "string \<Rightarrow> string option"
  hl_verify_password :: "string \<Rightarrow> string \<Rightarrow> bool"

text \<open>Clock readings and random texts are functions of the place that reads them, or of the attempt.\<close>

record http_env =
  he_backend :: backend
  he_admin_password :: "string option"
  he_random :: "nat \<Rightarrow> string"
  he_random_32 :: bytes
  he_instant :: "nat \<Rightarrow> nat"
  he_unix :: int
  he_millis :: int
  he_hash_password :: "string \<Rightarrow> string"
  he_path :: string

type_synonym 'a handler = "server \<Rightarrow> server \<times> (nat + 'a)"

definition hyield :: "'a \<Rightarrow> 'a handler" where
  "hyield x = (\<lambda>sv. (sv, Inr x))"

definition hfail :: "nat \<Rightarrow> 'a handler" where
  "hfail st = (\<lambda>sv. (sv, Inl st))"

definition hthen :: "'a handler \<Rightarrow> ('a \<Rightarrow> 'b handler) \<Rightarrow> 'b handler" where
  "hthen m f = (\<lambda>sv. case m sv of (sv, Inl st) \<Rightarrow> (sv, Inl st) | (sv, Inr x) \<Rightarrow> f x sv)"

definition run_sql :: "http_env \<Rightarrow> (sql_error \<Rightarrow> nat) \<Rightarrow> 'a action \<Rightarrow> 'a handler" where
  "run_sql E status m = (\<lambda>sv.
     case m (he_backend E) (sv_session sv) of
       (s, Inl e) \<Rightarrow> (sv\<lparr>sv_session := s\<rparr>, Inl (status e))
     | (s, Inr x) \<Rightarrow> (sv\<lparr>sv_session := s\<rparr>, Inr x))"

text \<open>A query whose failure the caller replaces by a value.\<close>

definition try_sql :: "http_env \<Rightarrow> 'a \<Rightarrow> 'a action \<Rightarrow> 'a handler" where
  "try_sql E fallback m = (\<lambda>sv.
     case m (he_backend E) (sv_session sv) of
       (s, Inl _) \<Rightarrow> (sv\<lparr>sv_session := s\<rparr>, Inr fallback)
     | (s, Inr x) \<Rightarrow> (sv\<lparr>sv_session := s\<rparr>, Inr x))"

definition internal_error :: "sql_error \<Rightarrow> nat" where
  "internal_error e = (case e of SqlDb d \<Rightarrow> if sqlite_busy d then 503 else 500 | _ \<Rightarrow> 500)"

definition sql_status :: "sql_error \<Rightarrow> nat" where
  "sql_status e =
     (case e of
        SqlNetworkNotFound \<Rightarrow> 404 | SqlDeviceNotFound \<Rightarrow> 404 | SqlRouteNotFound \<Rightarrow> 404 | SqlRelayNotFound \<Rightarrow> 404
      | SqlInvalidPrefix \<Rightarrow> 400 | SqlInvalidKey \<Rightarrow> 400 | SqlInvalidAddress \<Rightarrow> 400
      | SqlInvalidInvite \<Rightarrow> 403 | SqlDeviceUnauthorized \<Rightarrow> 401 | SqlDeviceForbidden \<Rightarrow> 403
      | SqlPoolExhausted \<Rightarrow> 409 | SqlRouteApproved \<Rightarrow> 409
      | SqlBadPool _ \<Rightarrow> internal_error e
      | SqlDb d \<Rightarrow> (case d of Database b \<Rightarrow> if de_unique b then 409 else internal_error e | _ \<Rightarrow> internal_error e))"

section \<open>Sessions\<close>

definition SESSION_TTL :: nat where "SESSION_TTL = 12 * 3600"

definition env_password :: "http_env \<Rightarrow> string option" where
  "env_password E = (case he_admin_password E of Some m \<Rightarrow> if m = [] then None else Some m | None \<Rightarrow> None)"

text \<open>The master key is read once, when the service starts.\<close>

definition auth_new :: "http_env \<Rightarrow> db_session \<Rightarrow> pending_map \<Rightarrow> server" where
  "auth_new E s p = \<lparr>sv_session = s, sv_master = env_password E, sv_sessions = fmempty, sv_pending = p\<rparr>"

definition auth_login :: "http_lib \<Rightarrow> http_env \<Rightarrow> string \<Rightarrow> string \<Rightarrow> string option handler" where
  "auth_login L E username password =
     hthen (try_sql E None (db_admin_hash username)) (\<lambda>hash.
       case hash of
         None \<Rightarrow> hyield None
       | Some hash \<Rightarrow>
           if \<not> hl_verify_password L password hash then hyield None
           else (\<lambda>sv. (sv\<lparr>sv_sessions := fmupd (he_random E 0)
                  \<lparr>as_username = username, as_expiry = he_instant E 0 + SESSION_TTL, as_password_hash = hash\<rparr> (sv_sessions sv)\<rparr>,
                 Inr (Some (he_random E 0)))))"

text \<open>The administrator a token belongs to. The hash is the version of the account: a session is dropped
  when it has expired or the stored hash is no longer the one it was opened with.\<close>

definition session_user :: "http_env \<Rightarrow> nat \<Rightarrow> string \<Rightarrow> string option handler" where
  "session_user E k token = (\<lambda>sv.
     case fmlookup (sv_sessions sv) token of
       None \<Rightarrow> (sv, Inr None)
     | Some ss \<Rightarrow>
         hthen (run_sql E internal_error (db_admin_hash (as_username ss))) (\<lambda>current.
           if he_instant E k < as_expiry ss \<and> current = Some (as_password_hash ss) then hyield (Some (as_username ss))
           else (\<lambda>sv. (sv\<lparr>sv_sessions := fmdrop token (sv_sessions sv)\<rparr>, Inr None))) sv)"

definition revoke_sessions :: "string \<Rightarrow> server \<Rightarrow> server" where
  "revoke_sessions username sv = sv\<lparr>sv_sessions := hm_retain (\<lambda>_ ss. as_username ss \<noteq> username) (sv_sessions sv)\<rparr>"

definition bearer_token :: "string option \<Rightarrow> string option" where
  "bearer_token authorization =
     Option.bind authorization (\<lambda>h. if take 7 h = ''Bearer '' then Some (drop 7 h) else None)"

definition valid_bearer :: "http_env \<Rightarrow> nat \<Rightarrow> string \<Rightarrow> bool handler" where
  "valid_bearer E k bearer =
     (\<lambda>sv.
        if (case sv_master sv of Some m \<Rightarrow> ct_eq_text bearer m | None \<Rightarrow> False) then (sv, Inr True)
        else hthen (session_user E k bearer) (\<lambda>user. hyield (user \<noteq> None)) sv)"

definition acting_user :: "http_env \<Rightarrow> nat \<Rightarrow> string option \<Rightarrow> string option handler" where
  "acting_user E k authorization =
     (case bearer_token authorization of None \<Rightarrow> hyield None | Some token \<Rightarrow> session_user E k token)"

definition is_master_bearer :: "http_env \<Rightarrow> string \<Rightarrow> bool" where
  "is_master_bearer E bearer = (case he_admin_password E of Some m \<Rightarrow> m \<noteq> [] \<and> ct_eq_text bearer m | None \<Rightarrow> False)"

text \<open>The account of a fresh database, with the password of the environment or a random one.\<close>

definition ensure_default_admin :: "http_env \<Rightarrow> server \<Rightarrow> server" where
  "ensure_default_admin E sv =
     fst (hthen (try_sql E 0 db_count_admins) (\<lambda>n.
       if 0 < n then hyield ()
       else
         let password = (case env_password E of Some m \<Rightarrow> m | None \<Rightarrow> he_random E 0)
         in try_sql E () (db_create_admin ''admin'' (he_hash_password E password) (he_unix E))) sv)"

section \<open>Guards of the device endpoints\<close>

definition require_device :: "http_env \<Rightarrow> string option \<Rightarrow> string \<Rightarrow> unit handler" where
  "require_device E authorization device_id =
     (case bearer_token authorization of
        None \<Rightarrow> hfail 401
      | Some tok \<Rightarrow>
          if is_master_bearer E tok then hyield ()
          else hthen (run_sql E internal_error (sqlstore_device_token device_id)) (\<lambda>stored.
            case stored of
              Some stored \<Rightarrow> if ct_eq_text stored tok then hyield () else hfail 401
            | None \<Rightarrow> hfail 401))"

definition nonempty_bearer :: "string option \<Rightarrow> string option" where
  "nonempty_bearer authorization = (case bearer_token authorization of Some t \<Rightarrow> if t = [] then None else Some t | None \<Rightarrow> None)"

definition require_device_read :: "http_env \<Rightarrow> string option \<Rightarrow> string \<Rightarrow> unit handler" where
  "require_device_read E authorization device_id =
     (case nonempty_bearer authorization of
        None \<Rightarrow> hfail 401
      | Some token \<Rightarrow>
          hthen (valid_bearer E 0 token) (\<lambda>admin.
          if admin then hyield ()
          else hthen (run_sql E internal_error (sqlstore_device_token device_id)) (\<lambda>stored.
            if (case stored of Some stored \<Rightarrow> ct_eq_text stored token | None \<Rightarrow> False) then hyield ()
            else hthen (run_sql E internal_error (sqlstore_has_device_token token)) (\<lambda>known.
              hfail (if known then 403 else 401)))))"

section \<open>Account management\<close>

definition admin_login :: "http_lib \<Rightarrow> http_env \<Rightarrow> string \<Rightarrow> string \<Rightarrow> (string \<times> string) handler" where
  "admin_login L E username password =
     hthen (auth_login L E username password) (\<lambda>token.
       case token of
         Some token \<Rightarrow>
           hthen (run_sql E internal_error (sqlstore_record_audit (he_millis E) username ''login'')) (\<lambda>_. hyield (token, username))
       | None \<Rightarrow> hfail 401)"

definition admin_me :: "http_env \<Rightarrow> string option \<Rightarrow> string handler" where
  "admin_me E authorization =
     hthen (acting_user E 2 authorization) (\<lambda>user. hyield (case user of Some u \<Rightarrow> u | None \<Rightarrow> []))"

definition admin_change_password :: "http_lib \<Rightarrow> http_env \<Rightarrow> string option \<Rightarrow> string \<Rightarrow> string \<Rightarrow> unit handler" where
  "admin_change_password L E authorization old_password new_password =
     hthen (acting_user E 2 authorization) (\<lambda>user.
       case user of
         None \<Rightarrow> hfail 400
       | Some user \<Rightarrow>
           if length new_password < 4 then hfail 400
           else hthen (try_sql E None (db_admin_hash user)) (\<lambda>hash.
             case hash of
               None \<Rightarrow> hfail 400
             | Some hash \<Rightarrow>
                 if \<not> hl_verify_password L old_password hash then hfail 401
                 else hthen (run_sql E internal_error (db_update_admin_password user (he_hash_password E new_password))) (\<lambda>_ sv.
                        (revoke_sessions user sv, Inr ()))))"

definition http_create_admin :: "http_env \<Rightarrow> string \<Rightarrow> string \<Rightarrow> unit handler" where
  "http_create_admin E username password =
     (if trim username = [] \<or> length password < 4 then hfail 400
      else hthen (try_sql E None (db_admin_hash username)) (\<lambda>known.
        if known \<noteq> None then hfail 409
        else run_sql E internal_error (db_create_admin username (he_hash_password E password) (he_unix E))))"

text \<open>Deleting an account: the check that it is not the last one and the deletion are separate queries.\<close>

definition delete_admin_check :: "http_env \<Rightarrow> string option \<Rightarrow> string \<Rightarrow> unit handler" where
  "delete_admin_check E authorization username =
     hthen (acting_user E 2 authorization) (\<lambda>acting.
       if acting = Some username then hfail 400
       else hthen (run_sql E internal_error db_count_admins) (\<lambda>n. if n \<le> 1 then hfail 400 else hyield ()))"

definition delete_admin_commit :: "http_env \<Rightarrow> string \<Rightarrow> unit handler" where
  "delete_admin_commit E username =
     hthen (run_sql E internal_error (db_delete_admin username)) (\<lambda>_ sv. (revoke_sessions username sv, Inr ()))"

definition http_delete_admin :: "http_env \<Rightarrow> string option \<Rightarrow> string \<Rightarrow> unit handler" where
  "http_delete_admin E authorization username =
     hthen (delete_admin_check E authorization username) (\<lambda>_. delete_admin_commit E username)"

end
