(* ===== verification/Http_Api.thy ===== *)
theory Http_Api
  imports Http_Auth
begin

text \<open>
  The HTTP interface over the persistent store (control-server/src/lib.rs): one handler per endpoint,
  the router with its open and its administrative half, the middleware of the latter and the pushes of
  a watched configuration. A request is what the framework extracts from path and body.
\<close>

section \<open>Gateways\<close>

record gateway_config =
  gw_node_pubkey :: string
  gw_node_addr :: string
  gw_node_port :: nat
  gw_transport_protocol :: string
  gw_iface_ipv4 :: "string option"
  gw_iface_ipv6 :: "string option"
  gw_mtu :: "int option"
  gw_dns :: "string list"
  gw_allowed_routes :: "string list"
  gw_config_epoch :: u64

text \<open>\<^verbatim>\<open>str::split_once\<close> at a text and \<^verbatim>\<open>str::rsplit_once\<close> at a character.\<close>

fun split_once_text :: "string \<Rightarrow> string \<Rightarrow> (string \<times> string) option" where
  "split_once_text sep [] = (if sep = [] then Some ([], []) else None)"
| "split_once_text sep (c # cs) =
     (if take (length sep) (c # cs) = sep then Some ([], drop (length sep) (c # cs))
      else map_option (map_prod (Cons c) id) (split_once_text sep cs))"

definition rsplit_once :: "char \<Rightarrow> string \<Rightarrow> (string \<times> string) option" where
  "rsplit_once c s = map_option (\<lambda>(a, b). (rev b, rev a)) (split_once c (rev s))"

definition parse_endpoint :: "string \<Rightarrow> (string \<times> nat) option" where
  "parse_endpoint ep =
     (let ep = trim ep
      in case strip_prefix CHR ''['' ep of
           Some rest \<Rightarrow>
             Option.bind (split_once_text '']:'' rest) (\<lambda>(host, port).
               map_option (\<lambda>p. (host, p)) (parse_uint 16 port))
         | None \<Rightarrow>
             Option.bind (rsplit_once CHR '':'' ep) (\<lambda>(host, port).
               if host = [] then None else map_option (\<lambda>p. (host, p)) (parse_uint 16 port)))"

definition is_exit_peer :: "peer_config \<Rightarrow> bool" where
  "is_exit_peer peer = list_ex (\<lambda>c. c = ''0.0.0.0/0'' \<or> c = ''::/0'') (pc_allowed_ips peer)"

fun first_some :: "('a \<Rightarrow> 'b option) \<Rightarrow> 'a list \<Rightarrow> 'b option" where
  "first_some f [] = None"
| "first_some f (x # xs) = (case f x of Some y \<Rightarrow> Some y | None \<Rightarrow> first_some f xs)"

definition gateway_of :: "device_config \<Rightarrow> bool \<Rightarrow> peer_config \<Rightarrow> gateway_config option" where
  "gateway_of cfg want_exit peer =
     (if want_exit \<and> \<not> is_exit_peer peer then None
      else first_some (\<lambda>ep. map_option (\<lambda>(node_addr, node_port).
        \<lparr>gw_node_pubkey = pc_public_key peer, gw_node_addr = node_addr, gw_node_port = node_port,
         gw_transport_protocol = ''udp'', gw_iface_ipv4 = dc_address_v4 cfg, gw_iface_ipv6 = dc_address_v6 cfg,
         gw_mtu = dc_mtu cfg, gw_dns = dc_dns cfg, gw_allowed_routes = pc_allowed_ips peer,
         gw_config_epoch = dc_config_epoch cfg\<rparr>) (parse_endpoint ep)) (pc_endpoints peer))"

definition select_gateway :: "device_config \<Rightarrow> gateway_config option" where
  "select_gateway cfg = first_some (\<lambda>want_exit. first_some (gateway_of cfg want_exit) (dc_peers cfg)) [True, False]"

section \<open>Requests and responses\<close>

record register_relay_req =
  rq_region :: string
  rq_url :: string
  rq_network_id :: "string option"
  rq_anytls :: bool
  rq_stun_url :: "string option"
  rq_node_id :: "string option"
  rq_public_key :: "string option"

record enroll_req =
  rq_invite_code :: string
  rq_name :: string
  rq_wg_public_key :: string
  rq_challenge_id :: "string option"
  rq_proof :: "string option"

datatype request =
    Login string string
  | EnrollChallenge string
  | Enroll enroll_req
  | GetConfig string
  | GetGateway string
  | SetEndpoints string "string list"
  | ReportStats string int int string
  | GetStats string
  | GetSettings string
  | ListDeviceRoutes string
  | DeviceAdvertise string string
  | DeviceUnadvertise string string
  | WatchDevice string
  | ListRelays string
  | ResolveName string string
  | RegisterRelay register_relay_req
  | UpdateRelay string register_relay_req
  | CreateNetwork string
  | ListNetworks
  | DeleteNetwork string
  | RevokeInvite string string
  | CreateInvite string "int option" "u32 option"
  | ListInvites string
  | ListDevices string
  | ImportDevices string "import_device list"
  | NetworkStats string
  | RevokeDevice string
  | RenameDevice string string
  | SetSettings string string
  | AdvertiseRoute string string
  | ApproveRoute string
  | DeleteRoute string
  | AdminMe
  | AuditLog
  | ChangePassword string string
  | ListAdmins
  | CreateAdmin string string
  | DeleteAdmin string

datatype body =
    Empty
  | LoggedIn string string
  | Challenged string string
  | Enrolled device string
  | Config device_config
  | Gateway gateway_config
  | Stats int int string int
  | Settings string
  | Routes "route list"
  | Watching string u64
  | Relays "relay_node list"
  | Resolved string "string option" "string option"
  | Relay relay_node
  | Created_network network
  | Networks "network list"
  | Created_invite invite
  | Invites "invite list"
  | Devices "device list"
  | Imported import_result
  | Network_stats "(string \<times> int \<times> int \<times> int) list"
  | Renamed device
  | Advertised route
  | Me string
  | Audit "audit_entry list"
  | Admins "string list"

type_synonym response = "nat \<times> body"

definition respond :: "nat \<Rightarrow> ('a \<Rightarrow> body) \<Rightarrow> 'a handler \<Rightarrow> response handler" where
  "respond status f m = hthen m (\<lambda>x. hyield (status, f x))"

definition valid_relay_identity :: "string \<Rightarrow> bool" where
  "valid_relay_identity s \<longleftrightarrow> s \<noteq> [] \<and> length s \<le> 128 \<and> list_all (\<lambda>c. let v = of_char c :: nat in 33 \<le> v \<and> v \<le> 126) s"

definition validate_relay_identity :: "http_lib \<Rightarrow> register_relay_req \<Rightarrow> unit handler" where
  "validate_relay_identity L req =
     (if (case rq_public_key req of Some key \<Rightarrow> key_decode (hl_codec L) key = None | None \<Rightarrow> False) then hfail 400
      else if (case rq_node_id req of Some i \<Rightarrow> \<not> valid_relay_identity i | None \<Rightarrow> False) then hfail 400
      else hyield ())"

definition relay_update :: "string \<Rightarrow> register_relay_req \<Rightarrow> relay_node" where
  "relay_update i req =
     \<lparr>rn_id = i, rn_region = rq_region req, rn_url = rq_url req, rn_network_id = rq_network_id req,
      rn_anytls = rq_anytls req,
      rn_stun_url = (case rq_stun_url req of Some u \<Rightarrow> Some u | None \<Rightarrow> Some (rq_url req)),
      rn_node_id = rq_node_id req, rn_public_key = rq_public_key req\<rparr>"

section \<open>Enrolment and device endpoints\<close>

definition sql_enroll_challenge :: "http_lib \<Rightarrow> http_env \<Rightarrow> string \<Rightarrow> response handler" where
  "sql_enroll_challenge L E key = (\<lambda>sv.
     case new_challenge (hl_codec L) (hl_crypto L) (hl_contributory L) (sv_pending sv) key (he_random_32 E) (he_random E 0) (he_instant E 0) of
       (p, Some c) \<Rightarrow> (sv\<lparr>sv_pending := p\<rparr>, Inr (200, Challenged (ch_challenge_id c) (ch_server_pub c)))
     | (p, None) \<Rightarrow> (sv\<lparr>sv_pending := p\<rparr>, Inl 400))"

definition sql_enroll :: "http_lib \<Rightarrow> http_env \<Rightarrow> enroll_req \<Rightarrow> response handler" where
  "sql_enroll L E req =
     (if key_decode (hl_codec L) (rq_wg_public_key req) = None then hfail 400
      else
        case (rq_challenge_id req, rq_proof req) of
          (Some cid, Some proof) \<Rightarrow>
            (\<lambda>sv.
               case verify_proof (hl_codec L) (hl_crypto L) (hl_contributory L) (sv_pending sv) cid (rq_wg_public_key req) proof (he_instant E 0) of
                 (p, verified) \<Rightarrow>
                   if \<not> verified then (sv\<lparr>sv_pending := p\<rparr>, Inl 401)
                   else respond 201 (\<lambda>(d, token). Enrolled d token)
                          (run_sql E sql_status (sqlstore_enroll (hl_codec L) (he_random E) (rq_invite_code req) (rq_name req)
                             (rq_wg_public_key req) (he_unix E))) (sv\<lparr>sv_pending := p\<rparr>))
        | _ \<Rightarrow> hfail 401)"

definition sql_device_config :: "http_lib \<Rightarrow> http_env \<Rightarrow> string option \<Rightarrow> string \<Rightarrow> response handler" where
  "sql_device_config L E authz i =
     hthen (require_device_read E authz i) (\<lambda>_.
       respond 200 Config (run_sql E sql_status (sqlstore_device_config (hl_settings L) i)))"

definition sql_device_gateway :: "http_lib \<Rightarrow> http_env \<Rightarrow> string option \<Rightarrow> string \<Rightarrow> response handler" where
  "sql_device_gateway L E authz i =
     hthen (require_device E authz i) (\<lambda>_.
     hthen (run_sql E sql_status (sqlstore_device_config (hl_settings L) i)) (\<lambda>cfg.
       case select_gateway cfg of Some g \<Rightarrow> hyield (200, Gateway g) | None \<Rightarrow> hfail 404))"

definition sql_set_endpoints :: "http_env \<Rightarrow> string option \<Rightarrow> string \<Rightarrow> string list \<Rightarrow> response handler" where
  "sql_set_endpoints E authz i eps =
     hthen (require_device E authz i) (\<lambda>_. respond 204 (\<lambda>_. Empty) (run_sql E sql_status (sqlstore_set_endpoints i eps)))"

definition sql_report_stats :: "http_env \<Rightarrow> string option \<Rightarrow> string \<Rightarrow> int \<Rightarrow> int \<Rightarrow> string \<Rightarrow> response handler" where
  "sql_report_stats E authz i rx tx peers_json =
     hthen (require_device E authz i) (\<lambda>_.
       respond 204 (\<lambda>_. Empty) (run_sql E sql_status (sqlstore_report_stats i rx tx peers_json (he_unix E))))"

definition stats_body :: "http_lib \<Rightarrow> (int \<times> int \<times> string \<times> int) option \<Rightarrow> body" where
  "stats_body L stats =
     (case stats of
        Some (rx, tx, peers, at) \<Rightarrow> Stats rx tx (case hl_json_value L peers of Some v \<Rightarrow> v | None \<Rightarrow> ''[]'') at
      | None \<Rightarrow> Stats 0 0 ''[]'' 0)"

definition sql_get_device_stats :: "http_lib \<Rightarrow> http_env \<Rightarrow> string option \<Rightarrow> string \<Rightarrow> response handler" where
  "sql_get_device_stats L E authz i =
     hthen (require_device_read E authz i) (\<lambda>_. respond 200 (stats_body L) (run_sql E sql_status (sqlstore_device_stats i)))"

definition sql_get_device_settings :: "http_lib \<Rightarrow> http_env \<Rightarrow> string option \<Rightarrow> string \<Rightarrow> response handler" where
  "sql_get_device_settings L E authz i =
     hthen (require_device_read E authz i) (\<lambda>_. respond 200 (\<lambda>raw. Settings (case hl_json_value L raw of Some v \<Rightarrow> v | None \<Rightarrow> ''{}''))
         (run_sql E sql_status (sqlstore_device_settings i)))"

definition sql_list_device_routes :: "http_env \<Rightarrow> string option \<Rightarrow> string \<Rightarrow> response handler" where
  "sql_list_device_routes E authz i =
     hthen (require_device_read E authz i) (\<lambda>_. respond 200 Routes (run_sql E sql_status (sqlstore_list_device_routes i)))"

definition sql_device_route :: "http_env \<Rightarrow> string option \<Rightarrow> string \<Rightarrow> string \<Rightarrow> bool \<Rightarrow> response handler" where
  "sql_device_route E authz i prefix withdraw =
     (case nonempty_bearer authz of
        None \<Rightarrow> hfail 401
      | Some token \<Rightarrow> respond 200 Routes (run_sql E sql_status (sqlstore_device_route_change i token prefix withdraw)))"

definition sql_resolve_name :: "http_env \<Rightarrow> string option \<Rightarrow> string \<Rightarrow> string \<Rightarrow> response handler" where
  "sql_resolve_name E authz n name =
     (case nonempty_bearer authz of
        None \<Rightarrow> hfail 401
      | Some token \<Rightarrow>
          hthen (valid_bearer E 0 token) (\<lambda>admin.
          hthen (if admin then hyield ()
                 else hthen (run_sql E sql_status (sqlstore_token_network token)) (\<lambda>network.
                   case network of Some m \<Rightarrow> if m = n then hyield () else hfail 403 | None \<Rightarrow> hfail 401)) (\<lambda>_.
            respond 200 (\<lambda>d. Resolved name (address_v4 d) (address_v6 d)) (run_sql E sql_status (sqlstore_resolve n name)))))"

section \<open>Watching a configuration\<close>

record watch_credential =
  wc_bearer :: string
  wc_master :: bool

definition sql_watch_device :: "http_env \<Rightarrow> string option \<Rightarrow> string \<Rightarrow> (watch_credential \<times> string \<times> u64) handler" where
  "sql_watch_device E authz i =
     hthen (require_device E authz i) (\<lambda>_.
     hthen (run_sql E sql_status (sqlstore_network_of i)) (\<lambda>network.
       case network of
         None \<Rightarrow> hfail 404
       | Some n \<Rightarrow>
           (case bearer_token authz of
              None \<Rightarrow> hfail 401
            | Some bearer \<Rightarrow>
                (\<lambda>sv. case sqlstore_subscribe (sv_session sv) n of
                   (s, epoch) \<Rightarrow> (sv\<lparr>sv_session := s\<rparr>, Inr (\<lparr>wc_bearer = bearer, wc_master = is_master_bearer E bearer\<rparr>, n, epoch))))))"

datatype push = PushConfig device_config | PushClose | PushPing

text \<open>One push, with the messages it sends and whether the socket stays open: the configuration is read
  first and the credential checked again before it is sent. \<open>in_time\<close> says that the attempt ends within its
  ten seconds and \<open>sent\<close> that the socket takes the message. An attempt cut off at the deadline may have
  sent its message or not; its effect on the store is that of queries that only read.\<close>

definition sql_send_config_inner ::
  "http_lib \<Rightarrow> http_env \<Rightarrow> bool \<Rightarrow> string \<Rightarrow> watch_credential \<Rightarrow> server \<Rightarrow> server \<times> push list \<times> bool" where
  "sql_send_config_inner L E sent i cred sv =
     (case run_sql E sql_status (sqlstore_device_config (hl_settings L) i) sv of
        (sv, Inl _) \<Rightarrow> (sv, [], False)
      | (sv, Inr cfg) \<Rightarrow>
          (case (if wc_master cred then (sv, is_master_bearer E (wc_bearer cred))
                 else case run_sql E sql_status (sqlstore_device_token i) sv of
                        (sv, Inr (Some current)) \<Rightarrow> (sv, ct_eq_text current (wc_bearer cred))
                      | (sv, _) \<Rightarrow> (sv, False)) of
             (sv, authorized) \<Rightarrow> if authorized then (sv, [PushConfig cfg], sent) else (sv, [PushClose], False)))"

definition sql_send_config ::
  "http_lib \<Rightarrow> http_env \<Rightarrow> bool \<Rightarrow> bool \<Rightarrow> string \<Rightarrow> watch_credential \<Rightarrow> server \<Rightarrow> server \<times> push list \<times> bool" where
  "sql_send_config L E in_time sent i cred sv =
     (case sql_send_config_inner L E sent i cred sv of (sv, out, alive) \<Rightarrow> (sv, out, in_time \<and> alive))"

text \<open>The branches of the loop; \<open>last_received\<close> and the clock are in seconds.\<close>

datatype watch_event = Incoming_end | Incoming_message nat | Changed bool bool bool | Heartbeat nat bool bool bool

definition WATCH_IDLE :: nat where "WATCH_IDLE = 90"

definition watch_step ::
  "http_lib \<Rightarrow> http_env \<Rightarrow> string \<Rightarrow> watch_credential \<Rightarrow> watch_event \<Rightarrow> nat \<Rightarrow> server \<Rightarrow> server \<times> push list \<times> nat option" where
  "watch_step L E i cred ev last_received sv =
     (case ev of
        Incoming_end \<Rightarrow> (sv, [], None)
      | Incoming_message now \<Rightarrow> (sv, [], Some now)
      | Changed closed in_time sent \<Rightarrow>
          if closed then (sv, [], None)
          else (case sql_send_config L E in_time sent i cred sv of
                  (sv, out, alive) \<Rightarrow> (sv, out, if alive then Some last_received else None))
      | Heartbeat now in_time sent pinged \<Rightarrow>
          if WATCH_IDLE \<le> now - last_received then (sv, [], None)
          else (case sql_send_config L E in_time sent i cred sv of
                  (sv, out, alive) \<Rightarrow>
                    if \<not> alive then (sv, out, None)
                    else (sv, out @ [PushPing], if pinged then Some last_received else None)))"

fun watch_events ::
  "http_lib \<Rightarrow> (nat \<Rightarrow> http_env) \<Rightarrow> string \<Rightarrow> watch_credential \<Rightarrow> watch_event list \<Rightarrow> nat \<Rightarrow> server \<Rightarrow> server \<times> push list" where
  "watch_events L E i cred [] last_received sv = (sv, [])"
| "watch_events L E i cred (ev # evs) last_received sv =
     (case watch_step L (E (length evs)) i cred ev last_received sv of
        (sv, out, None) \<Rightarrow> (sv, out)
      | (sv, out, Some t) \<Rightarrow> (case watch_events L E i cred evs t sv of (sv, rest) \<Rightarrow> (sv, out @ rest)))"

text \<open>The loop starts with a push; \<open>E k\<close> is the environment when \<open>k\<close> events are still to come after it.\<close>

definition sql_watch_loop ::
  "http_lib \<Rightarrow> (nat \<Rightarrow> http_env) \<Rightarrow> bool \<Rightarrow> bool \<Rightarrow> string \<Rightarrow> watch_credential \<Rightarrow> watch_event list \<Rightarrow> nat \<Rightarrow> server \<Rightarrow> server \<times> push list" where
  "sql_watch_loop L E in_time sent i cred evs now sv =
     (case sql_send_config L (E (length evs)) in_time sent i cred sv of
        (sv, out, False) \<Rightarrow> (sv, out)
      | (sv, out, True) \<Rightarrow> (case watch_events L E i cred evs now sv of (sv, rest) \<Rightarrow> (sv, out @ rest)))"

section \<open>Administration\<close>

definition sql_rename_device :: "http_env \<Rightarrow> string \<Rightarrow> string \<Rightarrow> response handler" where
  "sql_rename_device E i name =
     (let name = trim name
      in if name = [] then hfail 400 else respond 200 Renamed (run_sql E sql_status (sqlstore_rename_device i name)))"

definition sql_register_relay :: "http_lib \<Rightarrow> http_env \<Rightarrow> register_relay_req \<Rightarrow> response handler" where
  "sql_register_relay L E r =
     hthen (validate_relay_identity L r) (\<lambda>_.
       respond 201 Relay (run_sql E sql_status (sqlstore_register_relay_authenticated (rq_region r) (rq_url r)
         (rq_network_id r) (rq_anytls r) (rq_stun_url r) (rq_node_id r, rq_public_key r))))"

definition sql_update_relay :: "http_lib \<Rightarrow> http_env \<Rightarrow> string \<Rightarrow> register_relay_req \<Rightarrow> response handler" where
  "sql_update_relay L E i r =
     hthen (validate_relay_identity L r) (\<lambda>_.
       respond 200 Relay (run_sql E sql_status (sqlstore_update_relay (relay_update i r))))"

definition sql_create_network :: "http_env \<Rightarrow> string \<Rightarrow> response handler" where
  "sql_create_network E name =
     respond 201 Created_network (run_sql E sql_status (sqlstore_create_network name))"

definition sql_list_networks :: "http_env \<Rightarrow> response handler" where
  "sql_list_networks E =
     respond 200 Networks (run_sql E sql_status sqlstore_list_networks)"

definition sql_delete_network :: "http_env \<Rightarrow> string \<Rightarrow> response handler" where
  "sql_delete_network E n =
     respond 204 (\<lambda>_. Empty) (run_sql E sql_status (sqlstore_delete_network n))"

definition sql_revoke_invite :: "http_env \<Rightarrow> string \<Rightarrow> string \<Rightarrow> response handler" where
  "sql_revoke_invite E n c =
     respond 204 (\<lambda>_. Empty) (run_sql E sql_status (sqlstore_revoke_invite n c))"

definition sql_create_invite :: "http_env \<Rightarrow> string \<Rightarrow> int option \<Rightarrow> u32 option \<Rightarrow> response handler" where
  "sql_create_invite E n expires limit =
     respond 201 Created_invite (run_sql E sql_status (sqlstore_create_invite (he_random E) n expires limit))"

definition sql_list_invites :: "http_env \<Rightarrow> string \<Rightarrow> response handler" where
  "sql_list_invites E n =
     respond 200 Invites (run_sql E sql_status (sqlstore_list_invites n))"

definition sql_list_devices :: "http_env \<Rightarrow> string \<Rightarrow> response handler" where
  "sql_list_devices E n =
     respond 200 Devices (run_sql E sql_status (sqlstore_list_devices n))"

definition sql_import_devices :: "http_lib \<Rightarrow> http_env \<Rightarrow> string \<Rightarrow> import_device list \<Rightarrow> response handler" where
  "sql_import_devices L E n ds =
     respond 201 Imported (run_sql E sql_status (sqlstore_import_devices (hl_codec L) n ds))"

definition sql_network_stats :: "http_env \<Rightarrow> string \<Rightarrow> response handler" where
  "sql_network_stats E n =
     respond 200 Network_stats (run_sql E sql_status (sqlstore_network_stats n))"

definition sql_revoke :: "http_env \<Rightarrow> string \<Rightarrow> response handler" where
  "sql_revoke E i =
     respond 204 (\<lambda>_. Empty) (run_sql E sql_status (sqlstore_revoke_device i))"

definition sql_set_device_settings :: "http_env \<Rightarrow> string \<Rightarrow> string \<Rightarrow> response handler" where
  "sql_set_device_settings E i json =
     respond 204 (\<lambda>_. Empty) (run_sql E sql_status (sqlstore_set_device_settings i json))"

definition sql_advertise_route :: "http_env \<Rightarrow> string \<Rightarrow> string \<Rightarrow> response handler" where
  "sql_advertise_route E i p =
     respond 201 Advertised (run_sql E sql_status (sqlstore_advertise_route i p))"

definition sql_approve_route :: "http_env \<Rightarrow> string \<Rightarrow> response handler" where
  "sql_approve_route E r =
     respond 204 (\<lambda>_. Empty) (run_sql E sql_status (sqlstore_approve_route r))"

definition sql_delete_route :: "http_env \<Rightarrow> string \<Rightarrow> response handler" where
  "sql_delete_route E r =
     respond 204 (\<lambda>_. Empty) (run_sql E sql_status (sqlstore_delete_route r))"

definition http_audit_log :: "http_env \<Rightarrow> response handler" where
  "http_audit_log E =
     respond 200 Audit (run_sql E internal_error (db_list_audit 200))"

definition http_list_admins :: "http_env \<Rightarrow> response handler" where
  "http_list_admins E =
     respond 200 Admins (run_sql E internal_error db_list_admins)"

lemmas admin_handler_defs = sql_register_relay_def sql_update_relay_def sql_create_network_def sql_list_networks_def
  sql_delete_network_def sql_revoke_invite_def sql_create_invite_def sql_list_invites_def
  sql_list_devices_def sql_import_devices_def sql_network_stats_def sql_revoke_def
  sql_set_device_settings_def sql_advertise_route_def sql_approve_route_def sql_delete_route_def
  http_audit_log_def http_list_admins_def

definition admin_handler :: "http_lib \<Rightarrow> http_env \<Rightarrow> string option \<Rightarrow> request \<Rightarrow> response handler" where
  "admin_handler L E authz req =
     (case req of
        RegisterRelay r \<Rightarrow> sql_register_relay L E r
      | UpdateRelay i r \<Rightarrow> sql_update_relay L E i r
      | CreateNetwork name \<Rightarrow> sql_create_network E name
      | ListNetworks \<Rightarrow> sql_list_networks E
      | DeleteNetwork n \<Rightarrow> sql_delete_network E n
      | RevokeInvite n c \<Rightarrow> sql_revoke_invite E n c
      | CreateInvite n expires limit \<Rightarrow> sql_create_invite E n expires limit
      | ListInvites n \<Rightarrow> sql_list_invites E n
      | ListDevices n \<Rightarrow> sql_list_devices E n
      | ImportDevices n ds \<Rightarrow> sql_import_devices L E n ds
      | NetworkStats n \<Rightarrow> sql_network_stats E n
      | RevokeDevice i \<Rightarrow> sql_revoke E i
      | RenameDevice i name \<Rightarrow> sql_rename_device E i name
      | SetSettings i json \<Rightarrow> sql_set_device_settings E i json
      | AdvertiseRoute i p \<Rightarrow> sql_advertise_route E i p
      | ApproveRoute r \<Rightarrow> sql_approve_route E r
      | DeleteRoute r \<Rightarrow> sql_delete_route E r
      | AdminMe \<Rightarrow> respond 200 Me (admin_me E authz)
      | AuditLog \<Rightarrow> http_audit_log E
      | ChangePassword old new \<Rightarrow> respond 204 (\<lambda>_. Empty) (admin_change_password L E authz old new)
      | ListAdmins \<Rightarrow> http_list_admins E
      | CreateAdmin u p \<Rightarrow> respond 201 (\<lambda>_. Empty) (http_create_admin E u p)
      | DeleteAdmin u \<Rightarrow> respond 204 (\<lambda>_. Empty) (http_delete_admin E authz u)
      | _ \<Rightarrow> hfail 404)"

definition request_method :: "request \<Rightarrow> string" where
  "request_method req =
     (case req of
        ListNetworks \<Rightarrow> ''GET'' | ListInvites _ \<Rightarrow> ''GET'' | ListDevices _ \<Rightarrow> ''GET'' | NetworkStats _ \<Rightarrow> ''GET''
      | AdminMe \<Rightarrow> ''GET'' | AuditLog \<Rightarrow> ''GET'' | ListAdmins \<Rightarrow> ''GET''
      | UpdateRelay _ _ \<Rightarrow> ''PUT'' | SetSettings _ _ \<Rightarrow> ''PUT'' | RenameDevice _ _ \<Rightarrow> ''PATCH''
      | DeleteNetwork _ \<Rightarrow> ''DELETE'' | RevokeInvite _ _ \<Rightarrow> ''DELETE'' | RevokeDevice _ \<Rightarrow> ''DELETE''
      | DeleteRoute _ \<Rightarrow> ''DELETE'' | DeleteAdmin _ \<Rightarrow> ''DELETE'' | DeviceUnadvertise _ _ \<Rightarrow> ''DELETE''
      | GetConfig _ \<Rightarrow> ''GET'' | GetGateway _ \<Rightarrow> ''GET'' | GetStats _ \<Rightarrow> ''GET'' | GetSettings _ \<Rightarrow> ''GET''
      | ListDeviceRoutes _ \<Rightarrow> ''GET'' | WatchDevice _ \<Rightarrow> ''GET'' | ListRelays _ \<Rightarrow> ''GET'' | ResolveName _ _ \<Rightarrow> ''GET''
      | _ \<Rightarrow> ''POST'')"

text \<open>The middleware of the administrative half. The response of the inner handler is passed on as it
  is; a successful mutation is written to the audit log.\<close>

definition audit_mutation :: "http_env \<Rightarrow> string \<Rightarrow> string option \<Rightarrow> response \<Rightarrow> response handler" where
  "audit_mutation E meth user resp =
     (let mutating = meth \<in> set [''POST'', ''PUT'', ''PATCH'', ''DELETE''];
          actor = (case user of Some u \<Rightarrow> u | None \<Rightarrow> ''(master)'')
      in if mutating \<and> 200 \<le> fst resp \<and> fst resp < 300
         then hthen (run_sql E internal_error (sqlstore_record_audit (he_millis E) actor (meth @ '' '' @ he_path E)))
                (\<lambda>_. hyield resp)
         else hyield resp)"

definition require_admin :: "http_env \<Rightarrow> string option \<Rightarrow> string \<Rightarrow> response handler \<Rightarrow> response handler" where
  "require_admin E authz meth inner =
     (case bearer_token authz of
        None \<Rightarrow> hfail 401
      | Some bearer \<Rightarrow>
          hthen (valid_bearer E 0 bearer) (\<lambda>valid.
          if \<not> valid then hfail 401
          else hthen (acting_user E 1 authz) (\<lambda>user. hthen inner (audit_mutation E meth user))))"

definition sql_router :: "http_lib \<Rightarrow> http_env \<Rightarrow> string option \<Rightarrow> request \<Rightarrow> response handler" where
  "sql_router L E authz req =
     (case req of
        Login u p \<Rightarrow> respond 200 (\<lambda>(token, user). LoggedIn token user) (admin_login L E u p)
      | EnrollChallenge key \<Rightarrow> sql_enroll_challenge L E key
      | Enroll r \<Rightarrow> sql_enroll L E r
      | GetConfig i \<Rightarrow> sql_device_config L E authz i
      | GetGateway i \<Rightarrow> sql_device_gateway L E authz i
      | SetEndpoints i eps \<Rightarrow> sql_set_endpoints E authz i eps
      | ReportStats i rx tx peers \<Rightarrow> sql_report_stats E authz i rx tx peers
      | GetStats i \<Rightarrow> sql_get_device_stats L E authz i
      | GetSettings i \<Rightarrow> sql_get_device_settings L E authz i
      | ListDeviceRoutes i \<Rightarrow> sql_list_device_routes E authz i
      | DeviceAdvertise i p \<Rightarrow> sql_device_route E authz i p False
      | DeviceUnadvertise i p \<Rightarrow> sql_device_route E authz i p True
      | WatchDevice i \<Rightarrow> respond 101 (\<lambda>(_, n, epoch). Watching n epoch) (sql_watch_device E authz i)
      | ListRelays n \<Rightarrow> respond 200 Relays (run_sql E sql_status (sqlstore_list_relays n))
      | ResolveName n name \<Rightarrow> sql_resolve_name E authz n name
      | _ \<Rightarrow> require_admin E authz (request_method req) (admin_handler L E authz req))"

end
