(* ===== verification/Sql_Rules.thy ===== *)
theory Sql_Rules
  imports Sql_Store
begin

text \<open>
  Weakest preconditions for actions: \<open>wp m Q E t\<close> says that the action \<open>m\<close>, started on the tables \<open>t\<close>
  with any faults of the database, ends in tables that satisfy \<open>Q\<close> when it succeeds and \<open>E\<close> when it
  fails. One rule per way to build an action; the rules are collected in \<open>wp_rules\<close>.
\<close>

named_theorems wp_rules \<open>introduction rules of the precondition calculus\<close>

definition wp :: "'a action \<Rightarrow> ('a \<Rightarrow> db \<Rightarrow> bool) \<Rightarrow> (db \<Rightarrow> bool) \<Rightarrow> db \<Rightarrow> bool" where
  "wp m Q E t \<longleftrightarrow>
     (\<forall>B s. iter_ok (b_order B) \<longrightarrow> tables s = t \<longrightarrow>
        (case m B s of (s', Inl _) \<Rightarrow> E (tables s') | (s', Inr x) \<Rightarrow> Q x (tables s')))"

lemma wpI:
  assumes "\<And>B s s' e. iter_ok (b_order B) \<Longrightarrow> tables s = t \<Longrightarrow> m B s = (s', Inl e) \<Longrightarrow> E (tables s')"
      and "\<And>B s s' x. iter_ok (b_order B) \<Longrightarrow> tables s = t \<Longrightarrow> m B s = (s', Inr x) \<Longrightarrow> Q x (tables s')"
  shows "wp m Q E t"
  unfolding wp_def using assms by (auto split: prod.split sum.split)

lemma wp_error: "wp m Q E t \<Longrightarrow> iter_ok (b_order B) \<Longrightarrow> tables s = t \<Longrightarrow> m B s = (s', Inl e) \<Longrightarrow> E (tables s')"
  unfolding wp_def by fastforce

lemma wp_result: "wp m Q E t \<Longrightarrow> iter_ok (b_order B) \<Longrightarrow> tables s = t \<Longrightarrow> m B s = (s', Inr x) \<Longrightarrow> Q x (tables s')"
  unfolding wp_def by fastforce

lemma wp_mono:
  "wp m Q E t \<Longrightarrow> (\<And>x t. Q x t \<Longrightarrow> Q' x t) \<Longrightarrow> (\<And>t. E t \<Longrightarrow> E' t) \<Longrightarrow> wp m Q' E' t"
  by (rule wpI) (auto dest: wp_error wp_result)

section \<open>Rules\<close>

lemma wp_yield [wp_rules]: "Q x t \<Longrightarrow> wp (yield x) Q E t"
  by (simp add: wp_def yield_def)

lemma wp_fail [wp_rules]: "E t \<Longrightarrow> wp (fail e) Q E t"
  by (simp add: wp_def fail_def)

lemma wp_andthen [wp_rules]:
  assumes "wp m (\<lambda>x. wp (f x) Q E) E t"
  shows "wp (andthen m f) Q E t"
proof (rule wpI)
  fix B :: backend and s s' e
  assume "iter_ok (b_order B)" "tables s = t" "andthen m f B s = (s', Inl e)"
  then show "E (tables s')"
    using assms by (auto simp: andthen_def split: prod.splits sum.splits dest: wp_error wp_result)
next
  fix B :: backend and s s' x
  assume "iter_ok (b_order B)" "tables s = t" "andthen m f B s = (s', Inr x)"
  then show "Q x (tables s')"
    using assms by (auto simp: andthen_def split: prod.splits sum.splits dest: wp_result)
qed

lemma wp_statement:
  assumes "E t" "\<And>B t' x. iter_ok (b_order B) \<Longrightarrow> q B t = Inr (t', x) \<Longrightarrow> Q x t'"
  shows "wp (statement q) Q E t"
  using assms by (auto simp: wp_def statement_def Let_def split: option.splits sum.splits)

lemma wp_select [wp_rules]:
  "E t \<Longrightarrow> (\<And>ord. iter_ok ord \<Longrightarrow> Q (q ord t) t) \<Longrightarrow> wp (select q) Q E t"
  unfolding select_def by (rule wp_statement) auto

lemma wp_update [wp_rules]: "E t \<Longrightarrow> Q () (u t) \<Longrightarrow> wp (update u) Q E t"
  unfolding update_def by (rule wp_statement) auto

lemma wp_guarded [wp_rules]: "E t \<Longrightarrow> (unique t \<Longrightarrow> Q () (u t)) \<Longrightarrow> wp (guarded unique u) Q E t"
  unfolding guarded_def by (rule wp_statement) (auto split: if_splits)

lemma wp_require [wp_rules]:
  "(x = None \<Longrightarrow> E t) \<Longrightarrow> (\<And>v. x = Some v \<Longrightarrow> Q v t) \<Longrightarrow> wp (require x e) Q E t"
  by (auto simp: require_def intro: wp_rules split: option.split)

lemma wp_from_result [wp_rules]:
  "(\<And>e. r = Inl e \<Longrightarrow> E t) \<Longrightarrow> (\<And>x. r = Inr x \<Longrightarrow> Q x t) \<Longrightarrow> wp (from_result r) Q E t"
  by (auto simp: from_result_def intro: wp_rules split: sum.split)

lemma wp_if [wp_rules]:
  "(c \<Longrightarrow> wp m Q E t) \<Longrightarrow> (\<not> c \<Longrightarrow> wp n Q E t) \<Longrightarrow> wp (if c then m else n) Q E t"
  by simp

lemma wp_option [wp_rules]:
  "(x = None \<Longrightarrow> wp m Q E t) \<Longrightarrow> (\<And>v. x = Some v \<Longrightarrow> wp (f v) Q E t)
     \<Longrightarrow> wp (case x of None \<Rightarrow> m | Some v \<Rightarrow> f v) Q E t"
  by (simp split: option.split)

lemma wp_transaction [wp_rules]:
  assumes "E t" "wp m Q (\<lambda>_. True) t"
  shows "wp (transaction m) Q E t"
proof -
  have body: "wp (andthen (statement (\<lambda>B t. Inr (t, ())))
            (\<lambda>_. andthen m (\<lambda>x. andthen (statement (\<lambda>B t. Inr (t, ()))) (\<lambda>_. yield x)))) Q (\<lambda>_. True) t"
    by (intro wp_andthen wp_statement) (auto intro!: wp_mono [OF assms(2)] wp_andthen wp_statement wp_yield)
  show ?thesis
    using assms(1)
    by (intro wpI) (auto simp: transaction_def split: prod.splits sum.splits dest: wp_result [OF body])
qed

lemma wp_locked [wp_rules]:
  "E t \<Longrightarrow> (t_sequence t \<noteq> None \<Longrightarrow> wp m Q (\<lambda>_. True) t) \<Longrightarrow> wp (locked m) Q E t"
  unfolding locked_def integrity_lock_def
  by (intro wp_transaction wp_andthen wp_statement) (auto split: if_splits)

lemma wp_next [wp_rules]:
  "E t \<Longrightarrow> (\<And>v. t_sequence t = Some v \<Longrightarrow> v < 9223372036854775807 \<Longrightarrow> Q (v + 1) (t\<lparr>t_sequence := Some (v + 1)\<rparr>))
     \<Longrightarrow> wp integrity_next Q E t"
  unfolding integrity_next_def by (rule wp_statement) (auto split: option.splits if_splits)

lemma wp_for_each:
  assumes "\<And>x acc t. x \<in> set xs \<Longrightarrow> I acc t \<Longrightarrow> wp (f x acc) I E t" "I acc t"
  shows "wp (for_each f xs acc) I E t"
  using assms
proof (induction xs arbitrary: acc t)
  case (Cons x xs)
  have "wp (f x acc) (\<lambda>acc. wp (for_each f xs acc) I E) E t"
  proof (rule wp_mono [OF Cons.prems(1) [OF _ Cons.prems(2)]])
    fix acc t assume "I acc t"
    then show "wp (for_each f xs acc) I E t" by (rule Cons.IH [rotated]) (simp add: Cons.prems(1))
  qed simp_all
  then show ?case by (auto intro: wp_andthen)
qed (auto intro: wp_yield)

lemma wp_retry_from:
  assumes attempt: "\<And>n t. I t \<Longrightarrow> wp (f n) Q I t" and final: "\<And>t. I t \<Longrightarrow> E t" and "I t"
  shows "wp (retry_from l f n) Q E t"
proof -
  have "case retry_from l f n B s of (s', Inl _) \<Rightarrow> E (tables s') | (s', Inr x) \<Rightarrow> Q x (tables s')"
    if "iter_ok (b_order B)" "I (tables s)" for B s
    using that
  proof (induction "8 - n" arbitrary: n s rule: less_induct)
    case less
    obtain s' r where out: "f n B s = (s', r)" by (cases "f n B s")
    show ?case
    proof (cases r)
      case (Inr x)
      then show ?thesis
        using wp_result [OF attempt [OF less.prems(2)] less.prems(1) refl, of n s' x] out
        by (simp add: retry_from.simps)
    next
      case (Inl e)
      have I: "I (tables s')"
        using wp_error [OF attempt [OF less.prems(2)] less.prems(1) refl, of n s' e] out Inl by simp
      have again: "n < 7 \<Longrightarrow> case retry_from l f (n + 1) B s' of (s', Inl _) \<Rightarrow> E (tables s') | (s', Inr x) \<Rightarrow> Q x (tables s')"
        by (rule less.hyps [OF _ less.prems(1) I]) simp
      show ?thesis
        using out Inl I final [OF I] again
        by (subst retry_from.simps) (auto split: sql_error.split)
    qed
  qed
  then show ?thesis using assms(3) by (simp add: wp_def)
qed

text \<open>A write that changes nothing when it fails is retried from where it started.\<close>

lemma wp_retry [wp_rules]:
  "E t \<Longrightarrow> (\<And>n. wp (f n) Q (\<lambda>t'. t' = t) t) \<Longrightarrow> wp (retry l f) Q E t"
  unfolding retry_def by (rule wp_retry_from [where I = "\<lambda>t'. t' = t"]) auto

section \<open>Queries\<close>

lemma wp_notify [wp_rules]: "Q () t \<Longrightarrow> wp (notify i) Q E t"
  by (auto simp: wp_def notify_def db_get_network_def select_def statement_def set_watch_def Let_def
           split: prod.splits sum.splits option.splits)

lemma wp_notify_all [wp_rules]: "Q () t \<Longrightarrow> wp (notify_all ids) Q E t"
  unfolding notify_all_def by (rule wp_for_each) (auto intro: wp_notify)

lemma wp_session [wp_rules]:
  assumes "\<And>s. tables (g s) = tables s" "Q x t"
  shows "wp (\<lambda>B s. (g s, Inr x)) Q E t"
  using assms by (simp add: wp_def)

end
