(* ===== verification/Sql_Steps.thy ===== *)
theory Sql_Steps
  imports Sql_Rules
begin

text \<open>
  What the store can do to the database, as a step relation on the tables: one rule per change that is
  committed as a whole. Every operation of the store is then shown to perform steps of this relation,
  an operation that runs in a transaction exactly one of them or none, whatever faults the database
  has.
\<close>

section \<open>Steps\<close>

definition draw :: "int \<Rightarrow> db \<Rightarrow> db" where
  "draw v t = t\<lparr>t_sequence := Some (v + 1)\<rparr>"

definition drawable :: "int \<Rightarrow> db \<Rightarrow> bool" where
  "drawable v t \<longleftrightarrow> t_sequence t = Some v \<and> v < 9223372036854775807"

definition add_device :: "string \<Rightarrow> device_row \<Rightarrow> db \<Rightarrow> db" where
  "add_device i r t = t\<lparr>t_device := fmupd i r (t_device t)\<rparr>"

definition add_route :: "string \<Rightarrow> route_row \<Rightarrow> db \<Rightarrow> db" where
  "add_route i r t = t\<lparr>t_route := fmupd i r (t_route t)\<rparr>"

definition bump_rows :: "string list \<Rightarrow> db \<Rightarrow> db" where
  "bump_rows ns t = fold bump_row ns t"

definition drop_network :: "string \<Rightarrow> db \<Rightarrow> db" where
  "drop_network n t =
     t\<lparr>t_device := fmmap (\<lambda>r. if dr_network_id r = n then revoke_row r else r) (t_device t),
       t_device_stats := hm_retain (\<lambda>i _. \<not> (case fmlookup (t_device t) i of Some r \<Rightarrow> dr_network_id r = n | None \<Rightarrow> False))
         (t_device_stats t),
       t_invite := hm_retain (\<lambda>_ r. ir_network_id r \<noteq> n) (t_invite t),
       t_route := hm_retain (\<lambda>_ r. or_network_id r \<noteq> n) (t_route t),
       t_relay := hm_retain (\<lambda>_ r. rr_network_id r \<noteq> Some n) (t_relay t),
       t_network := fmdrop n (t_network t)\<rparr>"

definition usable :: "invite_row \<Rightarrow> int \<Rightarrow> bool" where
  "usable r now \<longleftrightarrow>
     (case ir_expires_at r of Some e \<Rightarrow> now < e | None \<Rightarrow> True) \<and>
     (case ir_max_uses r of Some m \<Rightarrow> ir_uses r < m | None \<Rightarrow> True)"

definition spend_invite :: "string \<Rightarrow> db \<Rightarrow> db" where
  "spend_invite c t = t\<lparr>t_invite := fm_update c (\<lambda>r. r\<lparr>ir_uses := ir_uses r + 1\<rparr>) (t_invite t)\<rparr>"

text \<open>A new row for a device: active, with a key and an IPv4 address in their normal forms.\<close>

definition fresh_row :: "key_codec \<Rightarrow> string \<Rightarrow> device_row \<Rightarrow> bool" where
  "fresh_row K n r \<longleftrightarrow>
     active_row r \<and> dr_network_id r = n \<and> key_normalize K (dr_wg_public_key r) = Some (dr_wg_public_key r) \<and>
     (\<forall>a. dr_address_v4 r = Some a \<longrightarrow> (\<exists>ip. a = show_ipv4 ip))"

text \<open>The rows of an import, one after the other.\<close>

inductive imports_to :: "key_codec \<Rightarrow> string \<Rightarrow> db \<Rightarrow> db \<Rightarrow> bool" for K n t where
  imported_none: "imports_to K n t t"
| imported_row: "imports_to K n t t' \<Longrightarrow> drawable v t' \<Longrightarrow> fresh_row K n r \<Longrightarrow> dr_auth_token r = None
    \<Longrightarrow> device_free (entity_id ''dev-'' (v + 1)) r (t_device t')
    \<Longrightarrow> imports_to K n t (add_device (entity_id ''dev-'' (v + 1)) r (draw v t'))"

text \<open>The changes that are committed by a transaction.\<close>

inductive tx_step :: "key_codec \<Rightarrow> db \<Rightarrow> db \<Rightarrow> bool" for K where
  step_invite: "fmlookup (t_network t) (ir_network_id r) \<noteq> None \<Longrightarrow> fmlookup (t_invite t) c = None \<Longrightarrow> ir_uses r = 0
    \<Longrightarrow> (\<And>m. ir_max_uses r = Some m \<Longrightarrow> 0 \<le> m)
    \<Longrightarrow> tx_step K t (t\<lparr>t_invite := fmupd c r (t_invite t)\<rparr>)"
| step_delete_network: "fmlookup (t_network t) n \<noteq> None \<Longrightarrow> tx_step K t (drop_network n t)"
| step_revoke_invite: "tx_step K t (t\<lparr>t_invite := fmdrop c (t_invite t)\<rparr>)"
| step_token: "fmlookup (t_device t) i = Some r \<Longrightarrow> active_row r
    \<Longrightarrow> tx_step K t (set_device i (\<lambda>r. r\<lparr>dr_auth_token := Some token\<rparr>) t)"
| step_enroll: "drawable v t \<Longrightarrow> fmlookup (t_invite t) c = Some iv \<Longrightarrow> usable iv now
    \<Longrightarrow> fmlookup (t_network t) (ir_network_id iv) \<noteq> None \<Longrightarrow> fresh_row K (ir_network_id iv) r
    \<Longrightarrow> device_free (entity_id ''dev-'' (v + 1)) r (t_device t)
    \<Longrightarrow> tx_step K t (bump_row (ir_network_id iv) (add_device (entity_id ''dev-'' (v + 1)) r (draw v (spend_invite c t))))"
| step_import: "fmlookup (t_network t) n \<noteq> None \<Longrightarrow> imports_to K n t t' \<Longrightarrow> tx_step K t (bump_row n t')"
| step_revoke: "fmlookup (t_device t) i = Some r
    \<Longrightarrow> tx_step K t (bump_row (dr_network_id r) (set_device i revoke_row t))"
| step_advertise: "drawable v t \<Longrightarrow> live_device t (or_device_id r) = Some d \<Longrightarrow> or_network_id r = dr_network_id d
    \<Longrightarrow> or_approved r = 0 \<Longrightarrow> fmlookup (t_route t) (entity_id ''route-'' (v + 1)) = None
    \<Longrightarrow> tx_step K t (add_route (entity_id ''route-'' (v + 1)) r (draw v t))"
| step_withdraw: "tx_step K t (t\<lparr>t_route := hm_retain (\<lambda>_ r. \<not> pending_request i p r) (t_route t)\<rparr>)"
| step_stats: "live_device t i = Some r \<Longrightarrow> tx_step K t (t\<lparr>t_device_stats := fmupd i st (t_device_stats t)\<rparr>)"
| step_endpoints: "live_device t i = Some r
    \<Longrightarrow> tx_step K t (bump_row (dr_network_id r) (set_device i (\<lambda>r. r\<lparr>dr_endpoints := Some eps\<rparr>) t))"
| step_relay: "drawable v t \<Longrightarrow> (\<And>n. rr_network_id r = Some n \<Longrightarrow> fmlookup (t_network t) n \<noteq> None)
    \<Longrightarrow> fmlookup (t_relay t) (entity_id ''relay-'' (v + 1)) = None
    \<Longrightarrow> (\<And>n. n \<in> set ns \<longleftrightarrow> fmlookup (t_network t) n \<noteq> None \<and> relay_serves (rr_network_id r) n) \<Longrightarrow> distinct ns
    \<Longrightarrow> tx_step K t (bump_rows ns ((draw v t)\<lparr>t_relay := fmupd (entity_id ''relay-'' (v + 1)) r (t_relay t)\<rparr>))"
| step_update_relay: "fmlookup (t_relay t) i = Some old \<Longrightarrow> (\<And>n. rr_network_id r = Some n \<Longrightarrow> fmlookup (t_network t) n \<noteq> None)
    \<Longrightarrow> (\<And>n. n \<in> set ns \<longleftrightarrow>
           fmlookup (t_network t) n \<noteq> None \<and> (relay_serves (rr_network_id old) n \<or> relay_serves (rr_network_id r) n)) \<Longrightarrow> distinct ns
    \<Longrightarrow> tx_step K t (bump_rows ns (t\<lparr>t_relay := fmupd i r (t_relay t)\<rparr>))"

text \<open>The changes of a single statement outside a transaction.\<close>

inductive statement_step :: "db \<Rightarrow> db \<Rightarrow> bool" where
  step_draw: "drawable v t \<Longrightarrow> statement_step t (draw v t)"
| step_network: "t_sequence t = Some v \<Longrightarrow> fmlookup (t_network t) (entity_id ''net-'' v) = None \<Longrightarrow> nr_config_epoch r = 0
    \<Longrightarrow> statement_step t (t\<lparr>t_network := fmupd (entity_id ''net-'' v) r (t_network t)\<rparr>)"
| step_rename: "statement_step t (set_device i (\<lambda>r. r\<lparr>dr_name := name\<rparr>) t)"
| step_settings: "statement_step t (set_device i (\<lambda>r. r\<lparr>dr_settings := Some settings\<rparr>) t)"
| step_bump: "statement_step t (bump_row n t)"
| step_approve: "statement_step t (t\<lparr>t_route := fm_update i (\<lambda>r. r\<lparr>or_approved := 1\<rparr>) (t_route t)\<rparr>)"
| step_delete_route: "statement_step t (t\<lparr>t_route := fmdrop i (t_route t)\<rparr>)"
| step_accounts: "statement_step t (t\<lparr>t_admin := a, t_audit := l\<rparr>)"

definition db_step :: "key_codec \<Rightarrow> db \<Rightarrow> db \<Rightarrow> bool" where
  "db_step K t t' \<longleftrightarrow> tx_step K t t' \<or> statement_step t t'"

section \<open>Operations perform steps\<close>

abbreviation db_change :: "key_codec \<Rightarrow> db \<Rightarrow> db \<Rightarrow> bool" where
  "db_change K t t' \<equiv> t' = t \<or> tx_step K t t'"

text \<open>An operation that changes nothing when it fails, and performs at most one step otherwise.\<close>

definition atomic :: "key_codec \<Rightarrow> 'a action \<Rightarrow> bool" where
  "atomic K m \<longleftrightarrow> (\<forall>t. wp m (\<lambda>_ t'. db_change K t t') (\<lambda>t'. t' = t) t)"

lemma atomicI:
  assumes "\<And>t. wp m (Q t) (\<lambda>t'. t' = t) t" "\<And>t x t'. Q t x t' \<Longrightarrow> db_change K t t'"
  shows "atomic K m"
  unfolding atomic_def using assms(2) by (auto intro!: wp_mono [OF assms(1)])

lemmas db_defs = db_insert_route_def db_get_route_def db_list_routes_for_device_def db_approved_routes_for_network_def
  db_set_route_approved_def db_delete_route_def db_upsert_device_stats_def db_get_device_stats_def
  db_list_network_stats_def db_insert_relay_def db_list_relays_def db_set_device_endpoints_def
  db_get_device_endpoints_def db_insert_network_def db_get_network_def db_bump_network_epoch_def
  db_insert_invite_def db_get_invite_def db_list_invites_def db_list_networks_def db_count_networks_def
  db_set_device_token_def db_get_device_token_def db_list_devices_def db_get_device_def
  db_set_device_settings_def db_get_device_settings_def db_set_device_name_def db_count_admins_def
  db_admin_hash_def db_create_admin_def db_update_admin_password_def db_list_admins_def db_delete_admin_def
  db_insert_audit_def db_list_audit_def

lemma next_seq_spec: "wp sqlstore_next_seq (\<lambda>n t'. \<exists>v. n = v + 1 \<and> drawable v t \<and> t' = draw v t) (\<lambda>t'. t' = t) t"
  unfolding sqlstore_next_seq_def next_seq_once_def by (auto intro!: wp_rules simp: drawable_def draw_def)

lemma create_invite_spec: "atomic K (sqlstore_create_invite code n expires limit)"
  unfolding atomic_def sqlstore_create_invite_def create_invite_once_def db_defs
  by (auto intro!: wp_rules disjI2 step_invite)

lemma revoke_row_simps [simp]:
  "dr_network_id (revoke_row r) = dr_network_id r" "dr_wg_public_key (revoke_row r) = dr_wg_public_key r"
  "\<not> active_row (revoke_row r)" "dr_auth_token (revoke_row r) = None" "dr_status (revoke_row r) = ''revoked''"
  "dr_address_v4 (revoke_row r) = None" "dr_address_v6 (revoke_row r) = None" "dr_name (revoke_row r) = dr_name r"
  by (simp_all add: revoke_row_def active_row_def)

lemma delete_network_spec: "atomic K (sqlstore_delete_network n)"
proof -
  have [simp]: "(\<lambda>r. dr_network_id r = n) \<circ> (\<lambda>r. if dr_network_id r = n then revoke_row r else r) = (\<lambda>r. dr_network_id r = n)"
    by (auto simp: fun_eq_iff)
  have "wp (sqlstore_delete_network n) (\<lambda>_ t'. fmlookup (t_network t) n \<noteq> None \<and> t' = drop_network n t) (\<lambda>t'. t' = t) t" for t
    unfolding sqlstore_delete_network_def delete_network_once_def db_defs
    by (auto intro!: wp_rules simp: drop_network_def bump_row_def cong: option.case_cong)
  then show ?thesis by (rule atomicI) (auto intro!: step_delete_network)
qed

lemma revoke_invite_spec: "atomic K (sqlstore_revoke_invite n code)"
  unfolding atomic_def sqlstore_revoke_invite_def revoke_invite_once_def db_defs
  by (auto intro!: wp_rules wp_statement split: option.splits if_splits intro: step_revoke_invite)

lemma revoke_device_spec:
  "wp (sqlstore_revoke_device i)
     (\<lambda>_ t'. \<exists>r. fmlookup (t_device t) i = Some r \<and> t' = bump_row (dr_network_id r) (set_device i revoke_row t))
     (\<lambda>t'. t' = t) t"
  unfolding sqlstore_revoke_device_def revoke_device_once_def db_defs
  by (auto intro!: wp_rules simp: row_to_device_def)

lemma revoke_device_atomic: "atomic K (sqlstore_revoke_device i)"
  unfolding atomic_def by (auto intro: wp_mono [OF revoke_device_spec] step_revoke)

lemma set_endpoints_spec: "atomic K (sqlstore_set_endpoints i eps)"
  unfolding atomic_def sqlstore_set_endpoints_def set_endpoints_once_def lock_active_device_def db_defs
  by (auto intro!: wp_rules wp_statement disjI2 step_endpoints simp: row_to_device_def live_device_def split: option.splits if_splits)

lemma report_stats_spec: "atomic K (sqlstore_report_stats i rx tx peers at)"
  unfolding atomic_def sqlstore_report_stats_def report_stats_once_def lock_active_device_def db_defs
  by (auto intro!: wp_rules wp_statement intro: step_stats split: option.splits if_splits)

text \<open>Enrolment: either the token of a known device is replaced, or one use of the invite buys a row with
  the lowest free address.\<close>

definition reenrolled_as :: "db \<Rightarrow> string \<Rightarrow> string \<Rightarrow> device \<times> string \<Rightarrow> db \<Rightarrow> bool" where
  "reenrolled_as t c key res t' \<longleftrightarrow>
     (\<exists>iv r. fmlookup (t_invite t) c = Some iv \<and> fmlookup (t_network t) (ir_network_id iv) \<noteq> None \<and>
        fmlookup (t_device t) (dev_id (fst res)) = Some r \<and> fst res = row_to_device (dev_id (fst res)) r \<and>
        active_row r \<and> dr_network_id r = ir_network_id iv \<and> dr_wg_public_key r = key \<and>
        t' = set_device (dev_id (fst res)) (\<lambda>r. r\<lparr>dr_auth_token := Some (snd res)\<rparr>) t)"

definition enrolled_as :: "key_codec \<Rightarrow> db \<Rightarrow> string \<Rightarrow> string \<Rightarrow> int \<Rightarrow> device \<times> string \<Rightarrow> db \<Rightarrow> bool" where
  "enrolled_as K t c key now res t' \<longleftrightarrow>
     (\<exists>iv v r. fmlookup (t_invite t) c = Some iv \<and> usable iv now \<and> drawable v t \<and>
        fmlookup (t_network t) (ir_network_id iv) \<noteq> None \<and> fresh_row K (ir_network_id iv) r \<and>
        dev_id (fst res) = entity_id ''dev-'' (v + 1) \<and> fst res = row_to_device (dev_id (fst res)) r \<and>
        dr_wg_public_key r = key \<and> dr_auth_token r = Some (snd res) \<and>
        device_free (dev_id (fst res)) r (t_device t) \<and>
        t' = bump_row (ir_network_id iv) (add_device (dev_id (fst res)) r (draw v (spend_invite c t))))"

lemma device_free_token [simp]: "device_free i (r\<lparr>dr_auth_token := x\<rparr>) m = device_free i r m"
  "device_free i (r\<lparr>dr_endpoints := y\<rparr>) m = device_free i r m"
proof -
  have "collides (r\<lparr>dr_auth_token := x\<rparr>) = collides r" "collides (r\<lparr>dr_endpoints := y\<rparr>) = collides r"
    by (auto simp: collides_def active_row_def fun_eq_iff)
  then show "device_free i (r\<lparr>dr_auth_token := x\<rparr>) m = device_free i r m"
    "device_free i (r\<lparr>dr_endpoints := y\<rparr>) m = device_free i r m"
    by (simp_all add: device_free_def)
qed

lemma enroll_new_spec:
  assumes iv: "fmlookup (t_invite t) c = Some iv" and net: "fmlookup (t_network t) (ir_network_id iv) = Some nr"
      and key: "key_normalize K key = Some key"
  shows "wp (enroll_new K c name key now token (row_to_network (ir_network_id iv) nr) ds)
           (\<lambda>res t'. enrolled_as K t c key now res t') (\<lambda>_. True) t"
proof -
  have "enrolled_as K t c key now (dev, token)
      (bump_row (ir_network_id iv) (set_device (dev_id dev) (\<lambda>r. r\<lparr>dr_auth_token := Some token\<rparr>)
        (add_device (dev_id dev) row (draw v (t\<lparr>t_invite := fmupd c (iv\<lparr>ir_uses := ir_uses iv + 1\<rparr>) (t_invite t)\<rparr>)))))"
    if "usable iv now" "drawable v t"
      "dev = \<lparr>dev_id = entity_id ''dev-'' (v + 1), dev_network_id = ir_network_id iv, dev_name = name, wg_public_key = key,
              address_v4 = Some (show_ipv4 v4), address_v6 = Some v6, dev_status = Active\<rparr>"
      "row = \<lparr>dr_network_id = ir_network_id iv, dr_name = name, dr_wg_public_key = key,
              dr_address_v4 = Some (show_ipv4 v4), dr_address_v6 = Some v6, dr_status = ''active'',
              dr_endpoints = None, dr_settings = None, dr_auth_token = None\<rparr>"
      "device_free (dev_id dev) row (t_device t)" for v v4 v6 dev row
  proof -
    have "set_device (dev_id dev) (\<lambda>r. r\<lparr>dr_auth_token := Some token\<rparr>)
        (add_device (dev_id dev) row (draw v (t\<lparr>t_invite := fmupd c (iv\<lparr>ir_uses := ir_uses iv + 1\<rparr>) (t_invite t)\<rparr>)))
      = add_device (dev_id dev) (row\<lparr>dr_auth_token := Some token\<rparr>) (draw v (spend_invite c t))"
      by (simp add: set_device_def add_device_def draw_def spend_invite_def fm_update_def iv)
    moreover have "device_free (dev_id dev) (row\<lparr>dr_auth_token := Some token\<rparr>) (t_device t)"
      using that(5) by simp
    ultimately show ?thesis
      unfolding enrolled_as_def using that(1-4) iv net key
      by (intro exI [of _ iv] exI [of _ v] exI [of _ "row\<lparr>dr_auth_token := Some token\<rparr>"])
         (auto simp: row_to_device_def fresh_row_def active_row_def)
  qed
  then show ?thesis
    unfolding enroll_new_def consume_invite_def db_insert_device_def db_defs
    by (auto intro!: wp_rules wp_statement split: option.splits if_splits
             simp: key row_to_network_def status_text_def iv usable_def drawable_def add_device_def draw_def Let_def)
qed

lemma row_to_simps [simp]:
  "net_id (row_to_network i nr) = i" "dev_id (row_to_device i r) = i" "dev_network_id (row_to_device i r) = dr_network_id r"
  "wg_public_key (row_to_device i r) = dr_wg_public_key r" "dev_status (row_to_device i r) = Active \<longleftrightarrow> active_row r"
  "inv_network_id (row_to_invite c v) = ir_network_id v" "expires_at (row_to_invite c v) = ir_expires_at v"
  "route_network_id (row_to_route i q) = or_network_id q" "approved (row_to_route i q) \<longleftrightarrow> or_approved q \<noteq> 0"
  "address_v4 (row_to_device i r) = dr_address_v4 r" "address_v6 (row_to_device i r) = dr_address_v6 r"
  by (simp_all add: row_to_network_def row_to_device_def row_to_invite_def row_to_route_def active_row_def)

lemma find_device_row:
  assumes "List.find P (map (\<lambda>(i, r). row_to_device i r) (rows ord m cond)) = Some d" "iter_ok ord"
  obtains r where "fmlookup m (dev_id d) = Some r" "cond (dev_id d) r" "d = row_to_device (dev_id d) r" "P d"
proof -
  have "d \<in> set (map (\<lambda>(i, r). row_to_device i r) (rows ord m cond))" "P d"
    using find_Some_conv_hd [OF assms(1)] by auto
  then obtain i r where "(i, r) \<in> set (rows ord m cond)" "d = row_to_device i r" by auto
  then show ?thesis using \<open>P d\<close> by (intro that [of r]) (simp_all add: set_rows [OF assms(2)])
qed

lemma enroll_tx_spec:
  assumes key: "key_normalize K key = Some key"
  shows "wp (enroll_tx K c name key now token)
           (\<lambda>res t'. reenrolled_as t c key res t' \<or> enrolled_as K t c key now res t') (\<lambda>_. True) t"
proof -
  have known: "reenrolled_as t c key (d, token) (set_device (dev_id d) (\<lambda>r. r\<lparr>dr_auth_token := Some token\<rparr>) t)"
    if "List.find (\<lambda>d. dev_status d = Active \<and> wg_public_key d = key)
         (map (\<lambda>(i, r). row_to_device i r) (rows ord (t_device t) (\<lambda>_ r. dr_network_id r = ir_network_id iv))) = Some d"
      and "iter_ok ord" "fmlookup (t_invite t) c = Some iv" "fmlookup (t_network t) (ir_network_id iv) = Some nr"
    for ord iv nr d
    using that(1,2)
  proof (rule find_device_row)
    fix r
    assume r: "fmlookup (t_device t) (dev_id d) = Some r" "dr_network_id r = ir_network_id iv"
      and d: "d = row_to_device (dev_id d) r" "dev_status d = Active \<and> wg_public_key d = key"
    have "active_row r" "dr_wg_public_key r = key" using d(2) by (subst (asm) (1 2) d(1), simp)+
    with r d(1) that(3,4) show ?thesis unfolding reenrolled_as_def by (intro exI [of _ iv] exI [of _ r]) simp
  qed
  have fresh: "wp (enroll_new K c name key now token (row_to_network (ir_network_id iv) nr) ds)
      (\<lambda>res t'. reenrolled_as t c key res t' \<or> enrolled_as K t c key now res t') (\<lambda>_. True) t"
    if "fmlookup (t_invite t) c = Some iv" "fmlookup (t_network t) (ir_network_id iv) = Some nr" for iv nr ds
    by (rule wp_mono [OF enroll_new_spec [OF that key]]) simp_all
  show ?thesis
    unfolding enroll_tx_def db_defs by (auto intro!: wp_rules fresh intro: known split: option.splits)
qed

lemma enroll_spec:
  assumes "key_codec_ok K" "key_normalize K public_key = Some key"
  shows "wp (sqlstore_enroll K token c name public_key now)
           (\<lambda>res t'. reenrolled_as t c key res t' \<or> enrolled_as K t c key now res t') (\<lambda>t'. t' = t) t"
proof -
  have key: "key_normalize K key = Some key" using key_normalize_stable [OF assms] by simp
  show ?thesis
    unfolding sqlstore_enroll_def enroll_once_def assms(2) option.case
    by (intro wp_retry wp_andthen wp_locked; (rule wp_mono [OF enroll_tx_spec [OF key]])?) (auto intro!: wp_rules)
qed

lemma enroll_atomic: "key_codec_ok K \<Longrightarrow> atomic K (sqlstore_enroll K token c name public_key now)"
proof (cases "key_normalize K public_key")
  case (Some key)
  assume "key_codec_ok K"
  from enroll_spec [OF this Some] show ?thesis
    by (rule atomicI) (auto simp: reenrolled_as_def enrolled_as_def intro: step_token intro!: step_enroll)
qed (auto simp: atomic_def sqlstore_enroll_def intro: wp_fail)

section \<open>Imports, routes and relays\<close>

text \<open>Every row of an import keeps what the rows before it did.\<close>

lemma import_row_spec:
  assumes key: "key_normalize K (snd x) = Some (snd x)"
      and canonical: "\<And>a. imp_address_v4 (fst x) = Some a \<Longrightarrow> \<exists>ip. a = show_ipv4 ip"
      and "imports_to K n t t1"
  shows "wp (import_one_row K n x acc)
           (\<lambda>acc' t'. imports_to K n t t' \<and> (imp_created (snd acc') = [] \<longrightarrow> t' = t1 \<and> imp_created (snd acc) = [])) (\<lambda>_. True) t1"
proof -
  have "imports_to K n t (set_device i (\<lambda>r. r\<lparr>dr_endpoints := Some eps\<rparr>) (t1\<lparr>t_sequence := Some (v + 1), t_device := fmupd i row (t_device t1)\<rparr>))"
    if "t_sequence t1 = Some v" "v < 9223372036854775807" "i = entity_id ''dev-'' (v + 1)" "device_free i row (t_device t1)"
      "row = \<lparr>dr_network_id = n, dr_name = name, dr_wg_public_key = snd x, dr_address_v4 = imp_address_v4 (fst x),
              dr_address_v6 = v6, dr_status = ''active'', dr_endpoints = None, dr_settings = None, dr_auth_token = None\<rparr>"
    for v i row eps name v6
  proof -
    have "device_free i (row\<lparr>dr_endpoints := Some eps\<rparr>) (t_device t1)" using that(4) by simp
    then have "imports_to K n t (add_device i (row\<lparr>dr_endpoints := Some eps\<rparr>) (draw v t1))"
      unfolding that(3) by (intro imported_row assms(3)) (use that key canonical in \<open>auto simp: drawable_def fresh_row_def active_row_def\<close>)
    then show ?thesis by (simp add: add_device_def draw_def set_device_def fm_update_def)
  qed
  then show ?thesis
    using assms(3) key
    by (cases x; cases acc)
       (auto simp: import_one_row_def db_insert_device_def status_text_def db_defs Let_def intro!: wp_rules)
qed

lemma import_address_canonical: "import_address d = Some d' \<Longrightarrow> imp_address_v4 d' = Some a \<Longrightarrow> \<exists>ip. a = show_ipv4 ip"
  by (auto simp: import_address_def split: option.splits)

lemma those_set: "those (map f xs) = Some ys \<Longrightarrow> y \<in> set ys \<Longrightarrow> \<exists>x \<in> set xs. f x = Some y"
  by (induction xs arbitrary: ys) (auto split: option.splits)

lemma import_rows_spec:
  assumes "\<And>x. x \<in> set xs \<Longrightarrow> key_normalize K (snd x) = Some (snd x)"
      "\<And>x a. x \<in> set xs \<Longrightarrow> imp_address_v4 (fst x) = Some a \<Longrightarrow> \<exists>ip. a = show_ipv4 ip"
      "imp_created (snd acc) = []"
  shows "wp (for_each (import_one_row K n) xs acc)
           (\<lambda>acc t'. imports_to K n t t' \<and> (imp_created (snd acc) = [] \<longrightarrow> t' = t)) (\<lambda>_. True) t"
proof (rule wp_for_each)
  fix x t1 and acc :: "string set \<times> import_result"
  assume "x \<in> set xs" "imports_to K n t t1 \<and> (imp_created (snd acc) = [] \<longrightarrow> t1 = t)"
  then show "wp (import_one_row K n x acc)
      (\<lambda>acc t'. imports_to K n t t' \<and> (imp_created (snd acc) = [] \<longrightarrow> t' = t)) (\<lambda>_. True) t1"
    by (intro wp_mono [OF import_row_spec [OF assms(1,2)]]) auto
qed (simp add: imported_none)

lemma import_spec:
  assumes "key_codec_ok K"
  shows "atomic K (sqlstore_import_devices K n devs)"
proof (cases "those (map import_address devs)")
  case (Some ds)
  show ?thesis
  proof (cases "those (map (\<lambda>d. key_normalize K (imp_public_key d)) ds)")
    case (Some keys)
    have keys: "key_normalize K k = Some k" if "k \<in> set keys" for k
      using those_set [OF Some that] key_normalize_stable(1) [OF assms] by blast
    have addresses: "imp_address_v4 d = Some a \<Longrightarrow> \<exists>ip. a = show_ipv4 ip" if "d \<in> set ds" for d a
      using those_set [OF \<open>those (map import_address devs) = Some ds\<close> that] import_address_canonical by blast
    note rows = import_rows_spec [where xs = "zip ds keys", OF keys addresses]
    have "wp (import_once K n ds keys) (\<lambda>_ t'. db_change K t t') (\<lambda>t'. t' = t) t" for t
      unfolding import_once_def db_get_network_def db_list_devices_def db_bump_network_epoch_def
      by (auto intro!: wp_rules wp_mono [OF rows] step_import dest: set_zip_leftD set_zip_rightD)
    then show ?thesis
      unfolding atomic_def sqlstore_import_devices_def Some \<open>those (map import_address devs) = Some ds\<close> option.case
      by (auto intro!: wp_rules)
  qed (simp add: atomic_def sqlstore_import_devices_def Some wp_fail)
qed (simp add: atomic_def sqlstore_import_devices_def wp_fail)

lemma advertise_effect:
  assumes "t_sequence t = Some v" "v < 9223372036854775807"
      "fmlookup (t_device t) i = Some d" "active_row d" "fmlookup (t_network t) (dr_network_id d) \<noteq> None"
      "fmlookup (t_route t) (entity_id ''route-'' (v + 1)) = None"
  shows "tx_step K t (t\<lparr>t_sequence := Some (v + 1), t_route := fmupd (entity_id ''route-'' (v + 1))
           \<lparr>or_network_id = dr_network_id d, or_device_id = i, or_prefix = p, or_approved = 0\<rparr> (t_route t)\<rparr>)"
  using step_advertise [of v t "\<lparr>or_network_id = dr_network_id d, or_device_id = i, or_prefix = p, or_approved = 0\<rparr>" d K] assms
  by (simp add: live_device_def live_row_def add_route_def draw_def drawable_def)

lemma advertise_route_spec: "atomic K (sqlstore_advertise_route i p)"
  unfolding atomic_def sqlstore_advertise_route_def advertise_route_once_def db_defs
  by (auto intro!: wp_rules simp: Let_def advertise_effect)

lemma device_route_change_spec: "atomic K (sqlstore_device_route_change i token p withdraw)"
  unfolding atomic_def sqlstore_device_route_change_def device_route_change_once_def db_defs
  by (auto intro!: wp_rules simp: step_withdraw advertise_effect live_device_def live_row_def split: option.splits if_splits)

lemma wp_bump_all [wp_rules]: "E \<Longrightarrow> Q () (bump_rows ids t) \<Longrightarrow> wp (bump_all ids) Q (\<lambda>_. E) t"
  by (induction ids arbitrary: t)
     (auto simp: bump_all_def bump_rows_def db_bump_network_epoch_def intro!: wp_rules)

lemma set_fst_rows: "iter_ok ord \<Longrightarrow> set (map fst (rows ord m cond)) = {k. \<exists>r. fmlookup m k = Some r \<and> cond k r}"
proof -
  assume "iter_ok ord"
  have "set (map fst (rows ord m cond)) = {k. \<exists>r. (k, r) \<in> set (rows ord m cond)}" by force
  then show ?thesis by (simp add: set_rows [OF \<open>iter_ok ord\<close>])
qed

lemma distinct_rows: "iter_ok ord \<Longrightarrow> distinct (map fst (rows ord m cond))"
proof -
  assume "iter_ok ord"
  have "map fst (rows ord m cond) = filter (\<lambda>k. cond k (the (fmlookup m k))) (hm_keys ord m)"
    by (simp add: rows_def filter_map comp_def)
  then show ?thesis using \<open>iter_ok ord\<close> by (simp add: hm_keys_def iter_ok_def)
qed

lemma relay_effect:
  assumes "drawable v t" "iter_ok ord" "\<And>n. rn_network_id r = Some n \<Longrightarrow> fmlookup (t_network t) n \<noteq> None"
      "fmlookup (t_relay t) (entity_id ''relay-'' (v + 1)) = None" "scope = rn_network_id r"
  shows "tx_step K t (bump_rows (map fst (rows ord (t_network t) (\<lambda>i _. relay_serves scope i)))
           (t\<lparr>t_sequence := Some (v + 1), t_relay := fmupd (entity_id ''relay-'' (v + 1)) (relay_columns r) (t_relay t)\<rparr>))"
proof -
  have "tx_step K t (bump_rows (map fst (rows ord (t_network t) (\<lambda>i _. relay_serves scope i)))
           ((draw v t)\<lparr>t_relay := fmupd (entity_id ''relay-'' (v + 1)) (relay_columns r) (t_relay t)\<rparr>))"
    by (rule step_relay) (use assms in \<open>auto simp: set_fst_rows distinct_rows relay_columns_def simp del: set_map\<close>)
  then show ?thesis by (simp add: draw_def)
qed

lemma register_relay_spec: "atomic K (sqlstore_register_relay_authenticated region url scope anytls stun identity)"
  unfolding atomic_def sqlstore_register_relay_authenticated_def register_relay_once_def db_defs Let_def
  by (intro allI; intro wp_rules; simp?) (auto intro!: wp_rules disjI2 relay_effect simp: drawable_def)

lemma update_relay_effect:
  assumes "iter_ok ord" "fmlookup (t_relay t) (rn_id r) = Some old"
      "\<And>n. rn_network_id r = Some n \<Longrightarrow> fmlookup (t_network t) n \<noteq> None" "scope = rn_network_id r"
  shows "tx_step K t (bump_rows (map fst (rows ord (t_network t) (\<lambda>i _. relay_serves (rr_network_id old) i \<or> relay_serves scope i)))
           (t\<lparr>t_relay := fm_update (rn_id r) (\<lambda>_. relay_columns r) (t_relay t)\<rparr>))"
proof -
  have "tx_step K t (bump_rows (map fst (rows ord (t_network t) (\<lambda>i _. relay_serves (rr_network_id old) i \<or> relay_serves scope i)))
           (t\<lparr>t_relay := fmupd (rn_id r) (relay_columns r) (t_relay t)\<rparr>))"
    by (rule step_update_relay [OF assms(2)]) (use assms in \<open>auto simp: set_fst_rows distinct_rows relay_columns_def simp del: set_map\<close>)
  then show ?thesis using assms(2) by (simp add: fm_update_def)
qed

lemma update_relay_spec: "atomic K (sqlstore_update_relay r)"
  unfolding atomic_def sqlstore_update_relay_def update_relay_once_def db_defs
  by (auto intro!: wp_rules disjI2 update_relay_effect simp: Let_def)

section \<open>Operations of several statements\<close>

text \<open>An operation whose effect is a sequence of steps, also when it fails on the way.\<close>

definition performs :: "key_codec \<Rightarrow> 'a action \<Rightarrow> bool" where
  "performs K m \<longleftrightarrow> (\<forall>t. wp m (\<lambda>_ t'. (db_step K)\<^sup>*\<^sup>* t t') (\<lambda>t'. (db_step K)\<^sup>*\<^sup>* t t') t)"

lemma atomic_performs:
  assumes "atomic K m"
  shows "performs K m"
  unfolding performs_def
proof
  fix t
  have "wp m (\<lambda>_ t'. db_change K t t') (\<lambda>t'. t' = t) t" using assms by (simp add: atomic_def)
  then show "wp m (\<lambda>_ t'. (db_step K)\<^sup>*\<^sup>* t t') (\<lambda>t'. (db_step K)\<^sup>*\<^sup>* t t') t"
    by (rule wp_mono) (auto simp: db_step_def)
qed

lemma performs_from:
  assumes "performs K m" "(db_step K)\<^sup>*\<^sup>* t t'"
  shows "wp m (\<lambda>_ t''. (db_step K)\<^sup>*\<^sup>* t t'') (\<lambda>t''. (db_step K)\<^sup>*\<^sup>* t t'') t'"
proof -
  have "wp m (\<lambda>_ t''. (db_step K)\<^sup>*\<^sup>* t' t'') (\<lambda>t''. (db_step K)\<^sup>*\<^sup>* t' t'') t'"
    using assms(1) by (simp add: performs_def)
  then show ?thesis by (rule wp_mono) (use assms(2) in \<open>auto intro: rtranclp_trans\<close>)
qed

lemma performs_yield: "performs K (yield x)" and performs_fail: "performs K (fail e)"
  by (simp_all add: performs_def wp_yield wp_fail)

lemma performs_andthen:
  assumes "performs K m" "\<And>x. performs K (f x)"
  shows "performs K (andthen m f)"
  unfolding performs_def
proof
  fix t
  have "wp m (\<lambda>_ t'. (db_step K)\<^sup>*\<^sup>* t t') (\<lambda>t'. (db_step K)\<^sup>*\<^sup>* t t') t"
    using assms(1) by (simp add: performs_def)
  then show "wp (andthen m f) (\<lambda>_ t'. (db_step K)\<^sup>*\<^sup>* t t') (\<lambda>t'. (db_step K)\<^sup>*\<^sup>* t t') t"
    by (rule wp_andthen [OF wp_mono]) (auto intro: performs_from [OF assms(2)])
qed

lemma performs_select: "performs K (select q)"
  by (simp add: performs_def wp_select)

lemma performs_update: "(\<And>t. statement_step t (u t)) \<Longrightarrow> performs K (update u)"
  by (auto simp: performs_def db_step_def intro!: wp_update)

lemma performs_require: "performs K (require x e)"
  by (simp add: require_def performs_yield performs_fail split: option.split)

lemma performs_if: "performs K m \<Longrightarrow> performs K n \<Longrightarrow> performs K (if c then m else n)"
  by simp

lemmas performs_rules = performs_yield performs_fail performs_andthen performs_select performs_update
  performs_require performs_if

lemma bump_and_notify_performs: "performs K (bump_and_notify n)"
proof -
  have "performs K (\<lambda>B s. case net of Some net \<Rightarrow> (set_watch n (\<lambda>w. watch_send w (config_epoch net)) s, Inr ()) | None \<Rightarrow> (s, Inr ()))" for net :: "network option"
    by (auto simp: performs_def wp_def set_watch_def split: option.split)
  then show ?thesis
    unfolding bump_and_notify_def db_defs by (intro performs_rules step_bump) auto
qed

lemma rename_device_performs: "performs K (sqlstore_rename_device i name)"
  unfolding sqlstore_rename_device_def db_defs by (intro performs_rules step_rename)

lemma set_device_settings_performs: "performs K (sqlstore_set_device_settings i settings)"
  unfolding sqlstore_set_device_settings_def db_defs
  by (intro performs_rules step_settings bump_and_notify_performs)

lemma approve_route_performs: "performs K (sqlstore_approve_route i)"
  unfolding sqlstore_approve_route_def db_defs
  by (intro performs_rules bump_and_notify_performs) (simp add: step_approve)

lemma delete_route_performs: "performs K (sqlstore_delete_route i)"
  unfolding sqlstore_delete_route_def db_defs
  by (intro performs_rules step_delete_route bump_and_notify_performs)

lemma create_network_performs: "performs K (sqlstore_create_network name)"
proof -
  have "wp (sqlstore_create_network name) (\<lambda>_ t'. (db_step K)\<^sup>*\<^sup>* t t') (\<lambda>t'. (db_step K)\<^sup>*\<^sup>* t t') t" for t
  proof -
    define create where "create idx = andthen sqlstore_next_seq (\<lambda>n.
          let net = \<lparr>net_id = entity_id ''net-'' n, net_name = name,
                     ipv4_pool = ''100.72.'' @ show_dec (unat idx mod 200 + 16) @ ''.0/24'',
                     ipv6_ula = ''fd72:15ab:'' @ show_hex4 (ucast idx) @ ''::/48'', config_epoch = 0\<rparr>
          in andthen (db_insert_network net) (\<lambda>_ B s.
               (s\<lparr>watchers := fmupd (net_id net) \<lparr>w_value = 0, w_receivers = 0\<rparr> (watchers s)\<rparr>, Inr net)))" for idx :: u64
    have "(db_step K)\<^sup>*\<^sup>* t (draw v t)" if "drawable v t" for v
      using step_draw [OF that] by (auto simp: db_step_def)
    moreover have "(db_step K)\<^sup>*\<^sup>* t ((draw v t)\<lparr>t_network := fmupd (entity_id ''net-'' (v + 1)) r (t_network (draw v t))\<rparr>)"
      if "drawable v t" "fmlookup (t_network (draw v t)) (entity_id ''net-'' (v + 1)) = None" "nr_config_epoch r = 0" for v r
    proof -
      have "statement_step (draw v t) ((draw v t)\<lparr>t_network := fmupd (entity_id ''net-'' (v + 1)) r (t_network (draw v t))\<rparr>)"
        by (rule step_network) (use that in \<open>auto simp: draw_def\<close>)
      with step_draw [OF that(1)] have "db_step K t (draw v t)"
          "db_step K (draw v t) ((draw v t)\<lparr>t_network := fmupd (entity_id ''net-'' (v + 1)) r (t_network (draw v t))\<rparr>)"
        by (simp_all add: db_step_def)
      then show ?thesis by (rule converse_rtranclp_into_rtranclp [OF _ r_into_rtranclp])
    qed
    ultimately have "wp (create idx) (\<lambda>_ t'. (db_step K)\<^sup>*\<^sup>* t t') (\<lambda>t'. (db_step K)\<^sup>*\<^sup>* t t') t" for idx
      unfolding create_def Let_def db_insert_network_def
      by (auto intro!: wp_andthen wp_mono [OF next_seq_spec] wp_guarded wp_session)
    then show ?thesis
      unfolding sqlstore_create_network_def wp_def create_def Let_def by auto
  qed
  then show ?thesis by (simp add: performs_def)
qed

text \<open>Queries change nothing.\<close>

lemma db_queries_perform:
  "performs K (sqlstore_network_of i)" "performs K sqlstore_list_networks" "performs K (sqlstore_list_invites n)"
  "performs K (sqlstore_token_network token)" "performs K (sqlstore_list_devices n)" "performs K (sqlstore_resolve n name)"
  "performs K (sqlstore_device_token i)" "performs K (sqlstore_has_device_token token)" "performs K (sqlstore_device_settings i)"
  "performs K (sqlstore_list_device_routes i)" "performs K (sqlstore_device_stats i)" "performs K (sqlstore_network_stats n)"
  "performs K (sqlstore_list_relays n)"
  unfolding sqlstore_network_of_def sqlstore_list_networks_def sqlstore_list_invites_def sqlstore_token_network_def
    sqlstore_list_devices_def sqlstore_resolve_def sqlstore_device_token_def sqlstore_has_device_token_def
    sqlstore_device_settings_def sqlstore_list_device_routes_def sqlstore_device_stats_def sqlstore_network_stats_def
    sqlstore_list_relays_def db_defs
  by (intro performs_rules)+

end
