(* ===== verification/Sql_Invariants.thy ===== *)
theory Sql_Invariants
  imports Sql_Steps
begin

text \<open>
  The invariant of the database and what its steps never do: two active devices of a network never
  share a key or an IPv4 address, a revoked device has neither token nor address and stays revoked, an
  invite is never used more often than it allows, identifiers are never handed out twice, and epochs
  never go back.
\<close>

section \<open>Invariant\<close>

definition row_ok :: "key_codec \<Rightarrow> device_row \<Rightarrow> bool" where
  "row_ok K r \<longleftrightarrow>
     (if active_row r then
        key_normalize K (dr_wg_public_key r) = Some (dr_wg_public_key r) \<and>
        (\<forall>a. dr_address_v4 r = Some a \<longrightarrow> (\<exists>ip. a = show_ipv4 ip))
      else dr_status r = ''revoked'' \<and> dr_auth_token r = None \<and> dr_address_v4 r = None \<and> dr_address_v6 r = None)"

definition devices_ok :: "key_codec \<Rightarrow> (string, device_row) fmap \<Rightarrow> bool" where
  "devices_ok K m \<longleftrightarrow>
     (\<forall>i r. fmlookup m i = Some r \<longrightarrow> row_ok K r) \<and>
     (\<forall>i j a b. fmlookup m i = Some a \<longrightarrow> fmlookup m j = Some b \<longrightarrow> collides a b \<longrightarrow> i = j)"

definition invites_ok :: "(string, invite_row) fmap \<Rightarrow> bool" where
  "invites_ok m \<longleftrightarrow>
     (\<forall>c r. fmlookup m c = Some r \<longrightarrow> 0 \<le> ir_uses r \<and> (\<forall>limit. ir_max_uses r = Some limit \<longrightarrow> ir_uses r \<le> limit))"

definition ids_ok :: "db \<Rightarrow> bool" where
  "ids_ok t \<longleftrightarrow>
     (\<exists>v. t_sequence t = Some v \<and> 0 \<le> v \<and>
        (\<forall>n > v. fmlookup (t_device t) (entity_id ''dev-'' n) = None \<and>
                 fmlookup (t_network t) (entity_id ''net-'' n) = None \<and>
                 fmlookup (t_relay t) (entity_id ''relay-'' n) = None \<and>
                 fmlookup (t_route t) (entity_id ''route-'' n) = None))"

definition db_ok :: "key_codec \<Rightarrow> db \<Rightarrow> bool" where
  "db_ok K t \<longleftrightarrow> devices_ok K (t_device t) \<and> invites_ok (t_invite t) \<and> ids_ok t"

section \<open>Frames\<close>

lemma bump_row_frame [simp]:
  "t_device (bump_row n t) = t_device t" "t_invite (bump_row n t) = t_invite t" "t_relay (bump_row n t) = t_relay t"
  "t_route (bump_row n t) = t_route t" "t_sequence (bump_row n t) = t_sequence t"
  "t_device_stats (bump_row n t) = t_device_stats t" "t_admin (bump_row n t) = t_admin t" "t_audit (bump_row n t) = t_audit t"
  by (simp_all add: bump_row_def)

lemma bump_row_network:
  "fmlookup (t_network (bump_row n t)) k =
     (if k = n then map_option (\<lambda>r. r\<lparr>nr_config_epoch := nr_config_epoch r + 1\<rparr>) (fmlookup (t_network t) n)
      else fmlookup (t_network t) k)"
  by (simp add: bump_row_def)

lemma bump_row_None [simp]: "fmlookup (t_network (bump_row n t)) k = None \<longleftrightarrow> fmlookup (t_network t) k = None"
  by (auto simp: bump_row_network)

lemma bump_rows_frame [simp]:
  "t_device (bump_rows ns t) = t_device t" "t_invite (bump_rows ns t) = t_invite t" "t_relay (bump_rows ns t) = t_relay t"
  "t_route (bump_rows ns t) = t_route t" "t_sequence (bump_rows ns t) = t_sequence t"
  "t_admin (bump_rows ns t) = t_admin t"
  "fmlookup (t_network (bump_rows ns t)) k = None \<longleftrightarrow> fmlookup (t_network t) k = None"
  by (induction ns arbitrary: t) (simp_all add: bump_rows_def)

lemma step_frames [simp]:
  "t_device (draw v t) = t_device t" "t_network (draw v t) = t_network t" "t_invite (draw v t) = t_invite t"
  "t_relay (draw v t) = t_relay t" "t_route (draw v t) = t_route t" "t_sequence (draw v t) = Some (v + 1)"
  "t_device (add_device i r t) = fmupd i r (t_device t)" "t_network (add_device i r t) = t_network t"
  "t_invite (add_device i r t) = t_invite t" "t_relay (add_device i r t) = t_relay t" "t_route (add_device i r t) = t_route t"
  "t_sequence (add_device i r t) = t_sequence t"
  "t_device (add_route i q t) = t_device t" "t_network (add_route i q t) = t_network t"
  "t_invite (add_route i q t) = t_invite t" "t_relay (add_route i q t) = t_relay t" "t_route (add_route i q t) = fmupd i q (t_route t)"
  "t_sequence (add_route i q t) = t_sequence t"
  "t_device (spend_invite c t) = t_device t" "t_network (spend_invite c t) = t_network t"
  "t_invite (spend_invite c t) = fm_update c (\<lambda>r. r\<lparr>ir_uses := ir_uses r + 1\<rparr>) (t_invite t)"
  "t_relay (spend_invite c t) = t_relay t" "t_route (spend_invite c t) = t_route t" "t_sequence (spend_invite c t) = t_sequence t"
  "t_device (set_device i f t) = fm_update i f (t_device t)" "t_network (set_device i f t) = t_network t"
  "t_invite (set_device i f t) = t_invite t" "t_relay (set_device i f t) = t_relay t" "t_route (set_device i f t) = t_route t"
  "t_sequence (set_device i f t) = t_sequence t"
  by (simp_all add: draw_def add_device_def add_route_def spend_invite_def set_device_def)

section \<open>Devices\<close>

lemma collides_sym: "collides a b \<longleftrightarrow> collides b a"
  unfolding collides_def by metis

lemma devices_ok_add:
  assumes "devices_ok K m" "fresh_row K n r" "device_free i r m"
  shows "devices_ok K (fmupd i r m)"
proof -
  have "row_ok K r" using assms(2) by (auto simp: fresh_row_def row_ok_def)
  moreover have "\<not> collides r b" if "fmlookup m j = Some b" for j b
    using assms(3) fmranI [OF that] by (auto simp: device_free_def)
  ultimately show ?thesis
    using assms(1) collides_sym by (auto simp: devices_ok_def split: if_splits)
qed

lemma devices_ok_update:
  assumes "devices_ok K m" "\<And>r. row_ok K r \<Longrightarrow> fmlookup m i = Some r \<Longrightarrow> row_ok K (f r)"
      "\<And>r b. collides (f r) b \<Longrightarrow> collides r b"
  shows "devices_ok K (fm_update i f m)"
  unfolding devices_ok_def
proof (intro conjI allI impI)
  fix p r assume "fmlookup (fm_update i f m) p = Some r"
  then show "row_ok K r" using assms(1,2) by (auto simp: devices_ok_def split: if_splits)
next
  fix p q a b
  assume look: "fmlookup (fm_update i f m) p = Some a" "fmlookup (fm_update i f m) q = Some b" and ab: "collides a b"
  have old: "\<exists>a0. fmlookup m p = Some a0 \<and> (\<forall>x. collides a x \<longrightarrow> collides a0 x)"
    if "fmlookup (fm_update i f m) p = Some a" for p a
    using that assms(3) by (auto split: if_splits)
  obtain a0 where a0: "fmlookup m p = Some a0" "collides a0 b" using old [OF look(1)] ab by blast
  obtain b0 where b0: "fmlookup m q = Some b0" "collides b0 a0" using old [OF look(2)] a0(2) collides_sym by blast
  show "p = q" using assms(1) a0(1) b0 collides_sym unfolding devices_ok_def by blast
qed

lemma devices_ok_revoke:
  assumes "devices_ok K m"
  shows "devices_ok K (fmmap (\<lambda>r. if c r then revoke_row r else r) m)"
  unfolding devices_ok_def
proof (intro conjI allI impI)
  fix i r assume "fmlookup (fmmap (\<lambda>r. if c r then revoke_row r else r) m) i = Some r"
  then obtain r0 where "fmlookup m i = Some r0" "r = (if c r0 then revoke_row r0 else r0)" by auto
  then show "row_ok K r" using assms by (simp add: devices_ok_def row_ok_def)
next
  fix i j a b
  assume look: "fmlookup (fmmap (\<lambda>r. if c r then revoke_row r else r) m) i = Some a"
      "fmlookup (fmmap (\<lambda>r. if c r then revoke_row r else r) m) j = Some b" and ab: "collides a b"
  obtain a0 b0 where rows: "fmlookup m i = Some a0" "fmlookup m j = Some b0"
      "a = (if c a0 then revoke_row a0 else a0)" "b = (if c b0 then revoke_row b0 else b0)"
    using look by auto
  with ab have "collides a0 b0" by (simp add: collides_def split: if_splits)
  with rows(1,2) assms show "i = j" unfolding devices_ok_def by blast
qed

lemma imported_devices:
  assumes "imports_to K n t t'" "devices_ok K (t_device t)"
  shows "devices_ok K (t_device t')"
  using assms by (induction) (auto intro: devices_ok_add)

lemma tx_step_devices:
  assumes "tx_step K t t'" "devices_ok K (t_device t)"
  shows "devices_ok K (t_device t')"
  using assms
proof cases
  case (step_enroll v c iv now r)
  then show ?thesis using assms(2) by (auto intro: devices_ok_add)
next
  case (step_import n t'')
  then show ?thesis using imported_devices [OF _ assms(2)] by simp
next
  case (step_delete_network n)
  then show ?thesis using devices_ok_revoke [OF assms(2)] by (simp add: drop_network_def)
next
  case (step_token i r token)
  then show ?thesis using assms(2)
    by (auto intro!: devices_ok_update simp: row_ok_def active_row_def collides_def split: if_splits)
next
  case (step_revoke i r)
  then show ?thesis using assms(2) by (auto intro!: devices_ok_update simp: row_ok_def collides_def)
next
  case (step_endpoints i r eps)
  then show ?thesis using assms(2) by (auto intro!: devices_ok_update simp: row_ok_def active_row_def collides_def)
qed (use assms(2) in simp_all)

lemma statement_step_devices:
  assumes "statement_step t t'" "devices_ok K (t_device t)"
  shows "devices_ok K (t_device t')"
  using assms
proof cases
  case (step_rename i name)
  then show ?thesis using assms(2) by (auto intro!: devices_ok_update simp: row_ok_def active_row_def collides_def)
next
  case (step_settings i settings)
  then show ?thesis using assms(2) by (auto intro!: devices_ok_update simp: row_ok_def active_row_def collides_def)
qed (use assms(2) in simp_all)

section \<open>Invites and identifiers\<close>

lemma imported_invites: "imports_to K n t t' \<Longrightarrow> t_invite t' = t_invite t \<and> t_network t' = t_network t \<and> t_relay t' = t_relay t \<and> t_route t' = t_route t"
  by (induction rule: imports_to.induct) simp_all

lemma invites_ok_retain: "invites_ok m \<Longrightarrow> invites_ok (hm_retain P m)" "invites_ok m \<Longrightarrow> invites_ok (fmdrop c m)"
  by (auto simp: invites_ok_def split: option.splits if_splits)

lemma tx_step_invites:
  assumes "tx_step K t t'" "invites_ok (t_invite t)"
  shows "invites_ok (t_invite t')"
  using assms
proof cases
  case (step_enroll v c iv now r)
  then show ?thesis using assms(2) by (fastforce simp: invites_ok_def usable_def)
next
  case (step_import n t'')
  then show ?thesis using imported_invites assms(2) by (metis bump_row_frame(2))
next
  case (step_delete_network n)
  then show ?thesis using assms(2) by (simp add: drop_network_def invites_ok_retain)
next
  case (step_revoke_invite c)
  then show ?thesis using assms(2) by (simp add: invites_ok_retain)
next
  case (step_invite r c)
  then show ?thesis using assms(2) by (auto simp: invites_ok_def)
qed (use assms(2) in simp_all)

lemma statement_step_invites: "statement_step t t' \<Longrightarrow> t_invite t' = t_invite t"
  by (erule statement_step.cases) simp_all

lemma entity_id_eq: "0 \<le> m \<Longrightarrow> 0 \<le> n \<Longrightarrow> entity_id kind m = entity_id kind n \<longleftrightarrow> m = n"
  by (auto simp: entity_id_def dest: show_dec_inj)

lemma ids_okI:
  assumes "ids_ok t" "t_sequence t = Some v" "t_sequence t' = Some v'" "v \<le> v'"
      "\<And>n. v' < n \<Longrightarrow> fmlookup (t_device t) (entity_id ''dev-'' n) = None \<Longrightarrow> fmlookup (t_device t') (entity_id ''dev-'' n) = None"
      "\<And>n. v' < n \<Longrightarrow> fmlookup (t_network t) (entity_id ''net-'' n) = None \<Longrightarrow> fmlookup (t_network t') (entity_id ''net-'' n) = None"
      "\<And>n. v' < n \<Longrightarrow> fmlookup (t_relay t) (entity_id ''relay-'' n) = None \<Longrightarrow> fmlookup (t_relay t') (entity_id ''relay-'' n) = None"
      "\<And>n. v' < n \<Longrightarrow> fmlookup (t_route t) (entity_id ''route-'' n) = None \<Longrightarrow> fmlookup (t_route t') (entity_id ''route-'' n) = None"
  shows "ids_ok t'"
  using assms unfolding ids_ok_def by (intro exI [of _ v']) auto

lemma ids_ok_sequence: "ids_ok t \<Longrightarrow> \<exists>v. t_sequence t = Some v \<and> 0 \<le> v"
  by (auto simp: ids_ok_def)

lemma imported_ids:
  assumes "imports_to K n t t'" "ids_ok t"
  shows "ids_ok t'"
  using assms
proof induction
  case (imported_row t' v r)
  have "0 \<le> v" using ids_ok_sequence [OF imported_row.IH [OF imported_row.prems]] imported_row.hyps(2) by (simp add: drawable_def)
  then show ?case
    using imported_row.hyps(2)
    by (intro ids_okI [OF imported_row.IH [OF imported_row.prems], of v _ "v + 1"]) (auto simp: drawable_def entity_id_eq)
qed

lemma ids_ok_bump [simp]: "ids_ok (bump_row n t) = ids_ok t" "ids_ok (bump_rows ns t) = ids_ok t"
  by (simp_all add: ids_ok_def)

lemma ids_ok_same:
  assumes "ids_ok t" "t_sequence t' = t_sequence t"
      "\<And>i. fmlookup (t_device t) i = None \<Longrightarrow> fmlookup (t_device t') i = None"
      "\<And>i. fmlookup (t_network t) i = None \<Longrightarrow> fmlookup (t_network t') i = None"
      "\<And>i. fmlookup (t_relay t) i = None \<Longrightarrow> fmlookup (t_relay t') i = None"
      "\<And>i. fmlookup (t_route t) i = None \<Longrightarrow> fmlookup (t_route t') i = None"
  shows "ids_ok t'"
  using assms unfolding ids_ok_def by auto

lemma ids_ok_draw:
  assumes "ids_ok t" "drawable v t" "t_sequence t' = Some (v + 1)"
      "\<And>i. i \<noteq> entity_id ''dev-'' (v + 1) \<Longrightarrow> fmlookup (t_device t) i = None \<Longrightarrow> fmlookup (t_device t') i = None"
      "\<And>i. i \<noteq> entity_id ''net-'' (v + 1) \<Longrightarrow> fmlookup (t_network t) i = None \<Longrightarrow> fmlookup (t_network t') i = None"
      "\<And>i. i \<noteq> entity_id ''relay-'' (v + 1) \<Longrightarrow> fmlookup (t_relay t) i = None \<Longrightarrow> fmlookup (t_relay t') i = None"
      "\<And>i. i \<noteq> entity_id ''route-'' (v + 1) \<Longrightarrow> fmlookup (t_route t) i = None \<Longrightarrow> fmlookup (t_route t') i = None"
  shows "ids_ok t'"
proof -
  have "0 \<le> v" using ids_ok_sequence [OF assms(1)] assms(2) by (auto simp: drawable_def)
  then have "entity_id kind n \<noteq> entity_id kind (v + 1)" if "v + 1 < n" for kind n
    using that by (simp add: entity_id_eq)
  then show ?thesis
    using assms(2-) by (intro ids_okI [OF assms(1), of v _ "v + 1"]) (auto simp: drawable_def)
qed

lemma tx_step_ids:
  assumes "tx_step K t t'" "ids_ok t"
  shows "ids_ok t'"
  using assms
proof cases
  case (step_import n t'')
  then show ?thesis using imported_ids assms(2) by simp
next
  case (step_enroll v c iv now r)
  then show ?thesis by (auto intro!: ids_ok_draw [OF assms(2)])
next
  case (step_advertise v r d)
  then show ?thesis by (auto intro!: ids_ok_draw [OF assms(2)])
next
  case (step_relay v r ns)
  then show ?thesis by (auto intro!: ids_ok_draw [OF assms(2)])
qed (auto intro!: ids_ok_same [OF assms(2)] simp: drop_network_def split: option.splits)

lemma statement_step_ids:
  assumes "statement_step t t'" "ids_ok t"
  shows "ids_ok t'"
  using assms
proof cases
  case (step_draw v)
  then show ?thesis by (auto intro!: ids_ok_draw [OF assms(2)])
next
  case (step_network v r)
  have "0 \<le> v" using ids_ok_sequence [OF assms(2)] step_network by simp
  then have "v < n \<Longrightarrow> entity_id ''net-'' v \<noteq> entity_id ''net-'' n" for n by (simp add: entity_id_eq)
  with step_network show ?thesis
    by (intro ids_okI [OF assms(2), of v _ v]) auto
qed (auto intro!: ids_ok_same [OF assms(2)] split: option.splits)

lemma db_step_ok: "db_step K t t' \<Longrightarrow> db_ok K t \<Longrightarrow> db_ok K t'"
  unfolding db_step_def db_ok_def
  using tx_step_devices tx_step_invites tx_step_ids statement_step_devices statement_step_invites statement_step_ids
  by metis

lemma db_steps_ok: "(db_step K)\<^sup>*\<^sup>* t t' \<Longrightarrow> db_ok K t \<Longrightarrow> db_ok K t'"
  by (induction rule: rtranclp_induct) (auto intro: db_step_ok)

end
