(* ===== verification/Sql_Epochs.thy ===== *)
theory Sql_Epochs
  imports Sql_Invariants
begin

text \<open>
  What a device is told, and when its epoch moves. The view of a network is everything its
  configurations are built from; a transaction that changes the view of a network moves the epoch of
  that network by one.
\<close>

section \<open>Views\<close>

definition device_view :: "string \<Rightarrow> db \<Rightarrow> string
    \<Rightarrow> (string \<times> string option \<times> string option \<times> string option \<times> string option) option" where
  "device_view n t i =
     (case fmlookup (t_device t) i of
        Some r \<Rightarrow> if dr_network_id r = n \<and> active_row r
                  then Some (dr_wg_public_key r, dr_address_v4 r, dr_address_v6 r, dr_endpoints r, dr_settings r) else None
      | None \<Rightarrow> None)"

definition route_view :: "string \<Rightarrow> db \<Rightarrow> string \<Rightarrow> (string \<times> string) option" where
  "route_view n t i =
     (case fmlookup (t_route t) i of
        Some r \<Rightarrow> if or_network_id r = n \<and> or_approved r \<noteq> 0 then Some (or_device_id r, or_prefix r) else None
      | None \<Rightarrow> None)"

definition relay_view :: "string \<Rightarrow> db \<Rightarrow> string \<Rightarrow> relay_row option" where
  "relay_view n t i =
     (case fmlookup (t_relay t) i of Some r \<Rightarrow> if relay_serves (rr_network_id r) n then Some r else None | None \<Rightarrow> None)"

definition pool_view :: "string \<Rightarrow> db \<Rightarrow> (string \<times> string) option" where
  "pool_view n t = map_option (\<lambda>r. (nr_ipv4_pool r, nr_ipv6_ula r)) (fmlookup (t_network t) n)"

definition same_view :: "string \<Rightarrow> db \<Rightarrow> db \<Rightarrow> bool" where
  "same_view n t t' \<longleftrightarrow>
     device_view n t = device_view n t' \<and> route_view n t = route_view n t' \<and>
     relay_view n t = relay_view n t' \<and> pool_view n t = pool_view n t'"

lemma same_view_refl [simp]: "same_view n t t"
  by (simp add: same_view_def)

definition announced :: "db \<Rightarrow> db \<Rightarrow> bool" where
  "announced t t' \<longleftrightarrow>
     (\<forall>n a b. fmlookup (t_network t) n = Some a \<longrightarrow> fmlookup (t_network t') n = Some b \<longrightarrow>
        nr_config_epoch b = nr_config_epoch a + 1 \<or> nr_config_epoch b = nr_config_epoch a \<and> same_view n t t')"

lemma bump_rows_network:
  "distinct ns \<Longrightarrow> fmlookup (t_network (bump_rows ns t)) k =
     (if k \<in> set ns then map_option (\<lambda>r. r\<lparr>nr_config_epoch := nr_config_epoch r + 1\<rparr>) (fmlookup (t_network t) k)
      else fmlookup (t_network t) k)"
  by (induction ns arbitrary: t) (auto simp: bump_rows_def bump_row_network)

text \<open>A change outside the view of the networks that are bumped.\<close>

lemma announcedI:
  assumes "\<And>n. fmlookup (t_network t') n =
             (if n \<in> N then map_option (\<lambda>r. r\<lparr>nr_config_epoch := nr_config_epoch r + 1\<rparr>) (fmlookup (t_network t) n)
              else fmlookup (t_network t) n)"
      "\<And>n. n \<notin> N \<Longrightarrow> device_view n t = device_view n t'" "\<And>n. n \<notin> N \<Longrightarrow> route_view n t = route_view n t'"
      "\<And>n. n \<notin> N \<Longrightarrow> fmlookup (t_network t) n \<noteq> None \<Longrightarrow> relay_view n t = relay_view n t'"
  shows "announced t t'"
  unfolding announced_def
proof (intro allI impI)
  fix n a b assume look: "fmlookup (t_network t) n = Some a" "fmlookup (t_network t') n = Some b"
  show "nr_config_epoch b = nr_config_epoch a + 1 \<or> nr_config_epoch b = nr_config_epoch a \<and> same_view n t t'"
  proof (cases "n \<in> N")
    case True
    then show ?thesis using assms(1) [of n] look by auto
  next
    case False
    then have "b = a" using assms(1) [of n] look by simp
    moreover have "pool_view n t = pool_view n t'" using assms(1) [of n] False by (simp add: pool_view_def)
    ultimately show ?thesis using assms(2-4) False look by (simp add: same_view_def)
  qed
qed

lemma views_frame:
  "t_device t' = t_device t \<Longrightarrow> device_view n t' = device_view n t"
  "t_route t' = t_route t \<Longrightarrow> route_view n t' = route_view n t"
  "t_relay t' = t_relay t \<Longrightarrow> relay_view n t' = relay_view n t"
  by (auto simp: device_view_def route_view_def relay_view_def fun_eq_iff)

lemma device_view_add:
  "dr_network_id r \<noteq> n \<Longrightarrow> fmlookup m i = None \<Longrightarrow> t_device t' = fmupd i r m \<Longrightarrow> t_device t = m
     \<Longrightarrow> device_view n t' = device_view n t"
  by (auto simp: device_view_def fun_eq_iff)

lemma device_view_update:
  "fmlookup (t_device t) i = Some r \<Longrightarrow> dr_network_id r \<noteq> n \<Longrightarrow> dr_network_id (f r) = dr_network_id r
     \<Longrightarrow> t_device t' = fm_update i f (t_device t) \<Longrightarrow> device_view n t' = device_view n t"
  by (auto simp: device_view_def fun_eq_iff)

lemma imported_view:
  assumes "imports_to K n t t'" "m \<noteq> n"
  shows "device_view m t' = device_view m t"
  using assms
proof induction
  case (imported_row t' v r)
  have "device_view m (add_device (entity_id ''dev-'' (v + 1)) r (draw v t')) = device_view m t'"
    by (rule device_view_add [OF _ _ _ refl, where r = r])
       (use imported_row.hyps imported_row.prems in \<open>auto simp: fresh_row_def device_free_def\<close>)
  with imported_row show ?case by simp
qed simp

lemma tx_step_announced:
  assumes "tx_step K t t'"
  shows "announced t t'"
  using assms
proof cases
  case (step_delete_network n)
  show ?thesis
    unfolding announced_def
  proof (intro allI impI)
    fix m a b assume look: "fmlookup (t_network t) m = Some a" "fmlookup (t_network t') m = Some b"
    then have "m \<noteq> n" "b = a" using step_delete_network by (auto simp: drop_network_def split: if_splits)
    moreover from this(1) have "same_view m t t'"
      using step_delete_network
      by (auto simp: same_view_def drop_network_def device_view_def route_view_def relay_view_def pool_view_def
            relay_serves_def fun_eq_iff split: option.splits if_splits)
    ultimately show "nr_config_epoch b = nr_config_epoch a + 1 \<or> nr_config_epoch b = nr_config_epoch a \<and> same_view m t t'"
      by simp
  qed
next
  case (step_token i r token)
  then show ?thesis
    by (intro announcedI [where N = "{}"])
       (auto simp: device_view_def active_row_def route_view_def relay_view_def fun_eq_iff split: option.splits)
next
  case (step_enroll v c iv now r)
  then show ?thesis
    by (intro announcedI [where N = "{ir_network_id iv}"])
       (auto simp: bump_row_network fresh_row_def device_free_def device_view_def route_view_def relay_view_def fun_eq_iff)
next
  case (step_import n t'')
  note same = imported_invites [OF step_import(3)]
  show ?thesis
    unfolding step_import(1)
  proof (rule announcedI [where N = "{n}"])
    fix m assume "m \<notin> {n}"
    then show "device_view m t = device_view m (bump_row n t'')"
      using imported_view [OF step_import(3), of m] views_frame(1) [of "bump_row n t''" t'' m] by simp
  next
    fix m
    show "route_view m t = route_view m (bump_row n t'')" "relay_view m t = relay_view m (bump_row n t'')"
      using same views_frame(2) [of "bump_row n t''" t m] views_frame(3) [of "bump_row n t''" t m] by simp_all
  qed (simp add: bump_row_network same)
next
  case (step_revoke i r)
  then show ?thesis
    by (intro announcedI [where N = "{dr_network_id r}"])
       (auto simp: bump_row_network device_view_def route_view_def relay_view_def fun_eq_iff)
next
  case (step_endpoints i r eps)
  then show ?thesis
    by (intro announcedI [where N = "{dr_network_id r}"])
       (auto simp: bump_row_network live_device_def device_view_def route_view_def relay_view_def fun_eq_iff split: option.splits if_splits)
next
  case (step_advertise v r d)
  then show ?thesis
    by (intro announcedI [where N = "{}"])
       (auto simp: device_view_def route_view_def relay_view_def fun_eq_iff)
next
  case (step_withdraw i p)
  then show ?thesis
    by (intro announcedI [where N = "{}"])
       (auto simp: device_view_def route_view_def relay_view_def pending_request_def fun_eq_iff split: option.splits)
next
  case (step_relay v r ns)
  then show ?thesis
    by (intro announcedI [where N = "set ns"])
       (auto simp: bump_rows_network device_view_def route_view_def relay_view_def fun_eq_iff)
next
  case (step_update_relay i old r ns)
  then show ?thesis
    by (intro announcedI [where N = "set ns"])
       (auto simp: bump_rows_network device_view_def route_view_def relay_view_def fun_eq_iff)
qed (auto intro!: announcedI [where N = "{}"] simp: device_view_def route_view_def relay_view_def)

text \<open>The operations that change a row and bump the epoch in separate statements announce the change when
  both succeed.\<close>

lemma wp_bump_and_notify [wp_rules]: "E t \<Longrightarrow> E (bump_row n t) \<Longrightarrow> Q () (bump_row n t) \<Longrightarrow> wp (bump_and_notify n) Q E t"
  unfolding bump_and_notify_def db_bump_network_epoch_def db_get_network_def
  by (intro wp_rules) (auto simp: wp_def set_watch_def split: option.split)

lemma set_device_settings_announced: "wp (sqlstore_set_device_settings i settings) (\<lambda>_ t'. announced t t') (\<lambda>_. True) t"
  unfolding sqlstore_set_device_settings_def db_get_device_def db_set_device_settings_def
  by (auto intro!: wp_rules announcedI [where N = "{dr_network_id z}" for z]
           simp: bump_row_network device_view_def active_row_def route_view_def relay_view_def fun_eq_iff)

lemma approve_route_announced: "wp (sqlstore_approve_route i) (\<lambda>_ t'. announced t t') (\<lambda>_. True) t"
  unfolding sqlstore_approve_route_def db_get_route_def db_set_route_approved_def
  by (auto intro!: wp_rules announcedI [where N = "{or_network_id z}" for z]
           simp: bump_row_network device_view_def route_view_def relay_view_def fun_eq_iff)

lemma delete_route_announced: "wp (sqlstore_delete_route i) (\<lambda>_ t'. announced t t') (\<lambda>_. True) t"
proof -
  have "announced t (bump_row (or_network_id r) (t\<lparr>t_route := fmdrop i (t_route t)\<rparr>))" if "fmlookup (t_route t) i = Some r" for r
    by (rule announcedI [where N = "{or_network_id r}"])
       (use that in \<open>auto simp: bump_row_network device_view_def route_view_def relay_view_def fun_eq_iff\<close>)
  moreover have "announced t (t\<lparr>t_route := fmdrop i (t_route t)\<rparr>)" if "fmlookup (t_route t) i = Some r" "or_approved r = 0" for r
    by (rule announcedI [where N = "{}"])
       (use that in \<open>auto simp: device_view_def route_view_def relay_view_def fun_eq_iff\<close>)
  ultimately show ?thesis
    unfolding sqlstore_delete_route_def db_get_route_def db_delete_route_def by (auto intro!: wp_rules)
qed

section \<open>Configurations\<close>

text \<open>A configuration up to the order of its lists, read off the view of its network.\<close>

definition prefixes :: "string \<Rightarrow> db \<Rightarrow> string \<Rightarrow> string set" where
  "prefixes n t j = {p. \<exists>k. route_view n t k = Some (j, p)}"

definition exits :: "string \<Rightarrow> db \<Rightarrow> string \<Rightarrow> bool" where
  "exits n t j \<longleftrightarrow> (\<exists>p \<in> prefixes n t j. is_default_prefix p)"

definition endpoint_list :: "string option \<Rightarrow> string list" where
  "endpoint_list eps = (case eps of Some s \<Rightarrow> filter (\<lambda>x. x \<noteq> []) (split_any '','' s) | None \<Rightarrow> [])"

definition settings_text :: "string option \<Rightarrow> string" where
  "settings_text st = (case st of Some s \<Rightarrow> if s = [] then ''{}'' else s | None \<Rightarrow> ''{}'')"

definition with_override :: "settings_codec \<Rightarrow> string option \<Rightarrow> string list \<Rightarrow> string list" where
  "with_override J st eps = (case sc_endpoint J (settings_text st) of Some ep \<Rightarrow> if ep = [] then eps else ep # eps | None \<Rightarrow> eps)"

definition peer_fact :: "settings_codec \<Rightarrow> string \<Rightarrow> db \<Rightarrow> string
    \<Rightarrow> string \<times> string option \<times> string option \<times> string option \<times> string option \<Rightarrow> string \<times> string set \<times> string list \<times> bool" where
  "peer_fact J n t j = (\<lambda>(key, v4, v6, eps, st).
     (key, set (case v4 of Some a \<Rightarrow> [a @ ''/32''] | None \<Rightarrow> []) \<union> set (case v6 of Some a \<Rightarrow> [a @ ''/128''] | None \<Rightarrow> []) \<union> prefixes n t j,
      with_override J st (endpoint_list eps), exits n t j))"

definition peer_facts :: "settings_codec \<Rightarrow> string \<Rightarrow> db \<Rightarrow> string \<Rightarrow> (string \<times> string set \<times> string list \<times> bool) set" where
  "peer_facts J n t i = {peer_fact J n t j v | j v. j \<noteq> i \<and> device_view n t j = Some v}"

definition config_is :: "settings_codec \<Rightarrow> string \<Rightarrow> string \<Rightarrow> db \<Rightarrow> device_config \<Rightarrow> bool" where
  "config_is J i n t cfg \<longleftrightarrow>
     dc_network_id cfg = n \<and> (\<exists>p u. pool_view n t = Some (p, u) \<and> overlay_cidrs cfg = [p, u]) \<and>
     (\<exists>key v4 v6 eps st. device_view n t i = Some (key, v4, v6, eps, st) \<and> dc_address_v4 cfg = v4 \<and> dc_address_v6 cfg = v6 \<and>
        dc_mtu cfg = map_option (\<lambda>m. sint (word_of_int m :: 32 word)) (sc_mtu J (settings_text st)) \<and>
        dc_dns cfg = (case sc_dns J (settings_text st) of Some dns \<Rightarrow> dns | None \<Rightarrow> [])) \<and>
     (\<lambda>p. (pc_public_key p, set (pc_allowed_ips p), pc_endpoints p, pc_exit p)) ` set (dc_peers cfg) = peer_facts J n t i \<and>
     set (dc_relays cfg) = {row_to_relay k r | k r. relay_view n t k = Some r} \<and>
     dc_self_exit cfg = exits n t i"

lemma config_is_view: "same_view n t t' \<Longrightarrow> config_is J i n t cfg = config_is J i n t' cfg"
  by (simp add: same_view_def config_is_def peer_facts_def peer_fact_def exits_def prefixes_def)

definition peer_of :: "settings_codec \<Rightarrow> (string \<times> string) list \<Rightarrow> db \<Rightarrow> device \<Rightarrow> peer_config" where
  "peer_of J appr t d =
     \<lparr>pc_public_key = wg_public_key d, pc_allowed_ips = sql_allowed_ips appr d,
      pc_endpoints = with_override J (Option.bind (fmlookup (t_device t) (dev_id d)) dr_settings)
        (endpoint_list (Option.bind (fmlookup (t_device t) (dev_id d)) dr_endpoints)),
      pc_exit = is_exit appr (dev_id d)\<rparr>"

lemma peers_spec:
  "wp (for_each (sql_peer_config J appr) ds acc)
     (\<lambda>peers t'. t' = t \<and> peers = acc @ map (peer_of J appr t) ds) (\<lambda>t'. t' = t) t"
proof (induction ds arbitrary: acc)
  case (Cons d ds)
  have "wp (sql_peer_config J appr d acc) (\<lambda>peers t'. t' = t \<and> peers = acc @ [peer_of J appr t d]) (\<lambda>t'. t' = t) t"
    unfolding sql_peer_config_def db_get_device_endpoints_def db_get_device_settings_def
    by (intro wp_rules) (simp_all add: peer_of_def with_override_def endpoint_list_def settings_text_def)
  then have "wp (sql_peer_config J appr d acc)
      (\<lambda>acc. wp (for_each (sql_peer_config J appr) ds acc)
         (\<lambda>peers t'. t' = t \<and> peers = (acc0 @ [peer_of J appr t d]) @ map (peer_of J appr t) ds) (\<lambda>t'. t' = t)) (\<lambda>t'. t' = t) t"
    if "acc0 = acc" for acc0
    by (rule wp_mono) (use Cons.IH [of "acc @ [peer_of J appr t d]"] that in auto)
  from this [OF refl] show ?case by (auto intro: wp_andthen)
qed (simp add: wp_yield)

lemma route_view_Some:
  "route_view n t k = Some (j, p) \<longleftrightarrow>
     (\<exists>r. fmlookup (t_route t) k = Some r \<and> or_network_id r = n \<and> or_approved r \<noteq> 0 \<and> or_device_id r = j \<and> or_prefix r = p)"
  by (auto simp: route_view_def split: option.splits)

lemma device_view_Some:
  "device_view n t j = Some v \<longleftrightarrow>
     (\<exists>r. fmlookup (t_device t) j = Some r \<and> dr_network_id r = n \<and> active_row r \<and>
        v = (dr_wg_public_key r, dr_address_v4 r, dr_address_v6 r, dr_endpoints r, dr_settings r))"
  by (auto simp: device_view_def split: option.splits)

lemma relay_view_Some:
  "relay_view n t k = Some r \<longleftrightarrow> fmlookup (t_relay t) k = Some r \<and> relay_serves (rr_network_id r) n"
  by (auto simp: relay_view_def split: option.splits if_splits)

lemma set_approved:
  assumes "iter_ok ord"
      "appr = map (\<lambda>(_, r). (or_device_id r, or_prefix r)) (rows ord (t_route t) (\<lambda>_ r. or_network_id r = n \<and> or_approved r \<noteq> 0))"
  shows "(j, p) \<in> set appr \<longleftrightarrow> p \<in> prefixes n t j"
proof -
  have "(j, p) \<in> set appr \<longleftrightarrow>
      (\<exists>k r. (k, r) \<in> set (rows ord (t_route t) (\<lambda>_ r. or_network_id r = n \<and> or_approved r \<noteq> 0)) \<and> or_device_id r = j \<and> or_prefix r = p)"
    unfolding assms(2) by force
  then show ?thesis
    by (auto simp: set_rows [OF assms(1)] prefixes_def route_view_Some)
qed

lemma approved_facts:
  assumes "\<And>j p. (j, p) \<in> set appr \<longleftrightarrow> p \<in> prefixes n t j"
  shows "is_exit appr j = exits n t j"
    and "snd ` {x \<in> set appr. (case x of (did, _) \<Rightarrow> did = j)} = prefixes n t j"
proof -
  show "is_exit appr j = exits n t j"
    using assms by (force simp: is_exit_def exits_def list_ex_iff)
  show "snd ` {x \<in> set appr. (case x of (did, _) \<Rightarrow> did = j)} = prefixes n t j"
    using assms by force
qed

lemma peer_facts_result:
  assumes "iter_ok ord" "\<And>j p. (j, p) \<in> set appr \<longleftrightarrow> p \<in> prefixes n t j"
      "ds = map (\<lambda>(j, r). row_to_device j r) (rows ord (t_device t) (\<lambda>_ r. dr_network_id r = n))"
  shows "(\<lambda>p. (pc_public_key p, set (pc_allowed_ips p), pc_endpoints p, pc_exit p)) `
           set (map (peer_of J appr t) (filter (\<lambda>d. dev_id d \<noteq> i \<and> dev_status d = Active) ds)) = peer_facts J n t i"
proof -
  define S where "S = {(j, r). j \<noteq> i \<and> fmlookup (t_device t) j = Some r \<and> dr_network_id r = n \<and> active_row r}"
  define X where "X = (\<lambda>(j, r :: device_row).
     peer_fact J n t j (dr_wg_public_key r, dr_address_v4 r, dr_address_v6 r, dr_endpoints r, dr_settings r))"
  have "(j, r) \<in> set (rows ord (t_device t) (\<lambda>_ r. dr_network_id r = n)) \<and> j \<noteq> i \<and> active_row r \<longleftrightarrow> (j, r) \<in> S" for j r
    by (auto simp: set_rows [OF assms(1)] S_def)
  then have "set (filter (\<lambda>d. dev_id d \<noteq> i \<and> dev_status d = Active) ds) = (\<lambda>(j, r). row_to_device j r) ` S"
    unfolding assms(3) by force
  moreover have "(\<lambda>p. (pc_public_key p, set (pc_allowed_ips p), pc_endpoints p, pc_exit p))
      (peer_of J appr t ((\<lambda>(j, r). row_to_device j r) x)) = X x" if "x \<in> S" for x
    using that approved_facts [OF assms(2)]
    by (cases x) (simp add: S_def X_def peer_fact_def peer_of_def sql_allowed_ips_def Un_assoc)
  ultimately have "(\<lambda>p. (pc_public_key p, set (pc_allowed_ips p), pc_endpoints p, pc_exit p)) `
           set (map (peer_of J appr t) (filter (\<lambda>d. dev_id d \<noteq> i \<and> dev_status d = Active) ds)) = X ` S"
    unfolding set_map image_image by (simp add: image_image)
  also have "X ` S = peer_facts J n t i"
    unfolding peer_facts_def device_view_Some S_def X_def by auto blast
  finally show ?thesis .
qed

lemma device_config_spec:
  "wp (sqlstore_device_config J i)
     (\<lambda>cfg t'. t' = t \<and> (\<exists>r nr. fmlookup (t_device t) i = Some r \<and> active_row r \<and>
        fmlookup (t_network t) (dr_network_id r) = Some nr \<and> dc_config_epoch cfg = word_of_int (nr_config_epoch nr) \<and>
        config_is J i (dr_network_id r) t cfg)) (\<lambda>t'. t' = t) t"
proof -
  have result: "config_is J i (dr_network_id r) t
      \<lparr>overlay_cidrs = [nr_ipv4_pool nr, nr_ipv6_ula nr],
       dc_network_id = dr_network_id r, dc_config_epoch = e, dc_address_v4 = dr_address_v4 r, dc_address_v6 = dr_address_v6 r,
       dc_peers = map (peer_of J appr t) (filter (\<lambda>d. dev_id d \<noteq> i \<and> dev_status d = Active) ds),
       dc_relays = map (\<lambda>(k, q). row_to_relay k q) (rows o3 (t_relay t) (\<lambda>_ q. rr_network_id q = Some (dr_network_id r) \<or> rr_network_id q = None)),
       dc_mtu = map_option (\<lambda>m. sint (word_of_int m :: 32 word)) (sc_mtu J st),
       dc_dns = (case sc_dns J st of Some dns \<Rightarrow> dns | None \<Rightarrow> []), dc_self_exit = is_exit appr i\<rparr>"
    if "fmlookup (t_device t) i = Some r" "active_row r" "fmlookup (t_network t) (dr_network_id r) = Some nr"
      "iter_ok o1" "iter_ok o2" "iter_ok o3"
      "appr = map (\<lambda>(_, q). (or_device_id q, or_prefix q)) (rows o1 (t_route t) (\<lambda>_ q. or_network_id q = dr_network_id r \<and> or_approved q \<noteq> 0))"
      "ds = map (\<lambda>(j, q). row_to_device j q) (rows o2 (t_device t) (\<lambda>_ q. dr_network_id q = dr_network_id r))"
      "st = settings_text (dr_settings r)" for r nr e appr ds o1 o2 o3 st
  proof -
    note appr = set_approved [OF that(4,7)]
    have "set (map (\<lambda>(k, q). row_to_relay k q) (rows o3 (t_relay t) (\<lambda>_ q. rr_network_id q = Some (dr_network_id r) \<or> rr_network_id q = None)))
        = {row_to_relay k q | k q. relay_view (dr_network_id r) t k = Some q}"
      by (force simp: set_rows [OF that(6)] relay_view_Some relay_serves_def split: option.splits)
    with that show ?thesis
      using peer_facts_result [OF that(5) appr that(8)] approved_facts(1) [OF appr]
      by (simp add: config_is_def pool_view_def device_view_def row_to_network_def)
  qed
  show ?thesis
    unfolding sqlstore_device_config_def db_get_device_def db_get_network_def db_approved_routes_for_network_def
      db_get_device_settings_def db_list_devices_def db_list_relays_def
    by (auto intro!: wp_rules wp_mono [OF peers_spec] result [OF _ _ _ _ _ _ refl refl refl]
             simp: settings_text_def [symmetric] row_to_network_def)
qed

end
