(* ===== verification/Http_Safety.thy ===== *)
theory Http_Safety
  imports Http_Api Sql_Epochs
begin

text \<open>
  Every request to the HTTP interface, with any faults of the database, performs a sequence of the
  steps that the tables allow, and so does every sequence of requests.
\<close>

section \<open>Requests perform steps\<close>

abbreviation sv_tables :: "server \<Rightarrow> db" where
  "sv_tables sv \<equiv> tables (sv_session sv)"

definition serves :: "key_codec \<Rightarrow> 'a handler \<Rightarrow> bool" where
  "serves K h \<longleftrightarrow> (\<forall>sv. (db_step K)\<^sup>*\<^sup>* (sv_tables sv) (sv_tables (fst (h sv))))"

lemma serves_basic: "serves K (hyield x)" "serves K (hfail st)"
  by (simp_all add: serves_def hyield_def hfail_def)

lemma serves_hthen:
  assumes "serves K m" "\<And>x. serves K (f x)"
  shows "serves K (hthen m f)"
  unfolding serves_def
proof
  fix sv
  obtain sv' r where m: "m sv = (sv', r)" by force
  then have first: "(db_step K)\<^sup>*\<^sup>* (sv_tables sv) (sv_tables sv')"
    using assms(1) by (metis fst_conv serves_def)
  show "(db_step K)\<^sup>*\<^sup>* (sv_tables sv) (sv_tables (fst (hthen m f sv)))"
  proof (cases r)
    case (Inr x)
    have "(db_step K)\<^sup>*\<^sup>* (sv_tables sv') (sv_tables (fst (f x sv')))" using assms(2) by (simp add: serves_def)
    with first show ?thesis by (simp add: hthen_def m Inr)
  qed (use first in \<open>simp add: hthen_def m\<close>)
qed

lemma performs_tables:
  assumes "performs K m" "iter_ok (b_order B)"
  shows "(db_step K)\<^sup>*\<^sup>* (tables s) (tables (fst (m B s)))"
proof -
  have "wp m (\<lambda>_ t'. (db_step K)\<^sup>*\<^sup>* (tables s) t') (\<lambda>t'. (db_step K)\<^sup>*\<^sup>* (tables s) t') (tables s)"
    using assms(1) by (simp add: performs_def)
  with assms(2) show ?thesis
    by (cases "m B s"; cases "snd (m B s)") (auto dest: wp_error wp_result)
qed

lemma serves_sql:
  assumes "performs K m" "iter_ok (b_order (he_backend E))"
  shows "serves K (run_sql E status m)" "serves K (try_sql E x m)"
  using performs_tables [OF assms]
  by (auto simp: serves_def run_sql_def try_sql_def split: prod.splits sum.splits) (metis fst_conv)+

lemma serves_sessions: "(\<And>sv. sv_session (fst (h sv)) = sv_session sv) \<Longrightarrow> serves K h"
  by (simp add: serves_def)

lemma serves_split:
  "(\<And>y. serves K (f y)) \<Longrightarrow> serves K g \<Longrightarrow> serves K (case x of Some y \<Rightarrow> f y | None \<Rightarrow> g)"
  "serves K h1 \<Longrightarrow> serves K h2 \<Longrightarrow> serves K (if c then h1 else h2)"
  by (auto split: option.split)

lemma account_queries_perform:
  "performs K db_count_admins" "performs K (db_admin_hash u)" "performs K (db_create_admin u h now)"
  "performs K (db_update_admin_password u h)" "performs K db_list_admins" "performs K (db_delete_admin u)"
  "performs K (db_insert_audit ts a act)" "performs K (db_list_audit lim)"
proof -
  have accounts: "statement_step t (t\<lparr>t_admin := m\<rparr>)" "statement_step t (t\<lparr>t_audit := l\<rparr>)" for t m l
    using step_accounts [where t = t and a = m and l = "t_audit t"]
      step_accounts [where t = t and a = "t_admin t" and l = l] by simp_all
  show "performs K (db_create_admin u h now)"
    unfolding performs_def db_create_admin_def
    by (auto intro!: wp_guarded simp: db_step_def accounts)
  show "performs K db_count_admins" "performs K (db_admin_hash u)" "performs K (db_update_admin_password u h)"
    "performs K db_list_admins" "performs K (db_delete_admin u)" "performs K (db_insert_audit ts a act)"
    "performs K (db_list_audit lim)"
    unfolding db_count_admins_def db_admin_hash_def db_update_admin_password_def db_list_admins_def
      db_delete_admin_def db_insert_audit_def db_list_audit_def
    by (intro performs_rules accounts)+
qed

lemma record_audit_performs: "performs K (sqlstore_record_audit ts a act)"
  using performs_tables [OF account_queries_perform(7)]
  by (auto simp: performs_def wp_def sqlstore_record_audit_def)

lemma device_config_performs: "performs K (sqlstore_device_config J i)"
  unfolding performs_def by (auto intro: wp_mono [OF device_config_spec])

lemmas sql_perform = account_queries_perform record_audit_performs device_config_performs db_queries_perform
  rename_device_performs set_device_settings_performs approve_route_performs delete_route_performs
  create_network_performs atomic_performs [OF create_invite_spec] atomic_performs [OF delete_network_spec]
  atomic_performs [OF revoke_invite_spec] atomic_performs [OF revoke_device_atomic]
  atomic_performs [OF set_endpoints_spec] atomic_performs [OF report_stats_spec]
  atomic_performs [OF enroll_atomic] atomic_performs [OF import_spec] atomic_performs [OF advertise_route_spec]
  atomic_performs [OF device_route_change_spec] atomic_performs [OF register_relay_spec]
  atomic_performs [OF update_relay_spec]

lemmas serves_rules = serves_basic serves_hthen serves_split serves_sql sql_perform

lemma session_user_serves: "iter_ok (b_order (he_backend E)) \<Longrightarrow> serves K (session_user E k token)"
proof -
  assume E: "iter_ok (b_order (he_backend E))"
  have "serves K (hthen (run_sql E internal_error (db_admin_hash (as_username ss))) (\<lambda>current.
           if he_instant E k < as_expiry ss \<and> current = Some (as_password_hash ss) then hyield (Some (as_username ss))
           else (\<lambda>sv. (sv\<lparr>sv_sessions := fmdrop token (sv_sessions sv)\<rparr>, Inr None))))" for ss :: auth_session
    by (intro serves_rules E) (simp add: serves_sessions)
  then show ?thesis
    by (auto simp: serves_def session_user_def split: option.split)
qed

lemma bearer_serves:
  assumes "iter_ok (b_order (he_backend E))"
  shows "serves K (valid_bearer E k bearer)" "serves K (acting_user E k authz)"
proof -
  have "serves K (hthen (session_user E k bearer) (\<lambda>user. hyield (user \<noteq> None)))"
    by (intro serves_rules session_user_serves assms)
  then show "serves K (valid_bearer E k bearer)" by (simp add: serves_def valid_bearer_def)
  show "serves K (acting_user E k authz)"
    unfolding acting_user_def by (intro serves_rules session_user_serves assms)
qed

lemma guards_serve:
  assumes "iter_ok (b_order (he_backend E))"
  shows "serves K (require_device E authz i)" "serves K (require_device_read E authz i)"
  unfolding require_device_def require_device_read_def
  by (intro serves_rules bearer_serves assms)+

lemma serves_respond: "serves K m \<Longrightarrow> serves K (respond st f m)"
  unfolding respond_def by (intro serves_rules)

lemma revoke_sessions_serves: "serves K (\<lambda>sv. (revoke_sessions u sv, r))"
  by (simp add: serves_sessions revoke_sessions_def)

lemma account_handlers_serve:
  assumes "iter_ok (b_order (he_backend E))"
  shows "serves K (admin_login L E u p)" "serves K (admin_me E authz)"
    "serves K (admin_change_password L E authz old new)" "serves K (http_create_admin E u p)"
    "serves K (http_delete_admin E authz u)"
  unfolding admin_login_def auth_login_def admin_me_def admin_change_password_def http_create_admin_def
    http_delete_admin_def delete_admin_check_def delete_admin_commit_def
  by (intro serves_rules bearer_serves revoke_sessions_serves assms serves_sessions; simp)+

lemma enrol_handlers_serve:
  assumes "iter_ok (b_order (he_backend E))" "key_codec_ok (hl_codec L)"
  shows "serves (hl_codec L) (sql_enroll_challenge L E key)" "serves (hl_codec L) (sql_enroll L E req)"
proof -
  show "serves (hl_codec L) (sql_enroll_challenge L E key)"
    by (rule serves_sessions) (simp add: sql_enroll_challenge_def split: prod.split option.split)
  have "serves (hl_codec L) (respond 201 (\<lambda>(d, token). Enrolled d token)
      (run_sql E sql_status (sqlstore_enroll (hl_codec L) (he_random E) (rq_invite_code req) (rq_name req) (rq_wg_public_key req) (he_unix E))))"
    by (intro serves_respond serves_rules assms)
  then have "(db_step (hl_codec L))\<^sup>*\<^sup>* (sv_tables sv) (sv_tables (fst (respond 201 (\<lambda>(d, token). Enrolled d token)
      (run_sql E sql_status (sqlstore_enroll (hl_codec L) (he_random E) (rq_invite_code req) (rq_name req) (rq_wg_public_key req) (he_unix E)))
      (sv\<lparr>sv_pending := p\<rparr>))))" for sv p
    unfolding serves_def by (metis server.select_convs(1) server.surjective server.update_convs(4))
  then show "serves (hl_codec L) (sql_enroll L E req)"
    by (auto simp: serves_def sql_enroll_def hfail_def split: prod.splits option.splits)
qed

lemma device_handlers_serve:
  assumes "iter_ok (b_order (he_backend E))"
  shows "serves K (sql_device_config L E authz i)" "serves K (sql_device_gateway L E authz i)"
    "serves K (sql_set_endpoints E authz i eps)" "serves K (sql_report_stats E authz i rx tx peers)"
    "serves K (sql_get_device_stats L E authz i)" "serves K (sql_get_device_settings L E authz i)"
    "serves K (sql_list_device_routes E authz i)" "serves K (sql_device_route E authz i p w)"
    "serves K (sql_resolve_name E authz n name)"
  unfolding sql_device_config_def sql_device_gateway_def sql_set_endpoints_def sql_report_stats_def
    sql_get_device_stats_def sql_get_device_settings_def sql_list_device_routes_def sql_device_route_def sql_resolve_name_def
  by (intro serves_rules serves_respond guards_serve bearer_serves assms)+

lemma watch_serves: "iter_ok (b_order (he_backend E)) \<Longrightarrow> serves K (sql_watch_device E authz i)"
  unfolding sql_watch_device_def
  by (intro serves_rules guards_serve) (simp_all add: serves_def sqlstore_subscribe_def Let_def)

lemma admin_handler_serves:
  assumes "iter_ok (b_order (he_backend E))" "key_codec_ok (hl_codec L)"
  shows "serves (hl_codec L) (admin_handler L E authz req)"
  unfolding admin_handler_def admin_handler_defs validate_relay_identity_def sql_rename_device_def Let_def
  by (cases req; simp only: request.case;
      intro serves_rules serves_respond account_handlers_serve assms)

lemma require_admin_serves:
  assumes "iter_ok (b_order (he_backend E))" "serves K inner"
  shows "serves K (require_admin E authz meth inner)"
  unfolding require_admin_def audit_mutation_def Let_def by (intro serves_rules bearer_serves assms)

lemma sql_router_serves:
  assumes "iter_ok (b_order (he_backend E))" "key_codec_ok (hl_codec L)"
  shows "serves (hl_codec L) (sql_router L E authz req)"
  unfolding sql_router_def
  by (cases req; simp only: request.case;
      intro serves_rules serves_respond account_handlers_serve enrol_handlers_serve device_handlers_serve
        watch_serves require_admin_serves admin_handler_serves assms)

section \<open>Runs of the server\<close>

text \<open>A run: each request comes with its header and with what it reads from outside.\<close>

fun serve_all :: "http_lib \<Rightarrow> (http_env \<times> string option \<times> request) list \<Rightarrow> server \<Rightarrow> server" where
  "serve_all L [] sv = sv"
| "serve_all L ((E, authz, req) # rs) sv = serve_all L rs (fst (sql_router L E authz req sv))"

definition env_ok :: "http_env \<times> string option \<times> request \<Rightarrow> bool" where
  "env_ok r \<longleftrightarrow> iter_ok (b_order (he_backend (fst r)))"

lemma serve_all_steps:
  assumes "key_codec_ok (hl_codec L)" "list_all env_ok rs"
  shows "(db_step (hl_codec L))\<^sup>*\<^sup>* (sv_tables sv) (sv_tables (serve_all L rs sv))"
  using assms(2)
proof (induction rs arbitrary: sv)
  case (Cons r rs)
  obtain E authz req where r: "r = (E, authz, req)" by (metis prod_cases3)
  with Cons.prems have "(db_step (hl_codec L))\<^sup>*\<^sup>* (sv_tables sv) (sv_tables (fst (sql_router L E authz req sv)))"
    using sql_router_serves [OF _ assms(1)] by (simp add: env_ok_def serves_def)
  with Cons r show ?case by (auto intro: rtranclp_trans)
qed simp

end
