(* ===== verification/Http_Access.thy ===== *)
theory Http_Access
  imports Http_Safety
begin

text \<open>
  Who may change the tables. A handler that only reads leaves them as they are; every other one is
  reached behind a guard, and the guards let pass exactly the bearers described here.
\<close>

section \<open>Handlers that only read\<close>

definition reading :: "'a action \<Rightarrow> bool" where
  "reading m \<longleftrightarrow> (\<forall>t. wp m (\<lambda>_ t'. t' = t) (\<lambda>t'. t' = t) t)"

lemma reading_basic: "reading (yield x)" "reading (fail e)" "reading (select q)" "reading (require y e)"
  by (auto simp: reading_def require_def wp_yield wp_fail wp_select split: option.split)

lemma reading_andthen: "reading m \<Longrightarrow> (\<And>x. reading (f x)) \<Longrightarrow> reading (andthen m f)"
  unfolding reading_def by (blast intro: wp_andthen wp_mono)

lemma reading_split:
  "(\<And>y. reading (f y)) \<Longrightarrow> reading g \<Longrightarrow> reading (case x of Some y \<Rightarrow> f y | None \<Rightarrow> g)"
  "reading m1 \<Longrightarrow> reading m2 \<Longrightarrow> reading (if c then m1 else m2)"
  by (auto split: option.split)

lemmas reading_rules = reading_basic reading_andthen reading_split

lemma sqlstore_reading:
  "reading (sqlstore_network_of i)" "reading (sqlstore_token_network token)" "reading (sqlstore_resolve n name)"
  "reading (sqlstore_device_token i)" "reading (sqlstore_has_device_token token)" "reading (sqlstore_device_settings i)"
  "reading (sqlstore_list_device_routes i)" "reading (sqlstore_device_stats i)" "reading (sqlstore_list_relays n)"
  "reading (db_admin_hash u)"
  unfolding sqlstore_network_of_def sqlstore_token_network_def sqlstore_list_devices_def sqlstore_resolve_def
    sqlstore_device_token_def sqlstore_has_device_token_def sqlstore_device_settings_def
    sqlstore_list_device_routes_def sqlstore_device_stats_def sqlstore_list_relays_def db_defs
  by (intro reading_rules)+

lemma device_config_reading: "reading (sqlstore_device_config J i)"
  unfolding reading_def by (auto intro: wp_mono [OF device_config_spec])

definition keeps_tables :: "'a handler \<Rightarrow> bool" where
  "keeps_tables h \<longleftrightarrow> (\<forall>sv. sv_tables (fst (h sv)) = sv_tables sv)"

lemma quietD: "keeps_tables h \<Longrightarrow> h sv = (sv', r) \<Longrightarrow> sv_tables sv' = sv_tables sv"
  by (metis fst_conv keeps_tables_def)

lemma quiet_basic: "keeps_tables (hyield x)" "keeps_tables (hfail st)"
  by (simp_all add: keeps_tables_def hyield_def hfail_def)

lemma quiet_hthen: "keeps_tables m \<Longrightarrow> (\<And>x. keeps_tables (f x)) \<Longrightarrow> keeps_tables (hthen m f)"
  by (auto simp: keeps_tables_def hthen_def split: prod.split sum.split) (metis fst_conv)+

lemma quiet_split:
  "(\<And>y. keeps_tables (f y)) \<Longrightarrow> keeps_tables g \<Longrightarrow> keeps_tables (case x of Some y \<Rightarrow> f y | None \<Rightarrow> g)"
  "keeps_tables h1 \<Longrightarrow> keeps_tables h2 \<Longrightarrow> keeps_tables (if c then h1 else h2)"
  by (auto split: option.split)

lemma quiet_sql:
  assumes "reading m" "iter_ok (b_order (he_backend E))"
  shows "keeps_tables (run_sql E status m)" "keeps_tables (try_sql E x m)"
proof -
  have "tables (fst (m (he_backend E) s)) = tables s" for s
    using assms unfolding reading_def
    by (cases "m (he_backend E) s"; cases "snd (m (he_backend E) s)") (auto dest: wp_error wp_result)
  then show "keeps_tables (run_sql E status m)" "keeps_tables (try_sql E x m)"
    by (auto simp: keeps_tables_def run_sql_def try_sql_def split: prod.splits sum.splits) (metis fst_conv)+
qed

lemma quiet_respond: "keeps_tables m \<Longrightarrow> keeps_tables (respond st f m)"
  unfolding respond_def by (intro quiet_hthen quiet_basic)

lemmas quiet_rules = quiet_basic quiet_hthen quiet_split quiet_respond quiet_sql sqlstore_reading device_config_reading

lemma quiet_sessions:
  assumes "iter_ok (b_order (he_backend E))"
  shows "keeps_tables (session_user E k token)" "keeps_tables (valid_bearer E k token)" "keeps_tables (acting_user E k authz)"
proof -
  have "keeps_tables (hthen (run_sql E internal_error (db_admin_hash (as_username ss))) (\<lambda>current.
           if he_instant E k < as_expiry ss \<and> current = Some (as_password_hash ss) then hyield (Some (as_username ss))
           else (\<lambda>sv. (sv\<lparr>sv_sessions := fmdrop tok (sv_sessions sv)\<rparr>, Inr None))))" for ss :: auth_session and tok
    by (intro quiet_rules assms) (simp add: keeps_tables_def)
  then have user: "keeps_tables (session_user E k tok)" for tok
    by (auto simp: keeps_tables_def session_user_def split: option.split)
  then show "keeps_tables (session_user E k token)" .
  have "keeps_tables (hthen (session_user E k token) (\<lambda>user. hyield (user \<noteq> None)))"
    by (intro quiet_rules user)
  then show "keeps_tables (valid_bearer E k token)" by (simp add: keeps_tables_def valid_bearer_def)
  show "keeps_tables (acting_user E k authz)"
    unfolding acting_user_def by (intro quiet_rules user)
qed

lemma quiet_guards:
  assumes "iter_ok (b_order (he_backend E))"
  shows "keeps_tables (require_device E authz i)" "keeps_tables (require_device_read E authz i)"
  unfolding require_device_def require_device_read_def
  by (intro quiet_rules quiet_sessions assms)+

lemma quiet_handlers:
  assumes "iter_ok (b_order (he_backend E))"
  shows "keeps_tables (sql_enroll_challenge L E key)" "keeps_tables (sql_device_config L E authz i)"
    "keeps_tables (sql_device_gateway L E authz i)" "keeps_tables (sql_get_device_stats L E authz i)"
    "keeps_tables (sql_get_device_settings L E authz i)" "keeps_tables (sql_list_device_routes E authz i)"
    "keeps_tables (sql_resolve_name E authz n name)" "keeps_tables (sql_watch_device E authz i)"
proof -
  show "keeps_tables (sql_enroll_challenge L E key)"
    by (simp add: keeps_tables_def sql_enroll_challenge_def split: prod.split option.split)
  show "keeps_tables (sql_watch_device E authz i)"
    unfolding sql_watch_device_def
    by (intro quiet_rules quiet_guards assms) (simp add: keeps_tables_def sqlstore_subscribe_def Let_def)
qed (unfold sql_device_config_def sql_device_gateway_def sql_get_device_stats_def sql_get_device_settings_def
       sql_list_device_routes_def sql_resolve_name_def,
     (intro quiet_rules quiet_guards quiet_sessions assms)+)

section \<open>Guards\<close>

definition token_of :: "db \<Rightarrow> string \<Rightarrow> string option" where
  "token_of t i = Option.bind (live_device t i) dr_auth_token"

definition hash_of :: "db \<Rightarrow> string \<Rightarrow> string option" where
  "hash_of t u = map_option ar_password_hash (fmlookup (t_admin t) u)"

text \<open>An administrator: the master key, or a session that is not over and whose account still has the
  password it was opened with.\<close>

definition admin_bearer :: "http_env \<Rightarrow> server \<Rightarrow> string option \<Rightarrow> bool" where
  "admin_bearer E sv authz \<longleftrightarrow>
     (case bearer_token authz of
        None \<Rightarrow> False
      | Some b \<Rightarrow>
          sv_master sv = Some b \<or>
          (case fmlookup (sv_sessions sv) b of
             Some ss \<Rightarrow> he_instant E 0 < as_expiry ss \<and> hash_of (sv_tables sv) (as_username ss) = Some (as_password_hash ss)
           | None \<Rightarrow> False))"

definition device_bearer :: "http_env \<Rightarrow> server \<Rightarrow> string option \<Rightarrow> string \<Rightarrow> bool" where
  "device_bearer E sv authz i \<longleftrightarrow>
     (case bearer_token authz of
        None \<Rightarrow> False
      | Some b \<Rightarrow> is_master_bearer E b \<or> token_of (sv_tables sv) i = Some b)"

lemma run_select: "run_sql E st (select q) sv = (sv', Inr x) \<Longrightarrow> x = q (b_order (he_backend E)) (sv_tables sv)"
  by (auto simp: run_sql_def select_def statement_def Let_def split: option.splits prod.splits sum.splits)

lemma hthen_Inr:
  assumes "hthen m f sv = (sv', Inr y)"
  obtains sv1 x where "m sv = (sv1, Inr x)" "f x sv1 = (sv', Inr y)"
  using assms by (auto simp: hthen_def split: prod.splits sum.splits)

lemma require_device_passes:
  assumes "require_device E authz i sv = (sv', Inr u)"
  shows "device_bearer E sv authz i"
  using assms
  by (auto simp: require_device_def device_bearer_def hfail_def hyield_def sqlstore_device_token_def
                 db_get_device_token_def token_of_def
           elim!: hthen_Inr dest!: run_select split: option.splits if_splits)

lemma session_user_passes:
  assumes "session_user E k b sv = (sv', Inr (Some u))"
  obtains ss where "fmlookup (sv_sessions sv) b = Some ss" "he_instant E k < as_expiry ss" "as_username ss = u"
    "hash_of (sv_tables sv) u = Some (as_password_hash ss)"
  using assms
  by (auto simp: session_user_def hyield_def db_admin_hash_def hash_of_def
           elim!: hthen_Inr dest!: run_select split: option.splits if_splits)

lemma valid_bearer_passes:
  assumes "valid_bearer E 0 b sv = (sv', Inr True)" "bearer_token authz = Some b"
  shows "admin_bearer E sv authz"
proof (cases "sv_master sv = Some b")
  case False
  with assms(1) obtain sv1 u where "session_user E 0 b sv = (sv1, Inr (Some u))"
    by (auto simp: valid_bearer_def hyield_def elim!: hthen_Inr split: option.splits if_splits)
  then show ?thesis
    by (rule session_user_passes) (use assms(2) in \<open>auto simp: admin_bearer_def\<close>)
qed (use assms(2) in \<open>simp add: admin_bearer_def\<close>)

text \<open>A handler behind a quiet guard changes the tables only if the guard passes.\<close>

lemma hthen_changes:
  assumes "keeps_tables m" "sv_tables (fst (hthen m f sv)) \<noteq> sv_tables sv"
  obtains sv' x where "m sv = (sv', Inr x)" "sv_tables (fst (f x sv')) \<noteq> sv_tables sv'"
proof -
  obtain sv' r where m: "m sv = (sv', r)" by force
  with quietD [OF assms(1) m] assms(2) that show ?thesis by (cases r) (auto simp: hthen_def)
qed

text \<open>What the middleware adds to a handler that succeeds is an entry of the audit log.\<close>

lemma record_audit_tables:
  assumes "run_sql E st (sqlstore_record_audit ts a act) sv = (sv', r)"
  obtains l where "sv_tables sv' = (sv_tables sv)\<lparr>t_audit := l\<rparr>"
proof -
  have "\<exists>l. tables (fst (db_insert_audit ts a act B s)) = tables s\<lparr>t_audit := l\<rparr>" for B s
    by (auto simp: db_insert_audit_def update_def statement_def Let_def split: option.split)
       (metis (no_types) db.surjective db.update_convs(8))
  then show thesis using that assms by (auto simp: run_sql_def sqlstore_record_audit_def) metis
qed

lemma audit_mutation_result:
  assumes "audit_mutation E meth user r sv = (sv', Inr resp)"
  obtains l where "resp = r" "sv_tables sv' = (sv_tables sv)\<lparr>t_audit := l\<rparr>"
proof (cases "meth \<in> set [''POST'', ''PUT'', ''PATCH'', ''DELETE''] \<and> 200 \<le> fst r \<and> fst r < 300")
  case True
  with assms obtain sv1 u where "run_sql E internal_error (sqlstore_record_audit (he_millis E)
       (case user of Some u \<Rightarrow> u | None \<Rightarrow> ''(master)'') (meth @ '' '' @ he_path E)) sv = (sv1, Inr u)"
      "hyield r sv1 = (sv', Inr resp)"
    unfolding audit_mutation_def Let_def by (simp only: if_True simp_thms) (erule hthen_Inr)
  then show thesis by (elim record_audit_tables) (use that in \<open>simp add: hyield_def\<close>)
next
  case False
  with assms that [of "t_audit (sv_tables sv)"] show thesis
    unfolding audit_mutation_def Let_def by (simp only: if_False simp_thms) (simp add: hyield_def)
qed

lemma require_admin_result:
  assumes "iter_ok (b_order (he_backend E))" "require_admin E authz meth inner sv = (sv', Inr resp)"
  obtains sv1 sv2 l where "sv_tables sv1 = sv_tables sv" "inner sv1 = (sv2, Inr resp)"
    "sv_tables sv' = (sv_tables sv2)\<lparr>t_audit := l\<rparr>"
proof -
  from assms(2) obtain b where b: "bearer_token authz = Some b"
    by (auto simp: require_admin_def hfail_def split: option.splits)
  from assms(2) [unfolded require_admin_def b option.case] obtain sva valid where valid: "valid_bearer E 0 b sv = (sva, Inr valid)"
    and rest: "(if \<not> valid then hfail 401
                else hthen (acting_user E 1 authz) (\<lambda>user. hthen inner (audit_mutation E meth user))) sva = (sv', Inr resp)"
    by (rule hthen_Inr)
  from rest have "hthen (acting_user E 1 authz) (\<lambda>user. hthen inner (audit_mutation E meth user)) sva = (sv', Inr resp)"
    by (cases valid) (simp_all add: hfail_def)
  then obtain sv1 user where user: "acting_user E 1 authz sva = (sv1, Inr user)"
    and inner: "hthen inner (audit_mutation E meth user) sv1 = (sv', Inr resp)"
    by (rule hthen_Inr)
  have same: "sv_tables sv1 = sv_tables sv"
    using quietD [OF quiet_sessions(2) [OF assms(1)] valid] quietD [OF quiet_sessions(3) [OF assms(1)] user] by simp
  from inner obtain sv2 r where "inner sv1 = (sv2, Inr r)" "audit_mutation E meth user r sv2 = (sv', Inr resp)"
    by (rule hthen_Inr)
  then show thesis by (elim audit_mutation_result) (use same that in simp)
qed

section \<open>Authorisation\<close>

definition proves_possession :: "http_lib \<Rightarrow> http_env \<Rightarrow> server \<Rightarrow> enroll_req \<Rightarrow> bool" where
  "proves_possession L E sv r \<longleftrightarrow>
     (case (rq_challenge_id r, rq_proof r) of
        (Some cid, Some p) \<Rightarrow>
          snd (verify_proof (hl_codec L) (hl_crypto L) (hl_contributory L) (sv_pending sv) cid (rq_wg_public_key r) p (he_instant E 0))
      | _ \<Rightarrow> False)"

text \<open>Who may change the tables with a request; requests of the last group that are open only read.\<close>

definition authorised :: "http_lib \<Rightarrow> http_env \<Rightarrow> server \<Rightarrow> string option \<Rightarrow> request \<Rightarrow> bool" where
  "authorised L E sv authz req =
     (case req of
        Login u p \<Rightarrow> (case hash_of (sv_tables sv) u of Some h \<Rightarrow> hl_verify_password L p h | None \<Rightarrow> False)
      | Enroll r \<Rightarrow> proves_possession L E sv r
      | SetEndpoints i _ \<Rightarrow> device_bearer E sv authz i
      | ReportStats i _ _ _ \<Rightarrow> device_bearer E sv authz i
      | DeviceAdvertise i _ \<Rightarrow> bearer_token authz \<noteq> None \<and> bearer_token authz = token_of (sv_tables sv) i
      | DeviceUnadvertise i _ \<Rightarrow> bearer_token authz \<noteq> None \<and> bearer_token authz = token_of (sv_tables sv) i
      | EnrollChallenge _ \<Rightarrow> False | GetConfig _ \<Rightarrow> False | GetGateway _ \<Rightarrow> False | GetStats _ \<Rightarrow> False
      | GetSettings _ \<Rightarrow> False | ListDeviceRoutes _ \<Rightarrow> False | WatchDevice _ \<Rightarrow> False | ListRelays _ \<Rightarrow> False
      | ResolveName _ _ \<Rightarrow> False
      | _ \<Rightarrow> admin_bearer E sv authz)"

lemma login_changes:
  assumes "iter_ok (b_order (he_backend E))"
    "sv_tables (fst (respond st f (admin_login L E u p) sv)) \<noteq> sv_tables sv"
  shows "authorised L E sv authz (Login u p)"
proof (rule ccontr)
  assume no: "\<not> authorised L E sv authz (Login u p)"
  obtain sv1 h where h: "try_sql E None (db_admin_hash u) sv = (sv1, Inr h)"
    by (cases "db_admin_hash u (he_backend E) (sv_session sv)"; cases "snd (db_admin_hash u (he_backend E) (sv_session sv))")
       (auto simp: try_sql_def)
  then have "h = None \<or> h = hash_of (sv_tables sv) u"
    by (auto simp: try_sql_def db_admin_hash_def select_def statement_def hash_of_def Let_def split: option.splits prod.splits sum.splits)
  then have "auth_login L E u p sv = (sv1, Inr None)"
    using no h by (auto simp: auth_login_def hthen_def hyield_def authorised_def split: option.splits)
  moreover have "sv_tables sv1 = sv_tables sv"
    using quietD [OF quiet_sql(2) [OF sqlstore_reading(10) assms(1)] h] .
  ultimately show False
    using assms(2) by (simp add: respond_def admin_login_def hthen_def hfail_def)
qed

lemma enroll_changes:
  assumes "sv_tables (fst (sql_enroll L E r sv)) \<noteq> sv_tables sv"
  shows "proves_possession L E sv r"
  using assms
  by (auto simp: sql_enroll_def proves_possession_def hfail_def split: option.splits prod.splits if_splits)

lemma device_writes_change:
  assumes "iter_ok (b_order (he_backend E))" "sv_tables (fst (hthen (require_device E authz i) f sv)) \<noteq> sv_tables sv"
  shows "device_bearer E sv authz i"
  using assms(2) by (rule hthen_changes [OF quiet_guards(1) [OF assms(1)]]) (rule require_device_passes)

lemma route_change_token:
  "wp (sqlstore_device_route_change i token p w)
     (\<lambda>_ t'. t' = t \<or> token_of t i = Some token) (\<lambda>t'. t' = t) t"
  unfolding sqlstore_device_route_change_def device_route_change_once_def db_defs token_of_def
  by (auto intro!: wp_rules wp_statement split: option.splits if_splits)

lemma device_route_changes:
  assumes "iter_ok (b_order (he_backend E))" "sv_tables (fst (sql_device_route E authz i p w sv)) \<noteq> sv_tables sv"
  shows "bearer_token authz \<noteq> None \<and> bearer_token authz = token_of (sv_tables sv) i"
proof -
  from assms(2) obtain token where b: "nonempty_bearer authz = Some token"
    and changed: "sv_tables (fst (run_sql E sql_status (sqlstore_device_route_change i token p w) sv)) \<noteq> sv_tables sv"
    by (auto simp: sql_device_route_def hfail_def respond_def hthen_def hyield_def split: option.splits prod.splits sum.splits)
  obtain s r where m: "sqlstore_device_route_change i token p w (he_backend E) (sv_session sv) = (s, r)" by force
  with changed have "tables s \<noteq> sv_tables sv" by (auto simp: run_sql_def split: sum.splits)
  then have "token_of (sv_tables sv) i = Some token"
    using wp_error [OF route_change_token assms(1) refl] wp_result [OF route_change_token assms(1) refl] m
    by (cases r) blast+
  with b show ?thesis by (auto simp: nonempty_bearer_def split: option.splits if_splits)
qed

lemma admin_changes:
  assumes "iter_ok (b_order (he_backend E))" "sv_tables (fst (require_admin E authz meth inner sv)) \<noteq> sv_tables sv"
  shows "admin_bearer E sv authz"
proof (cases "bearer_token authz")
  case (Some b)
  then have "sv_tables (fst (hthen (valid_bearer E 0 b) (\<lambda>valid. if \<not> valid then hfail 401
      else hthen (acting_user E 1 authz) (\<lambda>user. hthen inner (audit_mutation E meth user))) sv)) \<noteq> sv_tables sv"
    using assms(2) by (simp add: require_admin_def)
  then obtain sv' where "valid_bearer E 0 b sv = (sv', Inr True)"
    by (rule hthen_changes [OF quiet_sessions(2) [OF assms(1)]]) (auto simp: hfail_def split: if_splits)
  then show ?thesis by (rule valid_bearer_passes [OF _ Some])
qed (use assms(2) in \<open>simp add: require_admin_def hfail_def\<close>)

end
