(* ===== verification/Http_Runs.thy ===== *)
theory Http_Runs
  imports Http_Access
begin

text \<open>
  Runs of the server: who may change the tables, their invariant over any sequence of requests, and the
  lockout of a revoked device.
\<close>

section \<open>A small server\<close>

definition toy_http :: http_lib where
  "toy_http = \<lparr>hl_codec = toy_key_codec, hl_crypto = toy_crypto, hl_contributory = (\<lambda>s. s \<noteq> replicate 32 0),
     hl_settings = \<lparr>sc_mtu = (\<lambda>_. None), sc_dns = (\<lambda>_. None), sc_endpoint = (\<lambda>_. None)\<rparr>,
     hl_json_value = Some, hl_verify_password = (=)\<rparr>"

definition toy_http_env :: http_env where
  "toy_http_env = \<lparr>he_backend = \<lparr>b_fault = (\<lambda>_. None), b_unique = OtherSqlx, b_order = sorted_order\<rparr>,
     he_admin_password = Some ''m'', he_random = (\<lambda>k. ''r''), he_random_32 = replicate 32 3, he_instant = (\<lambda>_. 5),
     he_unix = 7, he_millis = 7000, he_hash_password = id, he_path = ''/p''\<rparr>"

definition toy_db :: db where
  "toy_db = \<lparr>t_network = fmupd ''net-1'' \<lparr>nr_name = ''n'', nr_ipv4_pool = ''100.72.16.0/24'', nr_ipv6_ula = ''fd72:15ab::/48'', nr_config_epoch = 0\<rparr> fmempty,
     t_invite = fmempty,
     t_device = fmupd ''dev-2'' \<lparr>dr_network_id = ''net-1'', dr_name = ''d'', dr_wg_public_key = toy_k, dr_address_v4 = None,
       dr_address_v6 = None, dr_status = ''active'', dr_endpoints = None, dr_settings = None, dr_auth_token = Some ''t''\<rparr> fmempty,
     t_relay = fmempty, t_route = fmempty, t_device_stats = fmempty, t_admin = fmempty, t_audit = [], t_sequence = Some 2\<rparr>"

definition toy_server :: server where
  "toy_server = auth_new toy_http_env \<lparr>tables = toy_db, statements = 0, ss_net_index = 0, watchers = fmempty\<rparr> fmempty"

lemma toy_db_ok: "db_ok toy_key_codec toy_db"
proof -
  have "show_dec 1 = ''1''" "show_dec 2 = ''2''" by code_simp+
  then have ids: "''1'' \<noteq> show_dec (nat n)" "''2'' \<noteq> show_dec (nat n)" if "2 < n" for n
    using that show_dec_inj [of 1 "nat n"] show_dec_inj [of 2 "nat n"] by auto
  then have "ids_ok toy_db" by (auto simp: ids_ok_def toy_db_def entity_id_def)
  then show ?thesis
    by (simp add: db_ok_def devices_ok_def invites_ok_def toy_db_def toy_keys row_ok_def active_row_def)
qed

text \<open>A device is revoked with the master key.\<close>

definition toy_revocation :: "http_env \<times> string option \<times> request" where
  "toy_revocation = (toy_http_env, Some ''Bearer m'', RevokeDevice ''dev-2'')"

lemma toy_order_ok: "iter_ok (b_order (he_backend toy_http_env))"
  by (simp add: toy_http_env_def sorted_order_ok)

lemmas toy_server_defs = toy_http_env_def toy_server_def toy_db_def auth_new_def env_password_def

lemmas handler_defs = sql_router_def require_admin_def bearer_token_def valid_bearer_def acting_user_def session_user_def
  admin_handler_def admin_handler_defs respond_def hthen_def hyield_def run_sql_def audit_mutation_def request_method_def
  sqlstore_record_audit_def db_insert_audit_def sqlstore_revoke_device_def retry_def retry_from.simps
  revoke_device_once_def locked_def transaction_def integrity_lock_def statement_def select_def update_def
  andthen_def yield_def require_def db_get_device_def db_bump_network_epoch_def notify_def db_get_network_def
  set_watch_def

lemma toy_revocation_run:
  "sql_router toy_http toy_http_env (Some ''Bearer m'') (RevokeDevice ''dev-2'') toy_server = (sv, r) \<Longrightarrow>
     r = Inr (204, Empty) \<and> map_option dr_status (fmlookup (t_device (sv_tables sv)) ''dev-2'') = Some ''revoked''"
  by (auto simp: handler_defs toy_server_defs Let_def set_device_def revoke_row_def bump_row_def)

section \<open>Authorisation\<close>

text \<open>
  C11. Whatever a request asks for and whatever the database refuses, the tables change only if the
  request is authorised: with the password of the account for a login, with a fresh proof of possession
  for an enrolment, with the token of the device for what a device reports and requests, and with the
  master key or a live session for everything else. All other open requests only read.\<close>
theorem changes_are_authorised:
  assumes "iter_ok (b_order (he_backend E))"
      and "sv_tables (fst (sql_router L E authz req sv)) \<noteq> sv_tables sv"
  shows "authorised L E sv authz req"
proof -
  note keeps_tables = quiet_handlers [OF assms(1)] quiet_respond [OF quiet_sql(1) [OF sqlstore_reading(9) assms(1)]]
    quiet_respond [OF quiet_handlers(8) [OF assms(1)]]
  show ?thesis
    using assms(2) login_changes [OF assms(1)] enroll_changes device_writes_change [OF assms(1)]
      device_route_changes [OF assms(1)] admin_changes [OF assms(1)] keeps_tables [unfolded keeps_tables_def]
    unfolding sql_router_def authorised_def sql_set_endpoints_def sql_report_stats_def
    by (cases req; simp only: request.case; blast)
qed

theorem changes_are_authorised_witness:
  "iter_ok (b_order (he_backend toy_http_env)) \<and>
   sv_tables (fst (sql_router toy_http toy_http_env (Some ''Bearer m'') (RevokeDevice ''dev-2'') toy_server)) \<noteq> sv_tables toy_server \<and>
   authorised toy_http toy_http_env toy_server (Some ''Bearer m'') (RevokeDevice ''dev-2'')"
proof -
  let ?sv = "fst (sql_router toy_http toy_http_env (Some ''Bearer m'') (RevokeDevice ''dev-2'') toy_server)"
  have "map_option dr_status (fmlookup (t_device (sv_tables ?sv)) ''dev-2'') = Some ''revoked''"
    using toy_revocation_run [OF surjective_pairing] by simp
  then have changed: "sv_tables ?sv \<noteq> sv_tables toy_server" by (auto simp: toy_server_defs)
  show ?thesis using changes_are_authorised [OF toy_order_ok changed] changed toy_order_ok by blast
qed

section \<open>The invariant\<close>

text \<open>
  C13. The invariant of the tables holds after any sequence of requests, whoever sends them and whichever
  statements the database refuses: active devices of a network differ in key and IPv4 address, revoked
  devices have neither token nor address, no invite is used more often than it allows, and no identifier
  is in use that the sequence has still to hand out.\<close>
theorem server_keeps_db_ok:
  assumes "key_codec_ok (hl_codec L)" "list_all env_ok rs" "db_ok (hl_codec L) (sv_tables sv)"
  shows "db_ok (hl_codec L) (sv_tables (serve_all L rs sv))"
  using serve_all_steps [OF assms(1,2)] assms(3) by (rule db_steps_ok)

theorem server_keeps_db_ok_witness:
  "key_codec_ok (hl_codec toy_http) \<and> list_all env_ok [toy_revocation] \<and> db_ok (hl_codec toy_http) (sv_tables toy_server) \<and>
   db_ok (hl_codec toy_http) (sv_tables (serve_all toy_http [toy_revocation] toy_server))"
proof -
  have K: "key_codec_ok (hl_codec toy_http)" by (simp add: toy_http_def toy_key_codec_ok)
  have E: "list_all env_ok [toy_revocation]" using toy_order_ok by (simp add: env_ok_def toy_revocation_def)
  have D: "db_ok (hl_codec toy_http) (sv_tables toy_server)" using toy_db_ok by (simp add: toy_http_def toy_server_def auth_new_def)
  show ?thesis using server_keeps_db_ok [OF K E D] K E D by blast
qed

section \<open>Revocation\<close>

definition locked_out :: "string \<Rightarrow> db \<Rightarrow> bool" where
  "locked_out i t \<longleftrightarrow> (case fmlookup (t_device t) i of Some r \<Rightarrow> \<not> active_row r | None \<Rightarrow> False)"

lemma locked_out_imports: "imports_to K n t t' \<Longrightarrow> locked_out i t \<Longrightarrow> locked_out i t'"
  by (induction rule: imports_to.induct) (auto simp: locked_out_def add_device_def draw_def device_free_def split: option.splits)

lemma locked_out_step:
  assumes "db_step K t t'" "locked_out i t"
  shows "locked_out i t'"
  using assms(1) unfolding db_step_def
proof
  assume "tx_step K t t'"
  then show ?thesis
  proof cases
    case (step_import n t'')
    then show ?thesis using locked_out_imports [OF _ assms(2)] by (simp add: locked_out_def)
  qed (use assms(2) in \<open>auto simp: locked_out_def set_device_def fm_update_def add_device_def draw_def spend_invite_def
         drop_network_def revoke_row_def active_row_def device_free_def split: option.splits if_splits\<close>)
next
  assume "statement_step t t'"
  then show ?thesis
    by cases (use assms(2) in \<open>auto simp: locked_out_def set_device_def fm_update_def draw_def active_row_def split: option.splits if_splits\<close>)
qed

lemma locked_out_steps: "(db_step K)\<^sup>*\<^sup>* t t' \<Longrightarrow> locked_out i t \<Longrightarrow> locked_out i t'"
  by (induction rule: rtranclp_induct) (auto intro: locked_out_step)

lemma locked_out_token: "locked_out i t \<Longrightarrow> token_of t i = None"
  by (auto simp: locked_out_def token_of_def live_device_def live_row_def split: option.splits)

lemma locked_out_config:
  assumes "locked_out i (sv_tables sv)" "iter_ok (b_order (he_backend E))"
  shows "run_sql E st (sqlstore_device_config J i) sv \<noteq> (sv', Inr cfg)"
proof
  assume run: "run_sql E st (sqlstore_device_config J i) sv = (sv', Inr cfg)"
  then obtain s where "sqlstore_device_config J i (he_backend E) (sv_session sv) = (s, Inr cfg)"
    by (auto simp: run_sql_def split: prod.splits sum.splits)
  with wp_result [OF device_config_spec assms(2) refl this] assms(1) show False
    by (auto simp: locked_out_def)
qed

lemma revoke_request_locks_out:
  assumes "iter_ok (b_order (he_backend E))" "sql_router L E authz (RevokeDevice i) sv = (sv', Inr resp)"
  shows "locked_out i (sv_tables sv')"
proof -
  have revoked: "locked_out i (tables s')"
    if "sqlstore_revoke_device i (he_backend E) s = (s', Inr ())" for s s'
    using wp_result [OF revoke_device_spec assms(1) refl that]
    by (auto simp: locked_out_def set_device_def fm_update_def revoke_row_def active_row_def)
  have handler: "locked_out i (sv_tables sv2)"
    if "admin_handler L E authz (RevokeDevice i) sv1 = (sv2, Inr r)" for sv1 sv2 r
    using that
    by (auto simp: admin_handler_def admin_handler_defs respond_def hyield_def run_sql_def elim!: hthen_Inr split: prod.splits sum.splits
             intro!: revoked)
  from assms(2) have "require_admin E authz (request_method (RevokeDevice i)) (admin_handler L E authz (RevokeDevice i)) sv = (sv', Inr resp)"
    by (simp add: sql_router_def)
  then show ?thesis
    by (rule require_admin_result [OF assms(1)]) (auto dest!: handler simp: locked_out_def)
qed

text \<open>
  Once a request to revoke a device has succeeded, the device is locked out for good: after any
  further requests, by whomever and with whatever faults, no bearer but the master key passes the guard
  of the device, nobody gets a configuration for it, and no push of one is made to an open watch.\<close>
lemma revoked_device_locked_out:
  assumes "key_codec_ok (hl_codec L)" "iter_ok (b_order (he_backend E0))"
      and "sql_router L E0 authz0 (RevokeDevice i) sv = (sv1, Inr resp)"
      and "list_all env_ok rs" "iter_ok (b_order (he_backend E))"
  shows "let sv2 = serve_all L rs sv1 in
           (device_bearer E sv2 authz i \<longrightarrow> (\<exists>b. bearer_token authz = Some b \<and> is_master_bearer E b)) \<and>
           (\<nexists>x. snd (sql_router L E authz (GetConfig i) sv2) = Inr x) \<and>
           PushConfig cfg \<notin> set (fst (snd (sql_send_config L E in_time sent i cred sv2)))"
proof -
  define sv2 where "sv2 = serve_all L rs sv1"
  have out: "locked_out i (sv_tables sv2)"
    unfolding sv2_def
    using serve_all_steps [OF assms(1,4)] revoke_request_locks_out [OF assms(2,3)] by (rule locked_out_steps)
  have guard: "device_bearer E sv2 authz i \<longrightarrow> (\<exists>b. bearer_token authz = Some b \<and> is_master_bearer E b)"
    using locked_out_token [OF out] by (auto simp: device_bearer_def split: option.splits)
  have "sql_router L E authz (GetConfig i) sv2 \<noteq> (sv3, Inr x)" for sv3 x
  proof
    assume "sql_router L E authz (GetConfig i) sv2 = (sv3, Inr x)"
    then obtain sv4 sv5 c u where "require_device_read E authz i sv2 = (sv4, Inr u)"
        "run_sql E sql_status (sqlstore_device_config (hl_settings L) i) sv4 = (sv5, Inr c)"
      by (auto simp: sql_router_def sql_device_config_def respond_def elim!: hthen_Inr)
    with quietD [OF quiet_guards(2) [OF assms(5)]] out locked_out_config [OF _ assms(5)] show False by metis
  qed
  then have config: "\<nexists>x. snd (sql_router L E authz (GetConfig i) sv2) = Inr x" by (metis prod.collapse)
  have "PushConfig cfg \<notin> set (fst (snd (sql_send_config L E in_time sent i cred sv2)))"
    using locked_out_config [OF out assms(5)]
    by (auto simp: sql_send_config_def sql_send_config_inner_def split: prod.splits sum.splits)
  with guard config show ?thesis by (simp add: sv2_def Let_def)
qed

end
