(* ===== verification/Spec2Isabelle.thy ===== *)
theory Spec2Isabelle
  imports Fp_Prelude Replay_Filter Replay_Window Noise_Cryptor Relay_Hub Control_Devices Disco_Probes
    Route_Table Index_Table Gso Worker_Safety Worker_Paths Enroll_Pop Http_Runs
begin

text \<open>
  A verification library for fluxpeer, a peer-to-peer VPN: nodes that tunnel IP packets to each
  other over WireGuard-style sessions, a coordination server that hands out addresses and
  configurations, and relays for nodes that cannot reach each other directly.

  \<^bold>\<open>How the parts interact.\<close> A node enrols at the coordination server (control-server), which
  allocates its addresses and serves it the list of its peers under a configuration epoch. The
  node's data plane (node) owns one crypto tunnel per peer (engine/crypto), finds paths to the
  peers by discovery probes (engine/net/fp-disco), and falls back to a relay (relay-server).
  Packets from the tunnel interface are routed to peers by longest prefix, and packets from peers
  are admitted by the same table.

  \<^bold>\<open>Conventions.\<close> Machine integers are words of their width; byte arrays are lists of 8-bit words;
  a fallible function returns a sum with the error on the left; a loop whose end is a theorem is a
  \<^theory_text>\<open>partial_function (option)\<close>. Mutable state is passed and returned. A hash map is a finite
  map; where the source iterates over one, the order of iteration is an argument that visits every
  key once (\<open>iter_ok\<close>, Hash_Map). Clock readings, random bytes and outcomes of system calls are
  arguments. Code that is not under src/ is a record of functions: the primitives of the Noise
  layer are \<open>crypto\<close> with the laws \<open>crypto_ok\<close>, the hex and base64 encodings are \<open>key_codec\<close> with
  \<open>key_codec_ok\<close>; both have an instance that satisfies the laws.

  \<^bold>\<open>Shared theories.\<close> Fp_Prelude: results, slices, integers as bytes, constant-time comparison,
  addresses. Fp_Text and Ip_Text: the text operations, integer and address parsers and printers of
  the standard library, with their round trips. Hash_Map: hash maps. Three interfaces are
  locales: Replay_Filter (an identifier is accepted at most once; interpreted by the counter window,
  the session, the handshake timestamps and the ping cache), Wire_Codec (a self-delimiting codec and
  the frame reader over it; interpreted by the relay and the discovery protocol) and Address_Pool
  (a key keeps its address and no two keys share one; interpreted by the IPAM).

  \<^bold>\<open>The crypto layer\<close> (engine/crypto/fp-crypto-noise, fp-crypto). Replay_Window is the 1024-bit
  window of session.rs and proves it the refinement of a window over all counters. Noise_Crypto
  wraps the primitives. Sleepy_Instant is the clock of sleepyinstant. Noise_Session is session.rs,
  Noise_Handshake handshake.rs, Noise_Tunnel noise.rs and verifier.rs, Noise_Cryptor crypto.rs and
  raw_crypto.rs. The theorems: two tunnels complete the handshake and deliver packets in both
  directions, the AEAD never sees a nonce twice under a sending key, packets and initiations are accepted at most once, the
  sending session moves only to an authenticated one and does not roll back, refused packets change nothing, decapsulation returns.

  \<^bold>\<open>The relay\<close> (relay-server). Relay_Proto is proto.rs and the frame reader of server.rs; Relay_Hub
  is hub.rs, ratelimit.rs and the connection handlers of server.rs as a step relation over the
  shared hub, with the invariant that a registration belongs to a live proven connection. Float64 is
  the rounding arithmetic of the rate limiter, whose bound holds up to that rounding.

  \<^bold>\<open>The coordination server\<close> (control-server, sdk). Ip_Prefix and Wg_Key are sdk prefix.rs and
  key.rs, Ipam is ipam.rs, Control_Store is state.rs and domain.rs with the requests as a datatype.
  Control_Invariants keeps the store well formed over every run, Control_Sync shows that the epoch
  announces every change of a configuration, Control_Devices that addresses are unique and that
  revocation cuts a device off, with the run in which a second revocation breaks uniqueness.
  Enroll_Pop is pop.rs, the challenge by which a node proves that it holds the key it enrols: a proof
  is accepted only for a fresh challenge that no other proof has named, and an honest client that
  answers in time passes unless another proof has used its challenge up.

  \<^bold>\<open>Its persistent store and HTTP interface\<close> (control-server). Sql_Tables is persistence.rs, contention.rs
  and the lock and the identifiers of integrity.rs: the tables as finite maps, a definition per query,
  transactions and retries, with a backend that may refuse any statement. Sql_Store is sql_store.rs and
  device_routes.rs, an action per operation. Sql_Rules are the proof rules of actions; Sql_Steps
  reduces every operation, on success and on failure, to steps of the tables, Sql_Invariants shows that the
  steps keep the tables well formed, and Sql_Epochs that a transaction which changes what the
  configurations of a network are built from moves the epoch of that network by one. Http_Auth is auth.rs
  and the guards of lib.rs, Http_Api the handlers, the router and the watch loop of lib.rs. Http_Safety shows that requests
  perform steps, Http_Access which bearers pass the guards, and Http_Runs that tables change only for
  authorised requests, stay well formed over every sequence of requests, and that a revoked device is
  locked out for good. Requests run one after the other, and a commit that is reported as failed has
  not happened.

  \<^bold>\<open>The data plane of a node\<close> (node, engine/net). Disco_Codec is fp-disco, Disco_Probes disco.rs and
  the datagrams of util.rs, Route_Table and Index_Table the tables of worker.rs, Gso the send side
  of gso.rs. Node_Peer is peer.rs with the counters of status.rs: a peer, the ladder of paths it is
  sent to (UDP, TCP, relay) and the handling of its handshakes and data. Node_Worker is the rest of
  worker.rs: the dispatcher, the tick and a handler per message. A handler returns the list of what
  it sends; what it reads of the clock, the random generator and the relay is a function of the
  point at which it reads. Peer_Invariants and Worker_Invariants show that every message is handled
  and keeps the invariant. Worker_Safety draws the consequences (what reaches the tunnel interface
  is authorised, a removed peer is cut off, endpoints move only on evidence, what a peer sends on a
  session is dispatched and delivered to it, and egress skips the TCP path) and Worker_Paths shows that the choice of path
  converges to the relay when the direct path is silent and back when it has recovered.

  \<^bold>\<open>Bounds.\<close> The only bounds assumed are those of the machine: the identifiers a run of the store
  draws fit its 64-bit counter (\<open>run_ok\<close>), and lengths that are sent fit their length field. The replay
  window is shown correct for counters other than \<open>2^64 - 1\<close>, which wraps it (the lemma
  \<open>last_counter_replays\<close>), and equal to the abstract window below \<open>2^64 - 1024\<close>; honest senders stop at
  \<open>2^48\<close>. The ping cache is shown correct for a clock that does not go back.

  \<^bold>\<open>Not modelled.\<close> Socket and process plumbing (accept loops, the daemon, the tunnel device, DNS and
  firewall commands of the operating system), the migration of old databases, the parsing of HTTP
  requests and the limits on them, the command line and the foreign-function interfaces: what they do
  is calls into the operating system or third-party packages.
\<close>

end
